(* ===== verification/Prelude.thy ===== *)
theory Prelude
  imports Main "HOL-Library.Word"
begin

text \<open>
  Shared vocabulary of the development: the byte types, the faults a C++ operation can
  run into, the result type \<open>fault + 'a\<close> with its sequencing operator, arithmetic on
  \<open>size_t\<close>, the little memory operations the code takes from the C library (\<open>memcpy\<close>,
  \<open>strnlen\<close>), the byte order of the integers that \<open>Packer\<close> and \<open>Unpacker\<close> copy, and
  the records that the \<open>Log\<close> library receives.
\<close>

section \<open>Machine types\<close>

type_synonym u8 = "8 word"
type_synonym u16 = "16 word"
type_synonym u32 = "32 word"

section \<open>Results that can fault\<close>

text \<open>
  \<open>Assert_Failed\<close> is a failing \<^verbatim>\<open>assert\<close> (the program aborts), \<open>Out_Of_Bounds\<close> an
  access outside the storage a pointer stands for, \<open>Null_Deref\<close> a dereference of a null
  pointer, and \<open>Indeterminate\<close> a read of a variable that was never written.
\<close>

datatype fault = Assert_Failed | Out_Of_Bounds | Null_Deref | Indeterminate

type_synonym 'a res = "fault + 'a"

named_theorems res_simps \<open>equations that evaluate operations with a result type\<close>
named_theorems wf_rules \<open>well-formedness is kept by the operations\<close>

definition bind_res :: "'e + 'a \<Rightarrow> ('a \<Rightarrow> 'e + 'b) \<Rightarrow> 'e + 'b" where
  "bind_res m f = (case m of Inl e \<Rightarrow> Inl e | Inr x \<Rightarrow> f x)"

lemma bind_res_Inl [simp]: "bind_res (Inl e) f = Inl e"
  by (simp add: bind_res_def)

lemma bind_res_Inr [simp]: "bind_res (Inr x) f = f x"
  by (simp add: bind_res_def)

lemma bind_res_eq_Inr: "bind_res m f = Inr y \<longleftrightarrow> (\<exists>x. m = Inr x \<and> f x = Inr y)"
  by (cases m) auto

lemma bind_res_assoc: "bind_res (bind_res m f) g = bind_res m (\<lambda>x. bind_res (f x) g)"
  by (cases m) auto

lemma bind_res_split:
  "P (bind_res m f) \<longleftrightarrow> (\<forall>e. m = Inl e \<longrightarrow> P (Inl e)) \<and> (\<forall>x. m = Inr x \<longrightarrow> P (f x))"
  by (cases m) auto

definition assert_res :: "bool \<Rightarrow> unit res" where
  "assert_res b = (if b then Inr () else Inl Assert_Failed)"

lemma assert_res_True [simp]: "assert_res True = Inr ()"
  by (simp add: assert_res_def)

lemma assert_res_False [simp]: "assert_res False = Inl Assert_Failed"
  by (simp add: assert_res_def)

text \<open>Repeating an operation over a list of arguments, stopping at the first fault.\<close>

fun fold_res :: "('s \<Rightarrow> 'b \<Rightarrow> 'e + 's) \<Rightarrow> 's \<Rightarrow> 'b list \<Rightarrow> 'e + 's" where
  "fold_res f s [] = Inr s"
| "fold_res f s (b # bs) = bind_res (f s b) (\<lambda>s'. fold_res f s' bs)"

lemma fold_res_append:
  "fold_res f s (xs @ ys) = bind_res (fold_res f s xs) (\<lambda>s'. fold_res f s' ys)"
  by (induction xs arbitrary: s) (auto simp: bind_res_assoc)

section \<open>Arithmetic on sizes\<close>

text \<open>
  \<^verbatim>\<open>size_t\<close> is 32 bits wide on the microcontrollers the library targets. Lengths are
  natural numbers and the wrap-around is written out in the two operations below.
\<close>

definition size_range :: nat where
  "size_range = 2 ^ 32"

definition size_add :: "nat \<Rightarrow> nat \<Rightarrow> nat" where
  "size_add a b = (a + b) mod size_range"

definition size_sub :: "nat \<Rightarrow> nat \<Rightarrow> nat" where
  "size_sub a b = (a + (size_range - b mod size_range)) mod size_range"

lemma size_add_small: "a + b < size_range \<Longrightarrow> size_add a b = a + b"
  by (simp add: size_add_def)

lemma size_sub_small:
  assumes "b \<le> a" "a < size_range"
  shows "size_sub a b = a - b"
proof -
  have "a + (size_range - b) = (a - b) + size_range"
    using assms by simp
  then have "(a + (size_range - b)) mod size_range = (a - b) mod size_range"
    by simp
  with assms show ?thesis
    by (simp add: size_sub_def)
qed

lemma size_sub_wraps:
  assumes "a < b" "b < size_range"
  shows "size_sub a b = a + (size_range - b)"
  using assms by (simp add: size_sub_def)

section \<open>Memory\<close>

text \<open>
  A pointer to bytes is the list of the bytes that may be read from it on. \<^verbatim>\<open>memcpy\<close>
  faults unless both ranges lie inside their storage.
\<close>

definition memcpy :: "u8 list \<Rightarrow> nat \<Rightarrow> u8 list \<Rightarrow> nat \<Rightarrow> u8 list res" where
  "memcpy dst off src n =
     (if off + n \<le> length dst \<and> n \<le> length src
      then Inr (take off dst @ take n src @ drop (off + n) dst)
      else Inl Out_Of_Bounds)"

lemma memcpy_ok [res_simps]:
  "off + n \<le> length dst \<Longrightarrow> n \<le> length src \<Longrightarrow>
     memcpy dst off src n = Inr (take off dst @ take n src @ drop (off + n) dst)"
  by (simp add: memcpy_def)

definition read_at :: "u8 list \<Rightarrow> nat \<Rightarrow> u8 res" where
  "read_at mem i = (if i < length mem then Inr (mem ! i) else Inl Out_Of_Bounds)"

definition write_at :: "u8 list \<Rightarrow> nat \<Rightarrow> u8 \<Rightarrow> u8 list res" where
  "write_at mem i b = (if i < length mem then Inr (mem[i := b]) else Inl Out_Of_Bounds)"

lemma read_at_ok [res_simps]: "i < length mem \<Longrightarrow> read_at mem i = Inr (mem ! i)"
  by (simp add: read_at_def)

lemma write_at_ok [res_simps]: "i < length mem \<Longrightarrow> write_at mem i b = Inr (mem[i := b])"
  by (simp add: write_at_def)

text \<open>\<^verbatim>\<open>strnlen(mem, n)\<close>: the bytes before the first null byte, at most \<open>n\<close>.\<close>

fun strnlen :: "u8 list \<Rightarrow> nat \<Rightarrow> nat res" where
  "strnlen mem 0 = Inr 0"
| "strnlen [] (Suc n) = Inl Out_Of_Bounds"
| "strnlen (b # mem) (Suc n) =
     (if b = 0 then Inr 0 else bind_res (strnlen mem n) (\<lambda>k. Inr (Suc k)))"

lemma strnlen_cstring [res_simps]:
  "0 \<notin> set s \<Longrightarrow> length s < n \<Longrightarrow> strnlen (s @ 0 # rest) n = Inr (length s)"
proof (induction s arbitrary: n)
  case Nil
  then show ?case by (cases n) auto
next
  case (Cons b s)
  then show ?case by (cases n) auto
qed

lemma strnlen_long [res_simps]:
  "0 \<notin> set s \<Longrightarrow> n \<le> length s \<Longrightarrow> strnlen (s @ rest) n = Inr n"
proof (induction s arbitrary: n)
  case Nil
  then show ?case by simp
next
  case (Cons b s)
  then show ?case by (cases n) auto
qed

section \<open>Byte order\<close>

text \<open>
  \<open>Packer\<close> and \<open>Unpacker\<close> copy integers as they lie in memory; the targets (and the
  hosts of the tests) are little-endian. \<open>le_bytes n w\<close> is the \<open>n\<close> bytes of \<open>w\<close> from
  the low one up, \<open>of_le_bytes\<close> reads them back.
\<close>

fun le_bytes :: "nat \<Rightarrow> 'a::len word \<Rightarrow> u8 list" where
  "le_bytes 0 w = []"
| "le_bytes (Suc n) w = ucast w # le_bytes n (drop_bit 8 w)"

fun of_le_bytes :: "u8 list \<Rightarrow> 'a::len word" where
  "of_le_bytes [] = 0"
| "of_le_bytes (b # bs) = or (ucast b) (push_bit 8 (of_le_bytes bs))"

definition sizeof :: "'a::len itself \<Rightarrow> nat" where
  "sizeof t = LENGTH('a) div 8"

lemma length_le_bytes [simp]: "length (le_bytes n w) = n"
  by (induction n arbitrary: w) auto

lemma of_le_bytes_take_bit:
  "(of_le_bytes (le_bytes n w) :: 'a::len word) = take_bit (8 * n) w"
proof (induction n arbitrary: w)
  case 0
  then show ?case by simp
next
  case (Suc n)
  show ?case
  proof (rule bit_word_eqI)
    fix i
    assume "i < LENGTH('a)"
    then show "bit (of_le_bytes (le_bytes (Suc n) w) :: 'a word) i
        = bit (take_bit (8 * Suc n) w) i"
      using Suc
      by (auto simp: bit_simps not_le less_diff_conv2 add.commute)
  qed
qed

lemma of_le_bytes_le_bytes:
  assumes "8 dvd LENGTH('a)"
  shows "(of_le_bytes (le_bytes (sizeof TYPE('a)) w) :: 'a::len word) = w"
  using assms by (simp add: of_le_bytes_take_bit sizeof_def take_bit_word_eq_self)

lemma nth_le_bytes: "i < n \<Longrightarrow> le_bytes n w ! i = ucast (drop_bit (8 * i) w)"
proof (induction n arbitrary: i w)
  case (Suc n)
  then show ?case by (cases i) (simp_all add: drop_bit_drop_bit add.commute)
qed simp

lemma bit_of_le_bytes:
  "bit (of_le_bytes bs :: 'a::len word) i \<longleftrightarrow>
     i < LENGTH('a) \<and> i div 8 < length bs \<and> bit (bs ! (i div 8)) (i mod 8)"
proof (induction bs arbitrary: i)
  case Nil
  then show ?case by simp
next
  case (Cons b bs)
  show ?case
  proof (cases "i < 8")
    case True
    then show ?thesis by (auto simp: bit_simps)
  next
    case False
    then obtain j where j: "i = j + 8"
      by (metis add.commute le_Suc_ex not_less)
    have "(j + 8) div 8 = Suc (j div 8)" "(j + 8) mod 8 = j mod 8"
      by simp_all
    with Cons.IH[of j] show ?thesis
      by (auto simp: j bit_simps dest: bit_imp_le_length)
  qed
qed

lemma le_bytes_of_le_bytes:
  assumes "n = length bs" "8 * n \<le> LENGTH('a)"
  shows "le_bytes n (of_le_bytes bs :: 'a::len word) = bs"
proof (rule nth_equalityI)
  show "length (le_bytes n (of_le_bytes bs :: 'a word)) = length bs"
    using assms(1) by simp
next
  fix i
  assume "i < length (le_bytes n (of_le_bytes bs :: 'a word))"
  then have i: "i < n" by simp
  show "le_bytes n (of_le_bytes bs :: 'a word) ! i = bs ! i"
  proof (rule bit_word_eqI)
    fix j
    assume j: "j < LENGTH(8)"
    then have "(8 * i + j) div 8 = i" "(8 * i + j) mod 8 = j" "8 * i + j < LENGTH('a)"
      using i assms(2) by auto
    with i j assms(1) show "bit (le_bytes n (of_le_bytes bs :: 'a word) ! i) j = bit (bs ! i) j"
      by (simp add: nth_le_bytes bit_simps bit_of_le_bytes)
  qed
qed

section \<open>What is logged\<close>

text \<open>
  The code calls the static functions \<open>Log::info\<close> and \<open>Log::error\<close> and the function
  \<open>DumpMem\<close> of \<^verbatim>\<open>duino_log\<close>, which is not part of the repository. Each call is kept as
  an event with its format string and its arguments.
\<close>

datatype log_arg = A_Str string | A_Byte u8 | A_Size nat | A_Int int

datatype log_event =
    Log_info string "log_arg list"
  | Log_error string "log_arg list"
  | DumpMem string nat "u8 list"

end
