(* ===== verification/Append_Buffer.thy ===== *)
theory Append_Buffer
  imports Prelude
begin

text \<open>
  The interface of a bounded buffer that grows at its end, as the encoders of data
  (\<open>PacketDecoder\<close>, \<open>Packer\<close>, \<open>BusLog\<close>) use a packet: one operation appends a byte, one
  appends a block, both abort when there is no room. The laws tie them to an abstract
  update \<open>put\<close>; inside the locale a block append is shown to be the byte appends one
  after the other, whatever the provider does internally.
\<close>

locale append_buffer =
  fixes inv :: "'p \<Rightarrow> bool"
    and view :: "'p \<Rightarrow> 'b list"
    and capacity :: "'p \<Rightarrow> nat"
    and put :: "'b list \<Rightarrow> 'p \<Rightarrow> 'p"
    and push :: "'b \<Rightarrow> 'p \<Rightarrow> 'p res"
    and push_block :: "nat \<Rightarrow> 'b list \<Rightarrow> 'p \<Rightarrow> 'p res"
  assumes bounded: "inv p \<Longrightarrow> length (view p) \<le> capacity p \<and> capacity p < size_range"
    and put_inv: "inv p \<Longrightarrow> length (view p) + length bs \<le> capacity p \<Longrightarrow> inv (put bs p)"
    and put_view: "inv p \<Longrightarrow> length (view p) + length bs \<le> capacity p \<Longrightarrow>
      view (put bs p) = view p @ bs"
    and put_capacity: "capacity (put bs p) = capacity p"
    and put_empty: "put [] p = p"
    and put_twice: "inv p \<Longrightarrow> put ys (put xs p) = put (xs @ ys) p"
    and push_fits: "inv p \<Longrightarrow> length (view p) < capacity p \<Longrightarrow> push b p = Inr (put [b] p)"
    and push_full: "inv p \<Longrightarrow> length (view p) = capacity p \<Longrightarrow> push b p = Inl Assert_Failed"
    and block_fits: "inv p \<Longrightarrow> length (view p) + n \<le> capacity p \<Longrightarrow> n \<le> length bs \<Longrightarrow>
      push_block n bs p = Inr (put (take n bs) p)"
    and block_full: "inv p \<Longrightarrow> capacity p < length (view p) + n \<Longrightarrow>
      length (view p) + n < size_range \<Longrightarrow> push_block n bs p = Inl Assert_Failed"
begin

lemma push_all_fits:
  "inv p \<Longrightarrow> length (view p) + length bs \<le> capacity p \<Longrightarrow>
     fold_res (\<lambda>p b. push b p) p bs = Inr (put bs p)"
proof (induction bs arbitrary: p)
  case Nil
  then show ?case by (simp add: put_empty)
next
  case (Cons b bs)
  have step: "push b p = Inr (put [b] p)"
    using Cons.prems by (intro push_fits) auto
  have "inv (put [b] p)" "view (put [b] p) = view p @ [b]"
    using Cons.prems by (auto intro!: put_inv put_view)
  with Cons.prems have "fold_res (\<lambda>p b. push b p) (put [b] p) bs = Inr (put bs (put [b] p))"
    by (intro Cons.IH) (auto simp: put_capacity)
  with step Cons.prems show ?case
    by (simp add: put_twice)
qed

lemma push_all_full:
  assumes "inv p" "capacity p < length (view p) + length bs"
  shows "fold_res (\<lambda>p b. push b p) p bs = Inl Assert_Failed"
proof -
  define k where "k = capacity p - length (view p)"
  have k: "length (view p) + k = capacity p" "k < length bs"
    using assms bounded[OF assms(1)] by (auto simp: k_def)
  then obtain b rest where split: "drop k bs = b # rest"
    by (cases "drop k bs") auto
  let ?q = "put (take k bs) p"
  have len: "length (take k bs) = k"
    using k by simp
  have filled: "fold_res (\<lambda>p b. push b p) p (take k bs) = Inr ?q"
    using assms k len by (intro push_all_fits) auto
  have "inv ?q" "length (view ?q) = capacity ?q"
    using assms k len by (auto simp: put_inv put_view put_capacity)
  then have "push b ?q = Inl Assert_Failed"
    by (rule push_full)
  moreover have "bs = take k bs @ b # rest"
    by (metis append_take_drop_id split)
  ultimately show ?thesis
    by (metis (no_types, lifting) bind_res_Inl bind_res_Inr filled fold_res.simps(2)
        fold_res_append)
qed

lemma block_is_push_all:
  assumes "inv p" "n \<le> length bs" "length (view p) + n < size_range"
  shows "push_block n bs p = fold_res (\<lambda>p b. push b p) p (take n bs)"
proof (cases "length (view p) + n \<le> capacity p")
  case True
  with assms show ?thesis
    by (simp add: block_fits push_all_fits)
next
  case False
  with assms show ?thesis
    by (simp add: block_full push_all_full)
qed

lemma block_then_block:
  assumes "inv p" "length (view p) + length xs + length ys < size_range"
  shows "bind_res (push_block (length xs) xs p) (push_block (length ys) ys)
       = push_block (length (xs @ ys)) (xs @ ys) p"
proof (cases "length (view p) + length xs \<le> capacity p")
  case True
  with assms have xs: "push_block (length xs) xs p = Inr (put xs p)"
    by (simp add: block_fits)
  have q: "inv (put xs p)" "view (put xs p) = view p @ xs"
    using assms True by (auto simp: put_inv put_view)
  with assms have "push_block (length ys) ys (put xs p)
      = fold_res (\<lambda>p b. push b p) (put xs p) ys"
    by (simp add: block_is_push_all)
  moreover have "fold_res (\<lambda>p b. push b p) p xs = Inr (put xs p)"
    using assms(1) True by (rule push_all_fits)
  moreover have "push_block (length (xs @ ys)) (xs @ ys) p
      = fold_res (\<lambda>p b. push b p) p (take (length (xs @ ys)) (xs @ ys))"
    using assms by (intro block_is_push_all) auto
  ultimately show ?thesis
    using xs by (simp add: fold_res_append)
next
  case False
  with assms show ?thesis
    by (simp add: block_full)
qed

end

end
