(* ===== verification/Packets.thy ===== *)
theory Packets
  imports Append_Buffer
begin

text \<open>
  The class \<open>Packet\<close> of \<^verbatim>\<open>src/duino_bus/Packet.h\<close> and \<^verbatim>\<open>src/Packet.cpp\<close>: its fields, its
  error codes, one definition per method, the well-formedness every method keeps, and the
  abstract view of a packet as a bounded list of bytes, stated as the locale
  \<open>append_buffer\<close> and interpreted on the methods.
\<close>

section \<open>Constants and error codes\<close>

definition END :: u8 where "END = 0xC0"
definition ESC :: u8 where "ESC = 0xDB"
definition ESC_END :: u8 where "ESC_END = 0xDC"
definition ESC_ESC :: u8 where "ESC_ESC = 0xDD"

lemmas frame_consts = END_def ESC_def ESC_END_def ESC_ESC_def

text \<open>
  \<open>Packet::Error\<close>. A C++ enum can hold values outside its enumerators (the tests build
  one with a cast); they are \<open>OTHER_ERROR\<close>.
\<close>

datatype error =
    NONE | NOT_DONE | CRC | TIMEOUT | TOO_MUCH_DATA | TOO_SMALL | BAD_STATE | OS
  | OTHER_ERROR nat

fun error_value :: "error \<Rightarrow> nat" where
  "error_value NONE = 0"
| "error_value NOT_DONE = 1"
| "error_value CRC = 2"
| "error_value TIMEOUT = 3"
| "error_value TOO_MUCH_DATA = 4"
| "error_value TOO_SMALL = 5"
| "error_value BAD_STATE = 6"
| "error_value OS = 7"
| "error_value (OTHER_ERROR n) = n"

fun as_str :: "error \<Rightarrow> string" where
  "as_str NONE = ''NONE''"
| "as_str NOT_DONE = ''NOT_DONE''"
| "as_str CRC = ''CRC''"
| "as_str TIMEOUT = ''TIMEOUT''"
| "as_str TOO_MUCH_DATA = ''TOO_MUCH_DATA''"
| "as_str TOO_SMALL = ''TOO_SMALL''"
| "as_str BAD_STATE = ''BAD_STATE''"
| "as_str OS = ''OS''"
| "as_str (OTHER_ERROR n) = ''???''"

definition CORE_COMMAND_BASE :: u8 where "CORE_COMMAND_BASE = 0x00"
definition LITTLEFS_COMMAND_BASE :: u8 where "LITTLEFS_COMMAND_BASE = 0x40"
definition HWTESTER_COMMAND_BASE :: u8 where "HWTESTER_COMMAND_BASE = 0x80"

section \<open>The packet\<close>

text \<open>
  \<open>m_data\<close> is the storage the caller passed to the constructor; \<open>m_dataLen\<close> bytes of it
  are in use. The constructor leaves \<open>m_crc\<close> unwritten, so its first value is an argument.
\<close>

record packet =
  m_command :: u8
  m_maxDataLen :: nat
  m_dataLen :: nat
  m_data :: "u8 list"
  m_crc :: u8

definition new_packet :: "nat \<Rightarrow> u8 list \<Rightarrow> u8 \<Rightarrow> packet" where
  "new_packet maxData storage garbage =
     \<lparr>m_command = 0, m_maxDataLen = maxData, m_dataLen = 0, m_data = storage, m_crc = garbage\<rparr>"

definition getCommand :: "packet \<Rightarrow> u8" where
  "getCommand p = m_command p"

definition setCommand :: "u8 \<Rightarrow> packet \<Rightarrow> packet" where
  "setCommand cmd p = p\<lparr>m_command := cmd\<rparr>"

definition getMaxDataLength :: "packet \<Rightarrow> nat" where
  "getMaxDataLength p = m_maxDataLen p"

definition getDataLength :: "packet \<Rightarrow> nat" where
  "getDataLength p = m_dataLen p"

definition getSpaceRemaining :: "packet \<Rightarrow> nat" where
  "getSpaceRemaining p = size_sub (m_maxDataLen p) (m_dataLen p)"

text \<open>\<open>getData\<close> returns a pointer to the storage.\<close>

definition getData :: "packet \<Rightarrow> u8 list" where
  "getData p = m_data p"

text \<open>\<open>getWriteData\<close> returns a pointer into the storage: its offset.\<close>

definition getWriteData :: "nat \<Rightarrow> packet \<Rightarrow> nat \<times> packet" where
  "getWriteData numBytes p =
     (m_dataLen p, p\<lparr>m_dataLen := size_add (m_dataLen p) numBytes\<rparr>)"

definition appendByte :: "u8 \<Rightarrow> packet \<Rightarrow> packet res" where
  "appendByte byte p =
     bind_res (assert_res (getDataLength p < getMaxDataLength p)) (\<lambda>_.
     bind_res (write_at (m_data p) (m_dataLen p) byte) (\<lambda>data.
       Inr (p\<lparr>m_data := data, m_dataLen := m_dataLen p + 1\<rparr>)))"

definition appendData :: "nat \<Rightarrow> u8 list \<Rightarrow> packet \<Rightarrow> packet res" where
  "appendData dataLen data p =
     bind_res (assert_res (size_add (getDataLength p) dataLen \<le> getMaxDataLength p)) (\<lambda>_.
       if dataLen > 0 then
         bind_res (memcpy (m_data p) (m_dataLen p) data dataLen) (\<lambda>mem.
           Inr (p\<lparr>m_data := mem, m_dataLen := size_add (m_dataLen p) dataLen\<rparr>))
       else Inr p)"

definition setData :: "nat \<Rightarrow> u8 list \<Rightarrow> packet \<Rightarrow> packet res" where
  "setData dataLen data p =
     (let p = p\<lparr>m_dataLen := 0\<rparr> in
      if dataLen > 0 then appendData dataLen data p else Inr p)"

text \<open>The template \<open>append\<close> for an integer type.\<close>

definition append_word :: "'a::len word \<Rightarrow> packet \<Rightarrow> packet res" where
  "append_word w p = appendData (sizeof TYPE('a)) (le_bytes (sizeof TYPE('a)) w) p"

text \<open>\<open>append(char const*)\<close>: \<open>str\<close> is the memory the pointer leads to.\<close>

definition append_str :: "u8 list \<Rightarrow> packet \<Rightarrow> packet res" where
  "append_str str p =
     bind_res (strnlen str 256) (\<lambda>n.
       let strLength = word_of_nat (n + 1) :: u8 in
       bind_res (append_word strLength p) (\<lambda>p.
         appendData (unat strLength) str p))"

definition getCrc :: "packet \<Rightarrow> u8" where
  "getCrc p = m_crc p"

text \<open>
  \<open>Crc8\<close> of \<^verbatim>\<open>duino_util\<close> is not part of the repository. Both overloads are parameters:
  one folds a byte into a CRC, the other a block of bytes.
\<close>

record crc_fns =
  Crc8_byte :: "u8 \<Rightarrow> u8 \<Rightarrow> u8"
  Crc8_data :: "u8 \<Rightarrow> u8 list \<Rightarrow> u8"

text \<open>Reading the \<open>getDataLength()\<close> bytes from \<open>getData()\<close> on.\<close>

definition read_data :: "packet \<Rightarrow> u8 list res" where
  "read_data p =
     (if getDataLength p \<le> length (getData p) then Inr (take (getDataLength p) (getData p))
      else Inl Out_Of_Bounds)"

definition calcCrc :: "crc_fns \<Rightarrow> packet \<Rightarrow> u8 res" where
  "calcCrc crc p =
     (let expectedCrc = Crc8_byte crc 0 (m_command p) in
      bind_res (read_data p) (\<lambda>data. Inr (Crc8_data crc expectedCrc data)))"

definition extractCrc :: "packet \<Rightarrow> (u8 \<times> packet) res" where
  "extractCrc p =
     bind_res (assert_res (m_dataLen p \<ge> 1)) (\<lambda>_.
       let p = p\<lparr>m_dataLen := m_dataLen p - 1\<rparr> in
       bind_res (read_at (m_data p) (m_dataLen p)) (\<lambda>c.
         Inr (c, p\<lparr>m_crc := c\<rparr>)))"

definition calcAndStoreCrc :: "crc_fns \<Rightarrow> packet \<Rightarrow> packet res" where
  "calcAndStoreCrc crc p = bind_res (calcCrc crc p) (\<lambda>c. Inr (p\<lparr>m_crc := c\<rparr>))"

definition removeByte :: "packet \<Rightarrow> packet" where
  "removeByte p = (if m_dataLen p > 0 then p\<lparr>m_dataLen := m_dataLen p - 1\<rparr> else p)"

text \<open>
  \<open>dump\<close> logs the header and the data. \<open>bus\<close> is the \<open>as_str\<close> method of the bus the packet
  is associated with, if there is one.
\<close>

definition dump :: "string \<Rightarrow> (u8 \<Rightarrow> string) option \<Rightarrow> packet \<Rightarrow> (log_event list) res" where
  "dump label bus p =
     (let cmd = getCommand p;
          cmd_str = (case bus of None \<Rightarrow> ''???'' | Some bus_as_str \<Rightarrow> bus_as_str cmd) in
      bind_res (read_data p) (\<lambda>data.
        Inr [Log_info ''%s: Command: 0x%02x (%s) Len: %zu CRC: 0x%02x''
               [A_Str label, A_Byte cmd, A_Str cmd_str, A_Size (getDataLength p), A_Byte (getCrc p)],
             DumpMem label 0 data]))"


section \<open>Well-formedness and contents\<close>

definition packet_wf :: "packet \<Rightarrow> bool" where
  "packet_wf p \<longleftrightarrow> m_dataLen p \<le> m_maxDataLen p \<and> m_maxDataLen p \<le> length (m_data p) \<and>
     m_maxDataLen p < size_range"

definition contents :: "packet \<Rightarrow> u8 list" where
  "contents p = take (m_dataLen p) (m_data p)"

text \<open>
  \<open>put bs p\<close> is \<open>p\<close> with the bytes \<open>bs\<close> written after its contents: what the append
  operations leave behind when the bytes fit.
\<close>

definition put :: "u8 list \<Rightarrow> packet \<Rightarrow> packet" where
  "put bs p = p\<lparr>m_data := take (m_dataLen p) (m_data p) @ bs @ drop (m_dataLen p + length bs) (m_data p),
     m_dataLen := m_dataLen p + length bs\<rparr>"

definition fits :: "packet \<Rightarrow> nat \<Rightarrow> bool" where
  "fits p n \<longleftrightarrow> length (contents p) + n \<le> m_maxDataLen p"

lemma length_contents [simp]: "packet_wf p \<Longrightarrow> length (contents p) = m_dataLen p"
  by (simp add: packet_wf_def contents_def)

lemma packet_wf_bounds: 
  "packet_wf p \<Longrightarrow> m_dataLen p \<le> m_maxDataLen p"
  "packet_wf p \<Longrightarrow> m_dataLen p \<le> length (m_data p)"
  "packet_wf p \<Longrightarrow> m_maxDataLen p < size_range"
  "packet_wf p \<Longrightarrow> m_maxDataLen p \<le> length (m_data p)"
  by (auto simp: packet_wf_def)

lemma fits_iff: "packet_wf p \<Longrightarrow> fits p n \<longleftrightarrow> m_dataLen p + n \<le> m_maxDataLen p"
  by (simp add: fits_def)

lemma put_fields [simp]:
  "m_command (put bs p) = m_command p" "m_maxDataLen (put bs p) = m_maxDataLen p"
  "m_crc (put bs p) = m_crc p" "m_dataLen (put bs p) = m_dataLen p + length bs"
  by (simp_all add: put_def)

lemma put_Nil [simp]: "put [] p = p"
  by (simp add: put_def)

lemma put_wf [wf_rules]:
  "packet_wf p \<Longrightarrow> m_dataLen p + length bs \<le> m_maxDataLen p \<Longrightarrow> packet_wf (put bs p)"
  by (auto simp: packet_wf_def put_def)

lemma contents_put [simp]:
  "m_dataLen p \<le> length (m_data p) \<Longrightarrow> contents (put bs p) = contents p @ bs"
  by (simp add: contents_def put_def)

lemma put_put:
  "m_dataLen p \<le> length (m_data p) \<Longrightarrow> put ys (put xs p) = put (xs @ ys) p"
  by (simp add: put_def add.assoc add.commute add.left_commute)

lemma contents_empty [simp]: "contents (p\<lparr>m_dataLen := 0\<rparr>) = []"
  by (simp add: contents_def)

lemma packet_wf_updates [simp, wf_rules]:
  "packet_wf (p\<lparr>m_command := c\<rparr>) = packet_wf p"
  "packet_wf (p\<lparr>m_crc := r\<rparr>) = packet_wf p"
  "packet_wf p \<Longrightarrow> packet_wf (p\<lparr>m_dataLen := 0\<rparr>)"
  "packet_wf p \<Longrightarrow> packet_wf (p\<lparr>m_dataLen := m_dataLen p - 1\<rparr>)"
  by (auto simp: packet_wf_def)

lemma contents_updates [simp]:
  "contents (p\<lparr>m_command := c\<rparr>) = contents p"
  "contents (p\<lparr>m_crc := r\<rparr>) = contents p"
  by (simp_all add: contents_def)

lemma new_packet_wf [wf_rules]:
  "n \<le> length storage \<Longrightarrow> n < size_range \<Longrightarrow> packet_wf (new_packet n storage g)"
  by (simp add: packet_wf_def new_packet_def)

text \<open>A fresh packet over \<open>n\<close> zero bytes, for examples.\<close>

definition blank_packet :: "nat \<Rightarrow> packet" where
  "blank_packet n = new_packet n (replicate n 0) 0"

lemma blank_packet_wf: "n < size_range \<Longrightarrow> packet_wf (blank_packet n)"
  by (simp add: blank_packet_def new_packet_wf)

lemma blank_packet_fields [simp]:
  "m_dataLen (blank_packet n) = 0" "m_maxDataLen (blank_packet n) = n"
  "m_command (blank_packet n) = 0" "contents (blank_packet n) = []"
  by (simp_all add: blank_packet_def new_packet_def contents_def)

section \<open>The methods on well-formed packets\<close>

lemma getSpaceRemaining_wf [res_simps]:
  "packet_wf p \<Longrightarrow> getSpaceRemaining p = m_maxDataLen p - m_dataLen p"
  by (auto simp: getSpaceRemaining_def packet_wf_def intro: size_sub_small)

lemma read_data_wf [res_simps]: "packet_wf p \<Longrightarrow> read_data p = Inr (contents p)"
  by (simp add: read_data_def packet_wf_def contents_def getDataLength_def getData_def)

lemma calcCrc_wf [res_simps]:
  "packet_wf p \<Longrightarrow>
     calcCrc crc p = Inr (Crc8_data crc (Crc8_byte crc 0 (m_command p)) (contents p))"
  by (simp add: calcCrc_def read_data_wf)

lemma appendByte_put [res_simps]:
  assumes "packet_wf p" "m_dataLen p < m_maxDataLen p"
  shows "appendByte b p = Inr (put [b] p)"
proof -
  have "m_dataLen p < length (m_data p)"
    using assms by (simp add: packet_wf_def)
  then have "(m_data p)[m_dataLen p := b]
      = take (m_dataLen p) (m_data p) @ b # drop (Suc (m_dataLen p)) (m_data p)"
    by (rule upd_conv_take_nth_drop)
  with assms show ?thesis
    by (simp add: appendByte_def put_def getDataLength_def getMaxDataLength_def write_at_def
        packet_wf_def)
qed

lemma appendByte_full [res_simps]:
  "m_maxDataLen p \<le> m_dataLen p \<Longrightarrow> appendByte b p = Inl Assert_Failed"
  by (simp add: appendByte_def getDataLength_def getMaxDataLength_def)

lemma appendData_put [res_simps]:
  assumes "packet_wf p" "m_dataLen p + n \<le> m_maxDataLen p" "n \<le> length data"
  shows "appendData n data p = Inr (put (take n data) p)"
  using assms
  by (auto simp: appendData_def put_def getDataLength_def getMaxDataLength_def packet_wf_def
      size_add_small memcpy_ok min_def)

lemma appendData_full [res_simps]:
  assumes "m_maxDataLen p < m_dataLen p + n" "m_dataLen p + n < size_range"
  shows "appendData n data p = Inl Assert_Failed"
  using assms
  by (simp add: appendData_def getDataLength_def getMaxDataLength_def size_add_small)

lemma appendData_wf [wf_rules]:
  assumes "packet_wf p" "appendData n data p = Inr p'"
  shows "packet_wf p'"
  using assms
  by (auto simp: appendData_def bind_res_eq_Inr assert_res_def memcpy_def packet_wf_def
      getDataLength_def getMaxDataLength_def split: if_splits)

lemma setData_wf [wf_rules]:
  assumes "packet_wf p" "setData n data p = Inr p'"
  shows "packet_wf p'"
  using assms appendData_wf[of "p\<lparr>m_dataLen := 0\<rparr>" n data p']
  by (auto simp: setData_def Let_def split: if_splits)

lemma append_word_wf [wf_rules]:
  "packet_wf p \<Longrightarrow> append_word w p = Inr p' \<Longrightarrow> packet_wf p'"
  unfolding append_word_def by (rule appendData_wf)

lemma capacity_kept:
  "appendData n data p = Inr p' \<Longrightarrow> m_maxDataLen p' = m_maxDataLen p"
  "setData n data p = Inr p' \<Longrightarrow> m_maxDataLen p' = m_maxDataLen p"
  "append_word w p = Inr p' \<Longrightarrow> m_maxDataLen p' = m_maxDataLen p"
  by (auto simp: appendData_def setData_def append_word_def bind_res_eq_Inr Let_def split: if_splits)

lemma setData_put [res_simps]:
  assumes "packet_wf p" "n \<le> m_maxDataLen p" "n \<le> length data"
  shows "setData n data p = Inr (put (take n data) (p\<lparr>m_dataLen := 0\<rparr>))"
  using assms by (auto simp: setData_def Let_def appendData_put)

lemma setData_empty [res_simps]: "setData 0 data p = Inr (p\<lparr>m_dataLen := 0\<rparr>)"
  by (simp add: setData_def Let_def)

lemma extractCrc_snoc:
  assumes "packet_wf p" "contents p = ds @ [c]"
  shows "extractCrc p = Inr (c, p\<lparr>m_dataLen := length ds, m_crc := c\<rparr>)"
    and "contents (p\<lparr>m_dataLen := length ds, m_crc := c\<rparr>) = ds"
proof -
  have len: "m_dataLen p = Suc (length ds)"
    using assms length_contents[OF assms(1)] by simp
  have bound: "length ds < length (m_data p)"
    using len assms(1) by (simp add: packet_wf_def)
  have "m_data p ! length ds = contents p ! length ds"
    using len by (simp add: contents_def)
  also have "\<dots> = c"
    using assms(2) by simp
  finally have "m_data p ! length ds = c" .
  with len bound show "extractCrc p = Inr (c, p\<lparr>m_dataLen := length ds, m_crc := c\<rparr>)"
    by (simp add: extractCrc_def Let_def read_at_ok)
  have "take (length ds) (m_data p) = take (length ds) (contents p)"
    using len by (simp add: contents_def)
  with assms(2) show "contents (p\<lparr>m_dataLen := length ds, m_crc := c\<rparr>) = ds"
    by (simp add: contents_def)
qed

lemma extractCrc_empty [res_simps]: "m_dataLen p = 0 \<Longrightarrow> extractCrc p = Inl Assert_Failed"
  by (simp add: extractCrc_def)

lemma contents_snoc:
  assumes "packet_wf p" "m_dataLen p > 0"
  obtains ds c where "contents p = ds @ [c]"
  using assms by (metis length_contents length_greater_0_conv rev_exhaust)


text \<open>A packet with command 1 and the data byte 2, for examples.\<close>

definition sample_packet :: packet where
  "sample_packet = put [2] (setCommand 1 (blank_packet 4))"

lemma sample_packet_props:
  "packet_wf sample_packet" "m_command sample_packet = 1" "contents sample_packet = [2]"
  "m_dataLen sample_packet = 1" "m_maxDataLen sample_packet = 4"
  by (simp_all add: sample_packet_def setCommand_def put_wf blank_packet_wf size_range_def
      packet_wf_bounds)

section \<open>A packet is an append buffer\<close>

interpretation pk: append_buffer packet_wf contents m_maxDataLen put appendByte appendData
  by unfold_locales
    (auto simp: packet_wf_bounds put_put intro: put_wf appendByte_put appendByte_full
      appendData_put appendData_full)


section \<open>Properties\<close>

text \<open>Appending a block to a packet is appending its bytes one by one: it succeeds exactly
  when the block fits into the remaining space, then extends the contents by the block and
  keeps command, CRC and capacity, and it aborts otherwise.\<close>

theorem appendData_is_bytewise:
  assumes "packet_wf p" "n \<le> length data" "m_dataLen p + n < size_range"
  shows "appendData n data p = fold_res (\<lambda>p b. appendByte b p) p (take n data) \<and>
    (if n \<le> getSpaceRemaining p
     then \<exists>p'. appendData n data p = Inr p' \<and> packet_wf p' \<and> contents p' = contents p @ take n data \<and>
       getCommand p' = getCommand p \<and> getCrc p' = getCrc p \<and> getMaxDataLength p' = getMaxDataLength p
     else appendData n data p = Inl Assert_Failed)"
proof
  show "appendData n data p = fold_res (\<lambda>p b. appendByte b p) p (take n data)"
    using assms by (intro pk.block_is_push_all) simp_all
  have bounds: "m_dataLen p \<le> m_maxDataLen p" "m_dataLen p \<le> length (m_data p)"
    using assms(1) by (simp_all add: packet_wf_bounds)
  show "if n \<le> getSpaceRemaining p
     then \<exists>p'. appendData n data p = Inr p' \<and> packet_wf p' \<and> contents p' = contents p @ take n data \<and>
       getCommand p' = getCommand p \<and> getCrc p' = getCrc p \<and> getMaxDataLength p' = getMaxDataLength p
     else appendData n data p = Inl Assert_Failed"
  proof (cases "n \<le> getSpaceRemaining p")
    case True
    then have fit: "m_dataLen p + n \<le> m_maxDataLen p"
      using bounds assms(1) by (simp add: getSpaceRemaining_wf)
    have "packet_wf (put (take n data) p)"
      using assms(1,2) fit by (intro put_wf) simp_all
    with True fit assms(1,2) bounds show ?thesis
      by (simp add: appendData_put getCommand_def getCrc_def getMaxDataLength_def)
  next
    case False
    then have "m_maxDataLen p < m_dataLen p + n"
      using bounds assms(1) by (simp add: getSpaceRemaining_wf)
    with False assms(3) show ?thesis by (simp add: appendData_full)
  qed
qed

theorem appendData_is_bytewise_witness:
  "(\<exists>p'. appendData 3 [7, 8, 9] sample_packet = Inr p' \<and> contents p' = [2, 7, 8, 9]) \<and>
   appendData 4 [7, 8, 9, 10] sample_packet = Inl Assert_Failed"
  using appendData_is_bytewise[of sample_packet 3 "[7, 8, 9]", THEN conjunct2]
    appendData_is_bytewise[of sample_packet 4 "[7, 8, 9, 10]", THEN conjunct2]
  by (auto simp: sample_packet_props getSpaceRemaining_wf size_range_def)

end
