(* ===== verification/Decoder.thy ===== *)
theory Decoder
  imports Packets
begin

text \<open>
  The class \<open>PacketDecoder\<close> of \<^verbatim>\<open>src/PacketDecoder.cpp\<close>: its state, the state machine
  \<open>decodeByte\<close> with one definition per case of the switch, an abstract SLIP receiver
  that the machine refines, and the properties of the machine: no byte makes it fault,
  what is delivered carries a matching CRC, an error leaves it inside the broken frame.
\<close>

section \<open>The state machine\<close>

text \<open>\<open>D_OTHER\<close> stands for the values of the C++ enum that are no enumerators.\<close>

datatype dstate = D_IDLE | D_COMMAND | D_DATA | D_OTHER

record decoder =
  d_state :: dstate
  d_escape :: bool
  d_debug :: bool

definition new_decoder :: decoder where
  "new_decoder = \<lparr>d_state = D_IDLE, d_escape = False, d_debug = False\<rparr>"

definition decoder_setDebug :: "bool \<Rightarrow> decoder \<Rightarrow> decoder" where
  "decoder_setDebug debug d = d\<lparr>d_debug := debug\<rparr>"

text \<open>
  A step returns the error code, the decoder, the packet and what was logged. \<open>bus\<close> is
  the \<open>as_str\<close> method of the bus, used when the debug flag asks for a dump.
\<close>

type_synonym decode_result = "(error \<times> decoder \<times> packet \<times> log_event list) res"

definition unescape :: "u8 \<Rightarrow> u8" where
  "unescape byte =
     (if byte = ESC_END then END else if byte = ESC_ESC then ESC else byte)"

definition debug_dump ::
    "bool \<Rightarrow> string \<Rightarrow> (u8 \<Rightarrow> string) option \<Rightarrow> packet \<Rightarrow> (log_event list) res" where
  "debug_dump debug label bus p = (if debug then dump label bus p else Inr [])"

definition decode_idle :: "u8 \<Rightarrow> decoder \<Rightarrow> packet \<Rightarrow> decode_result" where
  "decode_idle byte d p =
     (let d = (if byte = END then d\<lparr>d_state := D_COMMAND\<rparr> else d) in
      Inr (NOT_DONE, d, p, []))"

definition decode_command :: "u8 \<Rightarrow> decoder \<Rightarrow> packet \<Rightarrow> decode_result" where
  "decode_command byte d p =
     (if byte = END \<and> \<not> d_escape d then Inr (NOT_DONE, d, p, [])
      else
        let d = d\<lparr>d_escape := False\<rparr>; p = setCommand byte p in
        bind_res (setData 0 [] p) (\<lambda>p.
          Inr (NOT_DONE, d\<lparr>d_state := D_DATA\<rparr>, p, [])))"

definition decode_data ::
    "crc_fns \<Rightarrow> (u8 \<Rightarrow> string) option \<Rightarrow> u8 \<Rightarrow> decoder \<Rightarrow> packet \<Rightarrow> decode_result" where
  "decode_data crc bus byte d p =
     (if byte = END \<and> \<not> d_escape d then
        if getDataLength p = 0 then Inr (TOO_SMALL, d, p, [])
        else
          bind_res (extractCrc p) (\<lambda>(rcvdCrc, p).
          bind_res (calcCrc crc p) (\<lambda>expectedCrc.
            if rcvdCrc = expectedCrc then
              let d = d\<lparr>d_state := D_IDLE\<rparr> in
              bind_res (debug_dump (d_debug d) ''Rcvd'' bus p) (\<lambda>log.
                Inr (NONE, d, p, log))
            else
              bind_res (debug_dump (d_debug d) ''CRC '' bus p) (\<lambda>log.
                Inr (CRC, d, p,
                  Log_error ''CRC Error: Received 0x%02x Expected 0x%02x''
                    [A_Byte rcvdCrc, A_Byte expectedCrc] # log))))
      else
        let d = d\<lparr>d_escape := False\<rparr> in
        if getDataLength p \<ge> getMaxDataLength p then
          bind_res (debug_dump (d_debug d) ''2Big'' bus p) (\<lambda>log.
            Inr (TOO_MUCH_DATA, d, p, log))
        else
          bind_res (appendByte byte p) (\<lambda>p. Inr (NOT_DONE, d, p, [])))"

definition decodeByte ::
    "crc_fns \<Rightarrow> (u8 \<Rightarrow> string) option \<Rightarrow> u8 \<Rightarrow> decoder \<Rightarrow> packet \<Rightarrow> decode_result" where
  "decodeByte crc bus byte d p =
     (if d_state d \<noteq> D_IDLE \<and> \<not> d_escape d \<and> byte = ESC then
        Inr (NOT_DONE, d\<lparr>d_escape := True\<rparr>, p, [])
      else
        let byte = (if d_state d \<noteq> D_IDLE \<and> d_escape d then unescape byte else byte) in
        case d_state d of
          D_IDLE \<Rightarrow> decode_idle byte d p
        | D_COMMAND \<Rightarrow> decode_command byte d p
        | D_DATA \<Rightarrow> decode_data crc bus byte d p
        | D_OTHER \<Rightarrow> Inr (BAD_STATE, d, p, []))"

text \<open>
  Feeding a list of bytes: the code every byte returned, and the final state. This is
  how the bus and the tests drive the decoder.
\<close>

fun decode_stream ::
    "crc_fns \<Rightarrow> (u8 \<Rightarrow> string) option \<Rightarrow> u8 list \<Rightarrow> decoder \<Rightarrow> packet \<Rightarrow>
     (error list \<times> decoder \<times> packet \<times> log_event list) res" where
  "decode_stream crc bus [] d p = Inr ([], d, p, [])"
| "decode_stream crc bus (b # bs) d p =
     bind_res (decodeByte crc bus b d p) (\<lambda>(err, d, p, log).
     bind_res (decode_stream crc bus bs d p) (\<lambda>(errs, d, p, log').
       Inr (err # errs, d, p, log @ log')))"

section \<open>An abstract receiver\<close>

text \<open>
  The receiver without storage: idle, waiting for a command byte, or collecting the
  bytes of a frame for a command. An outcome says what a byte brought about.
\<close>

datatype receiver =
    R_Idle
  | R_Command bool
  | R_Data bool u8 "u8 list"

datatype outcome =
    Pending
  | Delivered u8 "u8 list" u8
  | Too_Small
  | Bad_Crc
  | Overflow

fun outcome_error :: "outcome \<Rightarrow> error" where
  "outcome_error Pending = NOT_DONE"
| "outcome_error (Delivered c ds r) = NONE"
| "outcome_error Too_Small = TOO_SMALL"
| "outcome_error Bad_Crc = CRC"
| "outcome_error Overflow = TOO_MUCH_DATA"

definition frame_crc :: "crc_fns \<Rightarrow> u8 \<Rightarrow> u8 list \<Rightarrow> u8" where
  "frame_crc crc c ds = Crc8_data crc (Crc8_byte crc 0 c) ds"

lemma calcCrc_frame:
  "packet_wf p \<Longrightarrow> calcCrc crc p = Inr (frame_crc crc (m_command p) (contents p))"
  by (simp add: calcCrc_wf frame_crc_def)

definition receive_end :: "crc_fns \<Rightarrow> u8 \<Rightarrow> u8 list \<Rightarrow> outcome \<times> receiver" where
  "receive_end crc c ds =
     (if ds = [] then (Too_Small, R_Data False c [])
      else if last ds = frame_crc crc c (butlast ds)
        then (Delivered c (butlast ds) (last ds), R_Idle)
      else (Bad_Crc, R_Data False c (butlast ds)))"

fun receive :: "crc_fns \<Rightarrow> nat \<Rightarrow> u8 \<Rightarrow> receiver \<Rightarrow> outcome \<times> receiver" where
  "receive crc cap b R_Idle = (Pending, if b = END then R_Command False else R_Idle)"
| "receive crc cap b (R_Command esc) =
     (if \<not> esc \<and> b = ESC then (Pending, R_Command True)
      else if \<not> esc \<and> b = END then (Pending, R_Command False)
      else (Pending, R_Data False (if esc then unescape b else b) []))"
| "receive crc cap b (R_Data esc c ds) =
     (if \<not> esc \<and> b = ESC then (Pending, R_Data True c ds)
      else if \<not> esc \<and> b = END then receive_end crc c ds
      else if cap \<le> length ds then (Overflow, R_Data False c ds)
      else (Pending, R_Data False c (ds @ [if esc then unescape b else b])))"

fun receive_all ::
    "crc_fns \<Rightarrow> nat \<Rightarrow> u8 list \<Rightarrow> receiver \<Rightarrow> outcome list \<times> receiver" where
  "receive_all crc cap [] r = ([], r)"
| "receive_all crc cap (b # bs) r =
     (let (out, r) = receive crc cap b r; (outs, r) = receive_all crc cap bs r
      in (out # outs, r))"

lemma receive_all_append:
  "receive_all crc cap (xs @ ys) r =
     (let (outs, r) = receive_all crc cap xs r; (outs', r) = receive_all crc cap ys r
      in (outs @ outs', r))"
  by (induction xs arbitrary: r) (auto split: prod.splits)


section \<open>The machine refines the receiver\<close>

definition decoder_ok :: "decoder \<Rightarrow> bool" where
  "decoder_ok d \<longleftrightarrow> d_state d \<noteq> D_OTHER \<and> (d_state d = D_IDLE \<longrightarrow> \<not> d_escape d)"

definition receiver_of :: "decoder \<Rightarrow> packet \<Rightarrow> receiver" where
  "receiver_of d p =
     (case d_state d of
        D_IDLE \<Rightarrow> R_Idle
      | D_COMMAND \<Rightarrow> R_Command (d_escape d)
      | D_DATA \<Rightarrow> R_Data (d_escape d) (m_command p) (contents p)
      | D_OTHER \<Rightarrow> R_Idle)"

fun delivered_in :: "outcome \<Rightarrow> packet \<Rightarrow> bool" where
  "delivered_in (Delivered c ds r) p \<longleftrightarrow> m_command p = c \<and> contents p = ds \<and> m_crc p = r"
| "delivered_in _ p \<longleftrightarrow> True"

text \<open>What every step of the machine keeps.\<close>

definition step_frame :: "decoder \<Rightarrow> packet \<Rightarrow> decoder \<Rightarrow> packet \<Rightarrow> bool" where
  "step_frame d p d' p' \<longleftrightarrow> packet_wf p' \<and> decoder_ok d' \<and>
     m_maxDataLen p' = m_maxDataLen p \<and> length (m_data p') = length (m_data p) \<and>
     d_debug d' = d_debug d"

lemma debug_dump_wf:
  assumes "packet_wf p"
  obtains log where "debug_dump debug label bus p = Inr log" "\<not> debug \<Longrightarrow> log = []"
  using assms by (cases debug) (auto simp: debug_dump_def dump_def Let_def read_data_wf)

lemma new_decoder_ok [simp]: "decoder_ok new_decoder"
  by (simp add: decoder_ok_def new_decoder_def)

lemma receiver_of_new [simp]: "receiver_of new_decoder p = R_Idle"
  by (simp add: receiver_of_def new_decoder_def)

lemma put_storage:
  "packet_wf p \<Longrightarrow> m_dataLen p + length bs \<le> m_maxDataLen p \<Longrightarrow>
     length (m_data (put bs p)) = length (m_data p)"
  by (auto simp: put_def packet_wf_def)

lemma decode_idle_refines:
  assumes "packet_wf p" "decoder_ok d" "d_state d = D_IDLE"
  shows "\<exists>d' p' log. decodeByte crc bus b d p
      = Inr (outcome_error (fst (receive crc cap b (receiver_of d p))), d', p', log) \<and>
    receiver_of d' p' = snd (receive crc cap b (receiver_of d p)) \<and> step_frame d p d' p' \<and>
    delivered_in (fst (receive crc cap b (receiver_of d p))) p'"
  using assms
  by (auto simp: decodeByte_def decode_idle_def receiver_of_def decoder_ok_def step_frame_def Let_def)

lemma decode_command_refines:
  assumes "packet_wf p" "decoder_ok d" "d_state d = D_COMMAND"
  shows "\<exists>d' p' log. decodeByte crc bus b d p
      = Inr (outcome_error (fst (receive crc cap b (receiver_of d p))), d', p', log) \<and>
    receiver_of d' p' = snd (receive crc cap b (receiver_of d p)) \<and> step_frame d p d' p' \<and>
    delivered_in (fst (receive crc cap b (receiver_of d p))) p'"
proof -
  have "contents (p\<lparr>m_command := c, m_dataLen := 0\<rparr>) = []" 
    "packet_wf (p\<lparr>m_command := c, m_dataLen := 0\<rparr>)" for c
    using assms(1) by (auto simp: contents_def packet_wf_def)
  with assms show ?thesis
    by (auto simp: decodeByte_def decode_command_def receiver_of_def decoder_ok_def
        step_frame_def Let_def setData_empty setCommand_def)
qed

lemma decode_end_refines:
  assumes "packet_wf p" "decoder_ok d" "d_state d = D_DATA" "\<not> d_escape d"
  shows "\<exists>d' p' log. decodeByte crc bus END d p
      = Inr (outcome_error (fst (receive_end crc (m_command p) (contents p))), d', p', log) \<and>
    receiver_of d' p' = snd (receive_end crc (m_command p) (contents p)) \<and> step_frame d p d' p' \<and>
    delivered_in (fst (receive_end crc (m_command p) (contents p))) p'"
proof (cases "m_dataLen p = 0")
  case True
  then have "contents p = []"
    by (simp add: contents_def)
  with True assms show ?thesis
    by (auto simp: decodeByte_def decode_data_def receive_end_def receiver_of_def step_frame_def
        getDataLength_def Let_def frame_consts)
next
  case False
  then obtain ds c where ds: "contents p = ds @ [c]"
    using contents_snoc[OF assms(1)] by blast
  let ?p = "p\<lparr>m_dataLen := length ds, m_crc := c\<rparr>"
  note ext = extractCrc_snoc[OF assms(1) ds]
  have wf: "packet_wf ?p"
    using assms(1) ds length_contents[OF assms(1)] by (auto simp: packet_wf_def)
  obtain log1 where log1: "debug_dump (d_debug d) ''Rcvd'' bus ?p = Inr log1"
    using wf by (rule debug_dump_wf)
  obtain log2 where log2: "debug_dump (d_debug d) ''CRC '' bus ?p = Inr log2"
    using wf by (rule debug_dump_wf)
  show ?thesis
    using assms False ds ext wf log1 log2
    by (auto simp: decodeByte_def decode_data_def receive_end_def receiver_of_def step_frame_def
        decoder_ok_def getDataLength_def Let_def frame_consts calcCrc_wf frame_crc_def)
qed

lemma decode_data_refines:
  assumes "packet_wf p" "decoder_ok d" "d_state d = D_DATA" "d_escape d \<or> b \<noteq> END"
  shows "\<exists>d' p' log. decodeByte crc bus b d p
      = Inr (outcome_error (fst (receive crc (m_maxDataLen p) b (receiver_of d p))), d', p', log) \<and>
    receiver_of d' p' = snd (receive crc (m_maxDataLen p) b (receiver_of d p)) \<and>
    step_frame d p d' p' \<and>
    delivered_in (fst (receive crc (m_maxDataLen p) b (receiver_of d p))) p'"
proof -
  obtain log where log: "debug_dump (d_debug d) ''2Big'' bus p = Inr log"
    using assms(1) by (rule debug_dump_wf)
  show ?thesis
  proof (cases "m_dataLen p < m_maxDataLen p")
    case True
    then have ok: "appendByte c p = Inr (put [c] p)" "packet_wf (put [c] p)"
      "contents (put [c] p) = contents p @ [c]"
      "length (m_data (put [c] p)) = length (m_data p)" for c
      using assms(1) by (auto simp: appendByte_put packet_wf_bounds put_storage intro!: put_wf)
    with True assms show ?thesis
      by (auto simp: decodeByte_def decode_data_def receiver_of_def decoder_ok_def step_frame_def
          getDataLength_def getMaxDataLength_def Let_def not_le)
  next
    case False
    with assms log show ?thesis
      by (auto simp: decodeByte_def decode_data_def receiver_of_def decoder_ok_def step_frame_def
          getDataLength_def getMaxDataLength_def Let_def)
  qed
qed

lemma decode_step_refines:
  assumes "packet_wf p" "decoder_ok d"
  obtains d' p' log where
    "decodeByte crc bus b d p
       = Inr (outcome_error (fst (receive crc (m_maxDataLen p) b (receiver_of d p))), d', p', log)"
    "receiver_of d' p' = snd (receive crc (m_maxDataLen p) b (receiver_of d p))"
    "step_frame d p d' p'"
    "delivered_in (fst (receive crc (m_maxDataLen p) b (receiver_of d p))) p'"
proof -
  have end_case: "receive crc (m_maxDataLen p) END (receiver_of d p)
      = receive_end crc (m_command p) (contents p)"
    if "d_state d = D_DATA" "\<not> d_escape d"
    using that by (simp add: receiver_of_def frame_consts)
  show thesis
  proof (cases "d_state d")
    case D_IDLE
    then show ?thesis using decode_idle_refines[OF assms D_IDLE] that by blast
  next
    case D_COMMAND
    then show ?thesis using decode_command_refines[OF assms D_COMMAND] that by blast
  next
    case D_DATA
    show ?thesis
    proof (cases "d_escape d \<or> b \<noteq> END")
      case True
      show ?thesis using decode_data_refines[OF assms D_DATA True] that by blast
    next
      case False
      then have b: "b = END" "\<not> d_escape d" by auto
      show ?thesis
        using decode_end_refines[OF assms D_DATA b(2), of crc bus] end_case[OF D_DATA b(2)] that b(1)
        by metis
    qed
  next
    case D_OTHER
    with assms(2) show ?thesis by (simp add: decoder_ok_def)
  qed
qed


lemma step_frameD:
  assumes "step_frame d p d' p'"
  shows "packet_wf p'" "decoder_ok d'" "m_maxDataLen p' = m_maxDataLen p"
    "length (m_data p') = length (m_data p)" "d_debug d' = d_debug d"
  using assms by (auto simp: step_frame_def)

lemma step_frame_refl: "packet_wf p \<Longrightarrow> decoder_ok d \<Longrightarrow> step_frame d p d p"
  by (simp add: step_frame_def)

lemma step_frame_trans:
  "step_frame d p d' p' \<Longrightarrow> step_frame d' p' d'' p'' \<Longrightarrow> step_frame d p d'' p''"
  by (simp add: step_frame_def)

lemma decode_stream_refines:
  assumes "packet_wf p" "decoder_ok d"
  shows "\<exists>d' p' log. decode_stream crc bus bs d p =
      Inr (map outcome_error (fst (receive_all crc (m_maxDataLen p) bs (receiver_of d p))), d', p', log) \<and>
    receiver_of d' p' = snd (receive_all crc (m_maxDataLen p) bs (receiver_of d p)) \<and>
    step_frame d p d' p' \<and>
    (bs \<noteq> [] \<longrightarrow> delivered_in (last (fst (receive_all crc (m_maxDataLen p) bs (receiver_of d p)))) p')"
  using assms
proof (induction bs arbitrary: d p)
  case Nil
  then show ?case by (auto intro: step_frame_refl)
next
  case (Cons b bs)
  obtain d1 p1 log1 where step1:
    "decodeByte crc bus b d p
       = Inr (outcome_error (fst (receive crc (m_maxDataLen p) b (receiver_of d p))), d1, p1, log1)"
    "receiver_of d1 p1 = snd (receive crc (m_maxDataLen p) b (receiver_of d p))"
    "step_frame d p d1 p1"
    "delivered_in (fst (receive crc (m_maxDataLen p) b (receiver_of d p))) p1"
    using decode_step_refines[OF Cons.prems, where crc = crc and bus = bus and b = b] by metis
  note frame1 = step_frameD[OF step1(3)]
  obtain d2 p2 log2 where step2:
    "decode_stream crc bus bs d1 p1 =
      Inr (map outcome_error (fst (receive_all crc (m_maxDataLen p) bs (receiver_of d1 p1))), d2, p2, log2)"
    "receiver_of d2 p2 = snd (receive_all crc (m_maxDataLen p) bs (receiver_of d1 p1))"
    "step_frame d1 p1 d2 p2"
    "bs \<noteq> [] \<longrightarrow> delivered_in (last (fst (receive_all crc (m_maxDataLen p) bs (receiver_of d1 p1)))) p2"
    using Cons.IH[OF frame1(1,2)] frame1(3) by auto
  obtain out r where rec: "receive crc (m_maxDataLen p) b (receiver_of d p) = (out, r)"
    by fastforce
  obtain outs r' where recs: "receive_all crc (m_maxDataLen p) bs r = (outs, r')"
    by fastforce
  have nonempty: "bs = [] \<or> outs \<noteq> []"
    using recs by (cases bs) (auto split: prod.splits)
  have frame: "step_frame d p d2 p2"
    using step1(3) step2(3) by (rule step_frame_trans)
  have del: "delivered_in (last (out # outs)) p2"
  proof (cases "bs = []")
    case True
    then show ?thesis using step1 step2 rec recs by simp
  next
    case False
    then show ?thesis using step1 step2 rec recs nonempty by simp
  qed
  show ?case
    using step1 step2 rec recs del frame by auto
qed


section \<open>Properties\<close>

text \<open>The codes \<open>decodeByte\<close> returns on well-formed input.\<close>

lemma outcome_error_range:
  "set (map outcome_error outs) \<subseteq> {NONE, NOT_DONE, CRC, TOO_MUCH_DATA, TOO_SMALL}"
proof (induction outs)
  case (Cons out outs)
  then show ?case by (cases out) auto
qed simp

lemma length_receive_all: "length (fst (receive_all crc cap bs r)) = length bs"
  by (induction bs arbitrary: r) (simp_all add: split_beta)

text \<open>C3: No sequence of bytes, however malformed, makes the decoder abort or touch memory
  outside the packet's storage: every byte is answered with one of the five documented
  codes (never \<open>BAD_STATE\<close>), the packet stays well formed, its capacity and storage keep
  their size, and the decoder stays in a legal state.\<close>

theorem decoder_never_faults:
  assumes "packet_wf p" "decoder_ok d"
  shows "\<exists>errs d' p' log. decode_stream crc bus bs d p = Inr (errs, d', p', log) \<and>
    length errs = length bs \<and> set errs \<subseteq> {NONE, NOT_DONE, CRC, TOO_MUCH_DATA, TOO_SMALL} \<and>
    packet_wf p' \<and> decoder_ok d' \<and> getMaxDataLength p' = getMaxDataLength p \<and>
    length (getData p') = length (getData p)"
proof -
  obtain d' p' log where run: "decode_stream crc bus bs d p =
      Inr (map outcome_error (fst (receive_all crc (m_maxDataLen p) bs (receiver_of d p))), d', p', log)"
    "step_frame d p d' p'"
    using decode_stream_refines[OF assms, of crc bus bs] by blast
  show ?thesis
    unfolding getMaxDataLength_def getData_def
    using run(1) step_frameD(1-4)[OF run(2)] outcome_error_range
    by (intro exI[of _ "map outcome_error (fst (receive_all crc (m_maxDataLen p) bs (receiver_of d p)))"]
        exI[of _ d'] exI[of _ p'] exI[of _ log] conjI)
      (simp_all add: length_receive_all)
qed

theorem decoder_never_faults_witness:
  "\<exists>errs d' p' log. decode_stream \<lparr>Crc8_byte = xor, Crc8_data = (\<lambda>a xs. a)\<rparr> None
      [0xC0, 0xDB, 0xC0, 0xDB, 0xDB, 7, 8, 9, 0xC0, 0xC0]
      new_decoder (blank_packet 2) = Inr (errs, d', p', log) \<and>
    length errs = length [0xC0, 0xDB, 0xC0, 0xDB, 0xDB, 7, 8, 9, 0xC0, 0xC0::u8] \<and>
    set errs \<subseteq> {NONE, NOT_DONE, CRC, TOO_MUCH_DATA, TOO_SMALL} \<and>
    packet_wf p' \<and> decoder_ok d' \<and> getMaxDataLength p' = getMaxDataLength (blank_packet 2) \<and>
    length (getData p') = length (getData (blank_packet 2))"
  by (rule decoder_never_faults) (simp_all add: blank_packet_wf size_range_def)

lemma receive_Delivered:
  "fst (receive crc cap b r) = Delivered c ds x \<longleftrightarrow>
     (b = END \<and> r = R_Data False c (ds @ [x]) \<and> x = frame_crc crc c ds)"
proof (cases r)
  case (R_Data esc c' xs)
  show ?thesis
  proof (cases xs rule: rev_exhaust)
    case Nil
    with R_Data show ?thesis
      by (auto simp: receive_end_def frame_consts)
  next
    case (snoc ys y)
    with R_Data show ?thesis
      by (auto simp: receive_end_def frame_consts)
  qed
qed auto

text \<open>C15: A frame is accepted exactly when an unescaped \<open>END\<close> arrives while data is being
  collected and the last byte collected is the CRC of the command and the bytes before
  it; the packet handed out then has that command, those bytes as its data and that CRC,
  and the decoder waits for the next frame.\<close>

theorem accepts_iff_crc_matches:
  assumes "packet_wf p" "decoder_ok d"
  shows "(\<exists>d' p' log. decodeByte crc bus b d p = Inr (NONE, d', p', log) \<and> d_state d' = D_IDLE \<and>
      getCommand p' = getCommand p \<and> contents p' = ds \<and> getCrc p' = r) \<longleftrightarrow>
    (b = END \<and> d_state d = D_DATA \<and> \<not> d_escape d \<and> contents p = ds @ [r] \<and>
      r = frame_crc crc (getCommand p) ds)"
proof -
  let ?out = "fst (receive crc (m_maxDataLen p) b (receiver_of d p))"
  obtain d' p' log where step:
    "decodeByte crc bus b d p = Inr (outcome_error ?out, d', p', log)"
    "receiver_of d' p' = snd (receive crc (m_maxDataLen p) b (receiver_of d p))"
    "step_frame d p d' p'" "delivered_in ?out p'"
    using decode_step_refines[OF assms, where crc = crc and bus = bus and b = b] by metis
  have in_data: "receiver_of d p = R_Data False c xs \<longleftrightarrow>
      d_state d = D_DATA \<and> \<not> d_escape d \<and> c = m_command p \<and> xs = contents p" for c xs
    by (auto simp: receiver_of_def split: dstate.splits)
  show ?thesis
  proof (cases "\<exists>c xs x. ?out = Delivered c xs x")
    case True
    then obtain c xs x where out: "?out = Delivered c xs x" by blast
    with receive_Delivered have b: "b = END" "receiver_of d p = R_Data False c (xs @ [x])"
      "x = frame_crc crc c xs" by blast+
    then have "snd (receive crc (m_maxDataLen p) b (receiver_of d p)) = R_Idle"
      by (simp add: receive_end_def frame_consts)
    with step(2) step_frameD(2)[OF step(3)] have "d_state d' = D_IDLE"
      by (cases "d_state d'") (auto simp: receiver_of_def decoder_ok_def)
    with b out step(1,4) in_data show ?thesis
      by (auto simp: getCommand_def getCrc_def)
  next
    case False
    then have "outcome_error ?out \<noteq> NONE"
      by (cases ?out) auto
    moreover have "\<not> (b = END \<and> receiver_of d p = R_Data False (m_command p) (ds @ [r]) \<and>
        r = frame_crc crc (m_command p) ds)"
      using False receive_Delivered by metis
    ultimately show ?thesis
      using step(1) in_data by (auto simp: getCommand_def)
  qed
qed

text \<open>Inside a frame, every code but \<open>NONE\<close> leaves the decoder inside that same frame:
  after a CRC error, a frame that is too short or one that is too long, it does not go
  back to waiting for a frame, and the command of the broken frame stays in the packet.\<close>

theorem errors_stay_in_the_frame:
  assumes "packet_wf p" "d_state d = D_DATA"
    and "decodeByte crc bus b d p = Inr (err, d', p', log)" "err \<noteq> NONE"
  shows "d_state d' = D_DATA \<and> getCommand p' = getCommand p"
proof -
  have ok: "decoder_ok d"
    using assms(2) by (simp add: decoder_ok_def)
  let ?rec = "receive crc (m_maxDataLen p) b (receiver_of d p)"
  obtain d1 p1 log1 where step:
    "decodeByte crc bus b d p = Inr (outcome_error (fst ?rec), d1, p1, log1)"
    "receiver_of d1 p1 = snd ?rec"
    using decode_step_refines[OF assms(1) ok, where crc = crc and bus = bus and b = b] by metis
  have same: "d1 = d'" "p1 = p'" "outcome_error (fst ?rec) = err"
    using step(1) assms(3) by auto
  have "receiver_of d p = R_Data (d_escape d) (m_command p) (contents p)"
    using assms(2) by (simp add: receiver_of_def)
  then have "\<exists>esc ds. snd ?rec = R_Data esc (m_command p) ds"
    using same(3) assms(4) by (auto simp: receive_end_def split: if_splits)
  then obtain esc ds where "receiver_of d' p' = R_Data esc (m_command p) ds"
    using step(2) same by auto
  then show ?thesis
    by (auto simp: receiver_of_def getCommand_def split: dstate.splits)
qed

theorem accepts_iff_crc_matches_witness:
  "(\<exists>d' p' log. decodeByte \<lparr>Crc8_byte = xor, Crc8_data = (\<lambda>a xs. a)\<rparr> None END
        (new_decoder\<lparr>d_state := D_DATA\<rparr>) (setCommand 2 sample_packet) = Inr (NONE, d', p', log) \<and>
      d_state d' = D_IDLE \<and> getCommand p' = getCommand (setCommand 2 sample_packet) \<and>
      contents p' = [] \<and> getCrc p' = 2)"
  using accepts_iff_crc_matches[of "setCommand 2 sample_packet" "new_decoder\<lparr>d_state := D_DATA\<rparr>"
      "\<lparr>Crc8_byte = xor, Crc8_data = (\<lambda>a xs. a)\<rparr>" None END "[]" 2]
  by (simp add: setCommand_def sample_packet_props decoder_ok_def new_decoder_def frame_crc_def
      getCommand_def)

theorem errors_stay_in_the_frame_witness:
  "\<exists>d' p' log. decodeByte \<lparr>Crc8_byte = xor, Crc8_data = (\<lambda>a xs. a)\<rparr> None END (new_decoder\<lparr>d_state := D_DATA\<rparr>) (blank_packet 3)
      = Inr (TOO_SMALL, d', p', log) \<and> d_state d' = D_DATA \<and>
    getCommand p' = getCommand (blank_packet 3)"
proof -
  have "decodeByte \<lparr>Crc8_byte = xor, Crc8_data = (\<lambda>a xs. a)\<rparr> None END (new_decoder\<lparr>d_state := D_DATA\<rparr>) (blank_packet 3)
      = Inr (TOO_SMALL, new_decoder\<lparr>d_state := D_DATA\<rparr>, blank_packet 3, [])"
    by (simp add: decodeByte_def decode_data_def new_decoder_def getDataLength_def frame_consts)
  moreover from errors_stay_in_the_frame[OF _ _ this]
  have "d_state (new_decoder\<lparr>d_state := D_DATA\<rparr>) = D_DATA"
    by (simp add: blank_packet_wf size_range_def)
  ultimately show ?thesis by auto
qed

end
