(* ===== verification/Crc_Laws.thy ===== *)
theory Crc_Laws
  imports Decoder
begin

text \<open>
  \<open>Crc8\<close> lives in \<^verbatim>\<open>duino_util\<close>, outside the repository, and is a parameter of the model.
  What is documented of it (the header of \<open>Packet\<close>: the CRC of
  \<^verbatim>\<open>crcmod.predefined.mkCrcFun('crc-8')\<close>) is stated here as laws, used as a hypothesis
  by the two properties about damaged frames and by no other. A concrete CRC with
  polynomial \<open>0x07\<close> shows that the laws can hold, and serves the examples.
\<close>

section \<open>The laws\<close>

text \<open>The block form folds the byte form, and a byte step loses nothing of either input.\<close>

definition crc_laws :: "crc_fns \<Rightarrow> bool" where
  "crc_laws crc \<longleftrightarrow>
     (\<forall>a xs. Crc8_data crc a xs = foldl (Crc8_byte crc) a xs) \<and>
     (\<forall>a b x. Crc8_byte crc a x = Crc8_byte crc b x \<longrightarrow> a = b) \<and>
     (\<forall>a x y. Crc8_byte crc a x = Crc8_byte crc a y \<longrightarrow> x = y)"

lemma crc_lawsD:
  assumes "crc_laws crc"
  shows "Crc8_data crc a xs = foldl (Crc8_byte crc) a xs"
    and "Crc8_byte crc a x = Crc8_byte crc b x \<Longrightarrow> a = b"
    and "Crc8_byte crc a x = Crc8_byte crc a y \<Longrightarrow> x = y"
  using assms unfolding crc_laws_def by blast+

lemma frame_crc_foldl:
  "crc_laws crc \<Longrightarrow> frame_crc crc c ds = foldl (Crc8_byte crc) 0 (c # ds)"
  by (simp add: frame_crc_def crc_lawsD(1))

lemma crc_state_matters:
  "crc_laws crc \<Longrightarrow> foldl (Crc8_byte crc) a xs = foldl (Crc8_byte crc) b xs \<Longrightarrow> a = b"
  by (induction xs arbitrary: a b) (auto dest: crc_lawsD(2))

text \<open>Changing one byte of a message changes its CRC.\<close>

lemma crc_one_byte:
  assumes "crc_laws crc" "i < length xs" "b \<noteq> xs ! i"
  shows "foldl (Crc8_byte crc) a (xs[i := b]) \<noteq> foldl (Crc8_byte crc) a xs"
proof
  assume eq: "foldl (Crc8_byte crc) a (xs[i := b]) = foldl (Crc8_byte crc) a xs"
  let ?s = "foldl (Crc8_byte crc) a (take i xs)"
  have "xs[i := b] = take i xs @ b # drop (Suc i) xs"
    using assms(2) by (rule upd_conv_take_nth_drop)
  moreover have "xs = take i xs @ xs ! i # drop (Suc i) xs"
    using assms(2) by (rule id_take_nth_drop)
  ultimately have "foldl (Crc8_byte crc) (Crc8_byte crc ?s b) (drop (Suc i) xs)
      = foldl (Crc8_byte crc) (Crc8_byte crc ?s (xs ! i)) (drop (Suc i) xs)"
    using eq by (metis foldl_Cons foldl_append)
  then have "Crc8_byte crc ?s b = Crc8_byte crc ?s (xs ! i)"
    using assms(1) by (rule crc_state_matters[rotated])
  with assms(1,3) show False
    by (auto dest: crc_lawsD(3))
qed

section \<open>A concrete CRC\<close>

definition crc8_shift :: "u8 \<Rightarrow> u8" where
  "crc8_shift x = (if bit x 7 then xor (push_bit 1 x) 7 else push_bit 1 x)"

definition crc8_poly07 :: crc_fns where
  "crc8_poly07 =
     \<lparr>Crc8_byte = (\<lambda>a x. (crc8_shift ^^ 8) (xor a x)),
      Crc8_data = (\<lambda>a xs. foldl (\<lambda>a x. (crc8_shift ^^ 8) (xor a x)) a xs)\<rparr>"

definition crc8_unshift :: "u8 \<Rightarrow> u8" where
  "crc8_unshift y = (if bit y 0 then or (drop_bit 1 (xor y 7)) 0x80 else drop_bit 1 y)"

lemma crc8_unshift_shift: "crc8_unshift (crc8_shift x) = x"
proof (rule bit_word_eqI)
  fix i
  assume "i < LENGTH(8)"
  then consider "i = 0" | "i = 1" | "i = 2" | "i = 3" | "i = 4" | "i = 5" | "i = 6" | "i = 7"
    by fastforce
  then show "bit (crc8_unshift (crc8_shift x)) i = bit x i"
    by cases (auto simp: crc8_unshift_def crc8_shift_def bit_simps numeral_2_eq_2 simp del: push_bit_Suc)
qed

lemma crc8_shift_inj: "(crc8_shift ^^ n) x = (crc8_shift ^^ n) y \<Longrightarrow> x = y"
proof (induction n arbitrary: x y)
  case (Suc n)
  from Suc.prems have "crc8_shift ((crc8_shift ^^ n) x) = crc8_shift ((crc8_shift ^^ n) y)"
    by simp
  then have "(crc8_shift ^^ n) x = (crc8_shift ^^ n) y"
    by (metis crc8_unshift_shift)
  then show ?case
    by (rule Suc.IH)
qed simp

lemma word_xor_cancel:
  "xor (a::u8) x = xor b x \<longleftrightarrow> a = b" "xor (a::u8) x = xor a y \<longleftrightarrow> x = y"
  by (auto simp: bit_eq_iff bit_simps)

lemma crc8_poly07_laws: "crc_laws crc8_poly07"
  unfolding crc_laws_def crc8_poly07_def
  by (auto dest!: crc8_shift_inj simp: word_xor_cancel)

lemma crc8_examples:
  "frame_crc crc8_poly07 0x01 [] = 0x07"
  "frame_crc crc8_poly07 0x01 [0x02] = 0x1b"
  "frame_crc crc8_poly07 0x01 [0x02, 0x03] = 0x48"
  "frame_crc crc8_poly07 0xc0 [0x02, 0x03] = 0xae"
  by code_simp+

lemma crc8_ping_ping: "frame_crc crc8_poly07 0x01 [0x01] = 0x12"
  by code_simp

end
