(* ===== verification/Encoder.thy ===== *)
theory Encoder
  imports Crc_Laws
begin

text \<open>
  The class \<open>PacketEncoder\<close> of \<^verbatim>\<open>src/PacketEncoder.cpp\<close>. The encoder keeps a pointer to
  the packet it encodes, so the packets live in a store; \<open>encodeByte\<close> reads the packet
  through the pointer at every call. The bytes the encoder still owes are given as a list,
  and each call is shown to hand out the next one.
\<close>

section \<open>Pointers to packets\<close>

type_synonym ptr = nat
type_synonym packet_store = "ptr \<Rightarrow> packet option"

definition nullptr :: ptr where
  "nullptr = 0"

definition deref :: "packet_store \<Rightarrow> ptr \<Rightarrow> packet res" where
  "deref h a =
     (if a = nullptr then Inl Null_Deref
      else case h a of None \<Rightarrow> Inl Out_Of_Bounds | Some p \<Rightarrow> Inr p)"

lemma deref_ok: "deref h a = Inr p \<longleftrightarrow> a \<noteq> nullptr \<and> h a = Some p"
  by (auto simp: deref_def split: option.splits)

lemma deref_store: "deref h a = Inr p \<Longrightarrow> deref (h(a \<mapsto> q)) a = Inr q"
  by (simp add: deref_ok)

lemma deref_store_other:
  "deref h a = Inr p \<Longrightarrow> a \<noteq> a' \<Longrightarrow> deref (h(a' \<mapsto> q)) a = Inr p"
  by (simp add: deref_ok)

section \<open>The state machine\<close>

datatype estate = E_IDLE | E_COMMAND | E_DATA | E_ESCAPE | E_OTHER

record encoder =
  e_packet :: ptr
  e_state :: estate
  e_encodeIdx :: nat
  e_escapeChar :: u8
  e_debug :: bool

text \<open>The constructor leaves \<open>m_escapeChar\<close> unwritten; its first value is an argument.\<close>

definition new_encoder :: "u8 \<Rightarrow> encoder" where
  "new_encoder garbage =
     \<lparr>e_packet = nullptr, e_state = E_IDLE, e_encodeIdx = 0, e_escapeChar = garbage,
      e_debug = False\<rparr>"

definition encoder_setDebug :: "bool \<Rightarrow> encoder \<Rightarrow> encoder" where
  "encoder_setDebug debug e = e\<lparr>e_debug := debug\<rparr>"

definition encodeStart ::
    "crc_fns \<Rightarrow> (u8 \<Rightarrow> string) option \<Rightarrow> ptr \<Rightarrow> encoder \<Rightarrow> packet_store \<Rightarrow>
     (encoder \<times> packet_store \<times> log_event list) res" where
  "encodeStart crc bus packet e h =
     bind_res (deref h packet) (\<lambda>p.
     bind_res (calcAndStoreCrc crc p) (\<lambda>p.
       let h = h(packet \<mapsto> p); e = e\<lparr>e_packet := packet\<rparr> in
       bind_res (debug_dump (e_debug e) ''Sent'' bus p) (\<lambda>log.
         Inr (e\<lparr>e_state := E_IDLE\<rparr>, h, log))))"

text \<open>\<open>handleEscape\<close> updates the byte and the escape character and returns the next state.\<close>

definition handleEscape :: "u8 \<Rightarrow> encoder \<Rightarrow> estate \<times> u8 \<times> encoder" where
  "handleEscape byte e =
     (if byte = END then (E_ESCAPE, ESC, e\<lparr>e_escapeChar := ESC_END\<rparr>)
      else if byte = ESC then (E_ESCAPE, ESC, e\<lparr>e_escapeChar := ESC_ESC\<rparr>)
      else (E_DATA, byte, e))"

text \<open>
  The out parameter \<open>byte\<close> is an option: \<open>None\<close> while the caller's variable has not been
  written. Only the last branch of the switch leaves it as it was.
\<close>

definition encodeByte ::
    "crc_fns \<Rightarrow> packet_store \<Rightarrow> encoder \<Rightarrow> u8 option \<Rightarrow> (error \<times> encoder \<times> u8 option) res" where
  "encodeByte crc h e byte =
     (case e_state e of
        E_IDLE \<Rightarrow> Inr (NOT_DONE, e\<lparr>e_state := E_COMMAND\<rparr>, Some END)
      | E_COMMAND \<Rightarrow>
          bind_res (deref h (e_packet e)) (\<lambda>p.
            let (st, b, e) = handleEscape (getCommand p) e in
            Inr (NOT_DONE, e\<lparr>e_state := st, e_encodeIdx := 0\<rparr>, Some b))
      | E_DATA \<Rightarrow>
          bind_res (deref h (e_packet e)) (\<lambda>p.
            if e_encodeIdx e < getDataLength p then
              bind_res (read_at (getData p) (e_encodeIdx e)) (\<lambda>b.
                let e = e\<lparr>e_encodeIdx := e_encodeIdx e + 1\<rparr>; (st, b, e) = handleEscape b e in
                Inr (NOT_DONE, e\<lparr>e_state := st\<rparr>, Some b))
            else if e_encodeIdx e = getDataLength p then
              bind_res (calcCrc crc p) (\<lambda>c.
                let (st, b, e) = handleEscape c e; e = e\<lparr>e_state := st\<rparr> in
                Inr (NOT_DONE, e\<lparr>e_encodeIdx := e_encodeIdx e + 1\<rparr>, Some b))
            else Inr (NONE, e\<lparr>e_state := E_IDLE\<rparr>, Some END))
      | E_ESCAPE \<Rightarrow> Inr (NOT_DONE, e\<lparr>e_state := E_DATA\<rparr>, Some (e_escapeChar e))
      | E_OTHER \<Rightarrow> Inr (BAD_STATE, e, byte))"

text \<open>
  The loop that drives the encoder, as \<open>IBus::writePacket\<close> and the tests write it: it
  goes on while \<open>encodeByte\<close> returns \<open>NOT_DONE\<close> and collects the bytes.
\<close>

partial_function (option) encode_loop ::
    "crc_fns \<Rightarrow> packet_store \<Rightarrow> encoder \<Rightarrow> u8 option \<Rightarrow> u8 option list \<Rightarrow>
     (error \<times> encoder \<times> u8 option list) res option" where
  "encode_loop crc h e byte out =
     (case encodeByte crc h e byte of
        Inl f \<Rightarrow> Some (Inl f)
      | Inr (err, e, byte) \<Rightarrow>
          if err = NOT_DONE then encode_loop crc h e byte (out @ [byte])
          else Some (Inr (err, e, out @ [byte])))"

section \<open>The bytes still to come\<close>

definition slip :: "u8 \<Rightarrow> u8 list" where
  "slip b = (if b = END then [ESC, ESC_END] else if b = ESC then [ESC, ESC_ESC] else [b])"

definition slips :: "u8 list \<Rightarrow> u8 list" where
  "slips bs = concat (map slip bs)"

definition frame_bytes :: "crc_fns \<Rightarrow> u8 \<Rightarrow> u8 list \<Rightarrow> u8 list" where
  "frame_bytes crc c ds = END # slips (c # ds @ [frame_crc crc c ds]) @ [END]"

lemma slips_simps [simp]:
  "slips [] = []" "slips (b # bs) = slip b @ slips bs" "slips (xs @ ys) = slips xs @ slips ys"
  by (simp_all add: slips_def)

text \<open>What is left of the payload \<open>ds @ [crc]\<close> from an index on.\<close>

definition payload_rest :: "crc_fns \<Rightarrow> packet \<Rightarrow> nat \<Rightarrow> u8 list" where
  "payload_rest crc p i = drop i (contents p @ [frame_crc crc (m_command p) (contents p)])"

definition owed :: "crc_fns \<Rightarrow> packet \<Rightarrow> encoder \<Rightarrow> u8 list" where
  "owed crc p e =
     (case e_state e of
        E_IDLE \<Rightarrow> frame_bytes crc (m_command p) (contents p)
      | E_COMMAND \<Rightarrow> slip (m_command p) @ slips (payload_rest crc p 0) @ [END]
      | E_DATA \<Rightarrow> slips (payload_rest crc p (e_encodeIdx e)) @ [END]
      | E_ESCAPE \<Rightarrow> e_escapeChar e # slips (payload_rest crc p (e_encodeIdx e)) @ [END]
      | E_OTHER \<Rightarrow> [])"

definition encoder_at :: "packet_store \<Rightarrow> encoder \<Rightarrow> packet \<Rightarrow> bool" where
  "encoder_at h e p \<longleftrightarrow> deref h (e_packet e) = Inr p \<and> packet_wf p \<and> e_state e \<noteq> E_OTHER"

lemma payload_rest_step:
  "i < length (contents p) \<Longrightarrow> payload_rest crc p i = contents p ! i # payload_rest crc p (Suc i)"
  unfolding payload_rest_def by (subst Cons_nth_drop_Suc [symmetric]) (auto simp: nth_append)

lemma payload_rest_crc:
  "payload_rest crc p (length (contents p)) = [frame_crc crc (m_command p) (contents p)]"
  "payload_rest crc p (Suc (length (contents p))) = []"
  by (simp_all add: payload_rest_def)

lemma payload_rest_end:
  "length (contents p) < i \<Longrightarrow> payload_rest crc p i = []"
  by (simp add: payload_rest_def)

lemma handleEscape_slip:
  assumes "handleEscape b e = (st, x, e')"
  shows "slip b = x # (if st = E_ESCAPE then [e_escapeChar e'] else [])"
    and "st = E_DATA \<or> st = E_ESCAPE"
    and "e_encodeIdx e' = e_encodeIdx e" "e_packet e' = e_packet e" "e_debug e' = e_debug e"
    and "e_state e' = e_state e"
  using assms by (auto simp: handleEscape_def slip_def split: if_splits)

text \<open>One call hands out the first byte owed; at the last one it returns \<open>NONE\<close> and is idle.\<close>

lemma encodeByte_owed:
  assumes "encoder_at h e p"
  shows "\<exists>err e' x rest. encodeByte crc h e byte = Inr (err, e', Some x) \<and>
    owed crc p e = x # rest \<and> e_packet e' = e_packet e \<and> e_debug e' = e_debug e \<and>
    (if rest = [] then err = NONE \<and> e_state e' = E_IDLE
     else err = NOT_DONE \<and> encoder_at h e' p \<and> owed crc p e' = rest)"
proof -
  note wf = assms[unfolded encoder_at_def]
  have slip_ne: "slip b \<noteq> []" for b
    by (simp add: slip_def)
  show ?thesis
  proof (cases "e_state e")
    case E_IDLE
    with wf show ?thesis
      by (auto simp: encodeByte_def owed_def encoder_at_def frame_bytes_def payload_rest_def)
  next
    case E_COMMAND
    obtain st x e' where he: "handleEscape (m_command p) e = (st, x, e')"
      by (metis prod_cases3)
    with E_COMMAND wf handleEscape_slip[OF he] show ?thesis
      by (auto simp: encodeByte_def owed_def encoder_at_def getCommand_def)
  next
    case E_DATA
    consider (data) "e_encodeIdx e < length (contents p)" | (crc) "e_encodeIdx e = length (contents p)"
      | (finished) "length (contents p) < e_encodeIdx e"
      by linarith
    then show ?thesis
    proof cases
      case data
      have rd: "read_at (m_data p) (e_encodeIdx e) = Inr (contents p ! e_encodeIdx e)"
        using data wf by (simp add: read_at_def contents_def packet_wf_def)
      obtain st x e' where he: "handleEscape (contents p ! e_encodeIdx e)
          (e\<lparr>e_encodeIdx := e_encodeIdx e + 1\<rparr>) = (st, x, e')"
        by (metis prod_cases3)
      with data rd E_DATA wf handleEscape_slip[OF he] show ?thesis
        by (auto simp: encodeByte_def owed_def encoder_at_def getDataLength_def getData_def
            payload_rest_step)
    next
      case crc
      then have idx: "e_encodeIdx e = m_dataLen p"
        using wf by simp
      have pay: "payload_rest crc p (m_dataLen p) = [frame_crc crc (m_command p) (contents p)]"
        "payload_rest crc p (Suc (m_dataLen p)) = []"
        using payload_rest_crc[of crc p] wf by simp_all
      obtain st x e' where he: "handleEscape (frame_crc crc (m_command p) (contents p)) e = (st, x, e')"
        by (metis prod_cases3)
      have "encodeByte crc h e byte
          = Inr (NOT_DONE, e'\<lparr>e_state := st, e_encodeIdx := e_encodeIdx e' + 1\<rparr>, Some x)"
        using E_DATA wf idx he
        by (simp add: encodeByte_def getDataLength_def calcCrc_frame)
      moreover have "owed crc p e = slip (frame_crc crc (m_command p) (contents p)) @ [END]"
        using E_DATA by (simp add: owed_def idx pay)
      ultimately show ?thesis
        using wf idx pay handleEscape_slip[OF he]
        by (auto simp: owed_def encoder_at_def)
    next
      case finished
      with E_DATA wf show ?thesis
        by (auto simp: encodeByte_def owed_def encoder_at_def getDataLength_def payload_rest_end)
    qed
  next
    case E_ESCAPE
    with wf show ?thesis
      by (auto simp: encodeByte_def owed_def encoder_at_def)
  next
    case E_OTHER
    with wf show ?thesis by simp
  qed
qed

lemma encode_loop_owed:
  assumes "encoder_at h e p"
  shows "\<exists>e'. encode_loop crc h e byte out = Some (Inr (NONE, e', out @ map Some (owed crc p e))) \<and>
    e_state e' = E_IDLE \<and> e_packet e' = e_packet e \<and> e_debug e' = e_debug e"
  using assms
proof (induction "length (owed crc p e)" arbitrary: e byte out rule: less_induct)
  case less
  obtain err e' x rest where step: "encodeByte crc h e byte = Inr (err, e', Some x)"
    "owed crc p e = x # rest" "e_packet e' = e_packet e" "e_debug e' = e_debug e"
    "if rest = [] then err = NONE \<and> e_state e' = E_IDLE
     else err = NOT_DONE \<and> encoder_at h e' p \<and> owed crc p e' = rest"
    using encodeByte_owed[OF less.prems, of crc byte] by blast
  show ?case
  proof (cases "rest = []")
    case True
    with step show ?thesis
      by (simp add: encode_loop.simps)
  next
    case False
    with step have next_step: "err = NOT_DONE" "encoder_at h e' p" "owed crc p e' = rest"
      by auto
    with step have "length (owed crc p e') < length (owed crc p e)"
      by simp
    then obtain e'' where
      "encode_loop crc h e' (Some x) (out @ [Some x]) =
         Some (Inr (NONE, e'', (out @ [Some x]) @ map Some (owed crc p e')))"
      "e_state e'' = E_IDLE" "e_packet e'' = e_packet e'" "e_debug e'' = e_debug e'"
      using less.hyps next_step(2) by blast
    with step next_step show ?thesis
      by (subst encode_loop.simps) simp
  qed
qed


text \<open>Starting resets the encoder, whatever it was doing, and stores the CRC.\<close>

definition with_crc :: "crc_fns \<Rightarrow> packet \<Rightarrow> packet" where
  "with_crc crc p = p\<lparr>m_crc := frame_crc crc (m_command p) (contents p)\<rparr>"

lemma with_crc_fields [simp]:
  "m_command (with_crc crc p) = m_command p" "contents (with_crc crc p) = contents p"
  "packet_wf (with_crc crc p) = packet_wf p" "m_maxDataLen (with_crc crc p) = m_maxDataLen p"
  "m_crc (with_crc crc p) = frame_crc crc (m_command p) (contents p)"
  by (simp_all add: with_crc_def)

lemma encodeStart_wf:
  assumes "deref h a = Inr p" "packet_wf p"
  obtains e' log where
    "encodeStart crc bus a e h = Inr (e', h(a \<mapsto> with_crc crc p), log)"
    "e' = e\<lparr>e_packet := a, e_state := E_IDLE\<rparr>"
    "encoder_at (h(a \<mapsto> with_crc crc p)) e' (with_crc crc p)"
    "owed crc (with_crc crc p) e' = frame_bytes crc (m_command p) (contents p)"
    "\<not> e_debug e \<Longrightarrow> log = []"
proof -
  have wf: "packet_wf (with_crc crc p)"
    using assms(2) by simp
  obtain log where log: "debug_dump (e_debug e) ''Sent'' bus (with_crc crc p) = Inr log"
    "\<not> e_debug e \<Longrightarrow> log = []"
    using wf by (rule debug_dump_wf) auto
  have "calcAndStoreCrc crc p = Inr (with_crc crc p)"
    using assms(2) by (simp add: calcAndStoreCrc_def calcCrc_frame with_crc_def)
  then have "encodeStart crc bus a e h
      = Inr (e\<lparr>e_packet := a, e_state := E_IDLE\<rparr>, h(a \<mapsto> with_crc crc p), log)"
    using assms(1) log(1) by (simp add: encodeStart_def Let_def)
  moreover have "encoder_at (h(a \<mapsto> with_crc crc p)) (e\<lparr>e_packet := a, e_state := E_IDLE\<rparr>)
      (with_crc crc p)"
    using assms wf by (auto simp: encoder_at_def deref_ok)
  ultimately show ?thesis
    using that log(2) by (simp add: owed_def)
qed

section \<open>Properties\<close>

text \<open>C14: The encoder writes exactly the frame of the packet: whatever state it was left in,
  \<open>encodeStart\<close> followed by calling \<open>encodeByte\<close> until it stops returning \<open>NOT_DONE\<close>
  terminates with \<open>NONE\<close>, back in the idle state, after writing \<open>END\<close>, the escaped
  command, data and CRC, and \<open>END\<close>; the only change to the packets is that this one now
  holds its CRC.\<close>

theorem encoder_output_is_frame:
  assumes "deref h a = Inr p" "packet_wf p"
  shows "\<exists>e' log e''. encodeStart crc bus a e h = Inr (e', h(a \<mapsto> with_crc crc p), log) \<and>
    encode_loop crc (h(a \<mapsto> with_crc crc p)) e' None []
      = Some (Inr (NONE, e'', map Some (frame_bytes crc (getCommand p) (contents p)))) \<and>
    e_state e'' = E_IDLE \<and> e_packet e'' = a"
proof -
  obtain e' log where start: "encodeStart crc bus a e h = Inr (e', h(a \<mapsto> with_crc crc p), log)"
    "e' = e\<lparr>e_packet := a, e_state := E_IDLE\<rparr>"
    "encoder_at (h(a \<mapsto> with_crc crc p)) e' (with_crc crc p)"
    "owed crc (with_crc crc p) e' = frame_bytes crc (m_command p) (contents p)"
    using encodeStart_wf[OF assms, of crc bus e] by metis
  from encode_loop_owed[OF start(3), of crc None "[]"] start(1,2,4) show ?thesis
    by (auto simp: getCommand_def)
qed

theorem encoder_output_is_frame_witness:
  "\<exists>e' log e''. encodeStart crc8_poly07 None 5 (new_encoder 0) [5 \<mapsto> sample_packet]
      = Inr (e', [5 \<mapsto> sample_packet, 5 \<mapsto> with_crc crc8_poly07 sample_packet], log) \<and>
    encode_loop crc8_poly07 [5 \<mapsto> sample_packet, 5 \<mapsto> with_crc crc8_poly07 sample_packet] e' None []
      = Some (Inr (NONE, e'', map Some [0xC0, 1, 2, 0x1b, 0xC0])) \<and>
    e_state e'' = E_IDLE \<and> e_packet e'' = 5"
proof -
  have "deref [5 \<mapsto> sample_packet] 5 = Inr sample_packet"
    by (simp add: deref_ok nullptr_def)
  from encoder_output_is_frame[OF this sample_packet_props(1), of crc8_poly07 None "new_encoder 0"]
  show ?thesis
    by (simp add: frame_bytes_def slip_def frame_consts getCommand_def sample_packet_props
        crc8_examples)
qed

end
