(* ===== verification/Framing.thy ===== *)
theory Framing
  imports Encoder Crc_Laws
begin

text \<open>
  The wire format, where encoder and decoder meet: what the encoder writes is a frame,
  the decoder takes a frame apart again, a stream of frames comes out in order, and what
  happens to the frames around a damaged one. Everything is proved on the abstract
  receiver and carried to the code by the refinement.
\<close>

section \<open>Frames\<close>

lemma END_notin_slip [simp]: "END \<notin> set (slip b)"
  by (auto simp: slip_def frame_consts)

lemma END_notin_slips [simp]: "END \<notin> set (slips bs)"
  by (induction bs) auto

lemma length_slip: "1 \<le> length (slip b)" "length (slip b) \<le> 2"
  by (auto simp: slip_def)

lemma length_slips: "length bs \<le> length (slips bs)" "length (slips bs) \<le> 2 * length bs"
proof (induction bs)
  case (Cons b bs)
  { case 1 then show ?case using Cons length_slip[of b] by simp }
  { case 2 then show ?case using Cons length_slip[of b] by simp }
qed simp_all

section \<open>The receiver on escaped bytes\<close>

abbreviation pendings :: "'a list \<Rightarrow> outcome list" where
  "pendings xs \<equiv> map (\<lambda>_. Pending) xs"

lemma receive_slip_command:
  "receive_all crc cap (slip c) (R_Command False) = (pendings (slip c), R_Data False c [])"
  by (auto simp: slip_def unescape_def frame_consts)

lemma receive_slip_data:
  "length ds < cap \<Longrightarrow>
     receive_all crc cap (slip b) (R_Data False c ds) = (pendings (slip b), R_Data False c (ds @ [b]))"
  by (auto simp: slip_def unescape_def frame_consts)

lemma receive_slips_data:
  "length ds + length bs \<le> cap \<Longrightarrow>
     receive_all crc cap (slips bs) (R_Data False c ds) = (pendings (slips bs), R_Data False c (ds @ bs))"
proof (induction bs arbitrary: ds)
  case Nil
  then show ?case by simp
next
  case (Cons b bs)
  then have "receive_all crc cap (slips bs) (R_Data False c (ds @ [b]))
      = (pendings (slips bs), R_Data False c ((ds @ [b]) @ bs))"
    by (intro Cons.IH) simp
  with Cons.prems show ?case
    by (simp add: receive_all_append receive_slip_data)
qed

lemma receive_payload:
  "length ds \<le> cap \<Longrightarrow>
     receive_all crc cap (slips (c # ds)) (R_Command False)
       = (pendings (slips (c # ds)), R_Data False c ds)"
  by (simp add: receive_all_append receive_slip_command receive_slips_data)

text \<open>Outside a frame everything but \<open>END\<close> is skipped; repeated \<open>END\<close>s are one.\<close>

lemma receive_noise:
  "END \<notin> set bs \<Longrightarrow> receive_all crc cap bs R_Idle = (pendings bs, R_Idle)"
  by (induction bs) auto

lemma receive_ends:
  "receive_all crc cap (replicate n END) (R_Command False)
     = (replicate n Pending, R_Command False)"
  by (induction n) (auto simp: frame_consts)

lemma receive_enclosed:
  assumes "length ds \<le> cap"
  shows "receive_all crc cap (END # slips (c # ds) @ [END]) R_Idle =
    (Pending # pendings (slips (c # ds)) @ [fst (receive_end crc c ds)], snd (receive_end crc c ds))"
proof -
  have "receive crc cap END (R_Data False c ds) = receive_end crc c ds"
    by (simp add: frame_consts)
  then show ?thesis
    using receive_payload[OF assms, of crc c]
    by (simp add: receive_all_append split_beta del: slips_simps)
qed

lemma receive_frame:
  assumes "length ds < cap"
  shows "receive_all crc cap (frame_bytes crc c ds) R_Idle =
    (pendings (butlast (frame_bytes crc c ds)) @ [Delivered c ds (frame_crc crc c ds)], R_Idle)"
  using receive_enclosed[of "ds @ [frame_crc crc c ds]" cap crc c] assms
  by (simp add: frame_bytes_def receive_end_def butlast_append)

section \<open>What the decoder delivers\<close>

text \<open>
  The messages an application sees: whenever \<open>decodeByte\<close> returns \<open>NONE\<close> it takes the
  command and the data of the packet.
\<close>

fun deliveries ::
    "crc_fns \<Rightarrow> (u8 \<Rightarrow> string) option \<Rightarrow> u8 list \<Rightarrow> decoder \<Rightarrow> packet \<Rightarrow>
     ((u8 \<times> u8 list) list \<times> decoder \<times> packet) res" where
  "deliveries crc bus [] d p = Inr ([], d, p)"
| "deliveries crc bus (b # bs) d p =
     bind_res (decodeByte crc bus b d p) (\<lambda>(err, d, p, log).
     bind_res (deliveries crc bus bs d p) (\<lambda>(ms, d', p').
       Inr ((if err = NONE then [(getCommand p, contents p)] else []) @ ms, d', p')))"

fun message :: "outcome \<Rightarrow> (u8 \<times> u8 list) list" where
  "message (Delivered c ds r) = [(c, ds)]"
| "message _ = []"

definition messages :: "outcome list \<Rightarrow> (u8 \<times> u8 list) list" where
  "messages outs = concat (map message outs)"

lemma messages_simps [simp]:
  "messages [] = []" "messages (out # outs) = message out @ messages outs"
  "messages (xs @ ys) = messages xs @ messages ys" "messages (pendings zs) = []"
  by (simp_all add: messages_def)

lemma outcome_error_message:
  "delivered_in out p \<Longrightarrow>
     (if outcome_error out = NONE then [(getCommand p, contents p)] else []) = message out"
  by (cases out) (auto simp: getCommand_def)

lemma deliveries_refine:
  assumes "packet_wf p" "decoder_ok d"
  shows "\<exists>d' p'. deliveries crc bus bs d p =
      Inr (messages (fst (receive_all crc (m_maxDataLen p) bs (receiver_of d p))), d', p') \<and>
    receiver_of d' p' = snd (receive_all crc (m_maxDataLen p) bs (receiver_of d p)) \<and>
    step_frame d p d' p'"
  using assms
proof (induction bs arbitrary: d p)
  case Nil
  then show ?case by (auto intro: step_frame_refl)
next
  case (Cons b bs)
  obtain d1 p1 log1 where step1:
    "decodeByte crc bus b d p
       = Inr (outcome_error (fst (receive crc (m_maxDataLen p) b (receiver_of d p))), d1, p1, log1)"
    "receiver_of d1 p1 = snd (receive crc (m_maxDataLen p) b (receiver_of d p))"
    "step_frame d p d1 p1"
    "delivered_in (fst (receive crc (m_maxDataLen p) b (receiver_of d p))) p1"
    using decode_step_refines[OF Cons.prems, where crc = crc and bus = bus and b = b] by metis
  note frame1 = step_frameD[OF step1(3)]
  obtain d2 p2 where step2:
    "deliveries crc bus bs d1 p1 =
      Inr (messages (fst (receive_all crc (m_maxDataLen p) bs (receiver_of d1 p1))), d2, p2)"
    "receiver_of d2 p2 = snd (receive_all crc (m_maxDataLen p) bs (receiver_of d1 p1))"
    "step_frame d1 p1 d2 p2"
    using Cons.IH[OF frame1(1,2)] frame1(3) by auto
  have "step_frame d p d2 p2"
    using step1(3) step2(3) by (rule step_frame_trans)
  then show ?case
    using step1 step2 outcome_error_message[OF step1(4)] by (auto simp: split_beta)
qed

text \<open>In a frame, nothing but its end delivers, and what is delivered has its command.\<close>

lemma receive_in_frame_quiet:
  assumes "END \<notin> set bs" "receive_all crc cap bs (R_Data esc c ds) = (outs, r)"
  shows "messages outs = [] \<and> (\<exists>esc' ds'. r = R_Data esc' c ds')"
  using assms
proof (induction bs arbitrary: esc ds outs r)
  case Nil
  then show ?case by auto
next
  case (Cons b bs)
  obtain esc1 ds1 out where one: "receive crc cap b (R_Data esc c ds) = (out, R_Data esc1 c ds1)"
    "message out = []"
    using Cons.prems(1) by (cases "\<not> esc \<and> b = ESC"; cases "cap \<le> length ds") auto
  obtain outs1 where rest: "receive_all crc cap bs (R_Data esc1 c ds1) = (outs1, r)"
    "outs = out # outs1"
    using Cons.prems(2) one(1) by (auto split: prod.splits)
  with one(2) Cons.IH[OF _ rest(1)] Cons.prems(1) show ?case
    by auto
qed

lemma receive_end_in_frame:
  "receive crc cap END (R_Data esc c ds) = (out, r) \<Longrightarrow>
     (\<exists>ds'. message out = [(c, ds')] \<and> r = R_Idle) \<or>
     (message out = [] \<and> (\<exists>ds'. r = R_Data False c ds'))"
  by (auto simp: receive_end_def frame_consts split: if_splits)


section \<open>Properties of the wire format\<close>

text \<open>A frame has its delimiters only at its two ends, and its length is between
  \<open>n + 4\<close> and \<open>2 n + 6\<close> bytes for \<open>n\<close> bytes of data: escaping never lets an \<open>END\<close> into
  the body.\<close>

theorem frame_delimiters_and_length:
  "\<exists>body. frame_bytes crc c ds = END # body @ [END] \<and> END \<notin> set body \<and>
     length ds + 4 \<le> length (frame_bytes crc c ds) \<and>
     length (frame_bytes crc c ds) \<le> 2 * length ds + 6"
proof -
  let ?payload = "c # ds @ [frame_crc crc c ds]"
  have "frame_bytes crc c ds = END # slips ?payload @ [END]"
    by (simp add: frame_bytes_def)
  moreover have "END \<notin> set (slips ?payload)"
    by (rule END_notin_slips)
  moreover have "length (frame_bytes crc c ds) = length (slips ?payload) + 2"
    by (simp add: frame_bytes_def)
  ultimately show ?thesis
    using length_slips[of ?payload] by auto
qed

lemma frame_nonempty: "frame_bytes crc c ds \<noteq> []" "butlast (frame_bytes crc c ds) \<noteq> []"
  by (simp_all add: frame_bytes_def)

lemma decode_frame:
  assumes "packet_wf p" "decoder_ok d" "d_state d = D_IDLE" "length ds < m_maxDataLen p"
  obtains d' p' log where
    "decode_stream crc bus (frame_bytes crc c ds) d p
       = Inr (replicate (length (frame_bytes crc c ds) - 1) NOT_DONE @ [NONE], d', p', log)"
    "step_frame d p d' p'" "d_state d' = D_IDLE"
    "m_command p' = c" "contents p' = ds" "m_crc p' = frame_crc crc c ds"
proof -
  have idle: "receiver_of d p = R_Idle"
    using assms(3) by (simp add: receiver_of_def)
  let ?f = "frame_bytes crc c ds"
  have codes: "map outcome_error (pendings (butlast ?f) @ [Delivered c ds (frame_crc crc c ds)])
      = replicate (length ?f - 1) NOT_DONE @ [NONE]"
    by (simp add: comp_def map_replicate_const)
  obtain d' p' log where run: "decode_stream crc bus ?f d p
       = Inr (replicate (length ?f - 1) NOT_DONE @ [NONE], d', p', log)"
    "receiver_of d' p' = R_Idle" "step_frame d p d' p'"
    "delivered_in (Delivered c ds (frame_crc crc c ds)) p'"
    using decode_stream_refines[OF assms(1,2), of crc bus ?f,
        unfolded idle receive_frame[OF assms(4)] fst_conv snd_conv codes last_snoc]
      frame_nonempty(1) by blast
  have "d_state d' = D_IDLE"
    using run(2) step_frameD(2)[OF run(3)]
    by (cases "d_state d'") (auto simp: receiver_of_def decoder_ok_def)
  with run that show ?thesis by simp
qed

text \<open>C1: Encoding and decoding are inverse: the bytes the encoder writes for a packet,
  fed to a decoder that waits for a frame and has room for the data and the CRC, return
  \<open>NOT_DONE\<close> for every byte but the last and \<open>NONE\<close> for the last, and leave a packet with
  the same command, the same data and the CRC the encoder stored.\<close>

theorem encode_decode_roundtrip:
  assumes "deref h a = Inr q" "packet_wf q"
    and "packet_wf p" "decoder_ok d" "d_state d = D_IDLE" "getDataLength q < getMaxDataLength p"
  shows "\<exists>e' h' log e'' bs d' p' log'.
    encodeStart crc bus a e h = Inr (e', h', log) \<and>
    encode_loop crc h' e' None [] = Some (Inr (NONE, e'', map Some bs)) \<and>
    decode_stream crc bus' bs d p
      = Inr (replicate (length bs - 1) NOT_DONE @ [NONE], d', p', log') \<and>
    getCommand p' = getCommand q \<and> contents p' = contents q \<and>
    deref h' a = Inr (q\<lparr>m_crc := getCrc p'\<rparr>) \<and> d_state d' = D_IDLE"
proof -
  have a: "a \<noteq> nullptr"
    using assms(1) by (simp add: deref_ok)
  obtain e' log e'' where enc: "encodeStart crc bus a e h = Inr (e', h(a \<mapsto> with_crc crc q), log)"
    "encode_loop crc (h(a \<mapsto> with_crc crc q)) e' None []
      = Some (Inr (NONE, e'', map Some (frame_bytes crc (m_command q) (contents q))))"
  proof -
    obtain e' log where start: "encodeStart crc bus a e h = Inr (e', h(a \<mapsto> with_crc crc q), log)"
      "encoder_at (h(a \<mapsto> with_crc crc q)) e' (with_crc crc q)"
      "owed crc (with_crc crc q) e' = frame_bytes crc (m_command q) (contents q)"
      using encodeStart_wf[OF assms(1,2), of crc bus e] by metis
    with encode_loop_owed[OF start(2), of crc None "[]"] that show thesis
      by auto
  qed
  have "length (contents q) < m_maxDataLen p"
    using assms(2,6) by (simp add: getDataLength_def getMaxDataLength_def)
  then obtain d' p' log' where
    "decode_stream crc bus' (frame_bytes crc (m_command q) (contents q)) d p
       = Inr (replicate (length (frame_bytes crc (m_command q) (contents q)) - 1) NOT_DONE @ [NONE],
           d', p', log')"
    "d_state d' = D_IDLE" "m_command p' = m_command q" "contents p' = contents q"
    "m_crc p' = frame_crc crc (m_command q) (contents q)"
    using decode_frame[OF assms(3-5), where crc = crc and bus = bus' and c = "m_command q"]
    by metis
  with enc a show ?thesis
    by (auto simp: getCommand_def getCrc_def deref_ok with_crc_def)
qed

theorem encode_decode_roundtrip_witness:
  "\<exists>e' h' log e'' bs d' p' log'.
    encodeStart crc8_poly07 None 5 (new_encoder 0) [5 \<mapsto> sample_packet] = Inr (e', h', log) \<and>
    encode_loop crc8_poly07 h' e' None [] = Some (Inr (NONE, e'', map Some bs)) \<and>
    decode_stream crc8_poly07 None bs new_decoder (blank_packet 2)
      = Inr (replicate (length bs - 1) NOT_DONE @ [NONE], d', p', log') \<and>
    getCommand p' = getCommand sample_packet \<and> contents p' = contents sample_packet \<and>
    deref h' 5 = Inr (sample_packet\<lparr>m_crc := getCrc p'\<rparr>) \<and> d_state d' = D_IDLE"
  by (rule encode_decode_roundtrip)
    (simp_all add: deref_ok nullptr_def sample_packet_props blank_packet_wf size_range_def
      new_decoder_def decoder_ok_def getDataLength_def getMaxDataLength_def)

text \<open>Frames one after the other, each after some noise without \<open>END\<close>.\<close>

definition noisy_frames :: "crc_fns \<Rightarrow> (u8 list \<times> u8 \<times> u8 list) list \<Rightarrow> u8 list" where
  "noisy_frames crc ms = concat (map (\<lambda>(noise, c, ds). noise @ frame_bytes crc c ds) ms)"

lemma receive_noisy_frames:
  assumes "\<forall>(noise, c, ds) \<in> set ms. END \<notin> set noise \<and> length ds < cap"
  shows "messages (fst (receive_all crc cap (noisy_frames crc ms) R_Idle)) = map snd ms \<and>
    snd (receive_all crc cap (noisy_frames crc ms) R_Idle) = R_Idle"
  using assms
  by (induction ms)
    (auto simp: noisy_frames_def receive_all_append receive_noise receive_frame split_beta)

text \<open>C2: A decoder that waits for a frame delivers a stream of frames completely, in order
  and nothing else, whatever bytes other than \<open>END\<close> come between the frames, as long as
  each frame's data and CRC fit into the packet.\<close>

theorem stream_delivered_in_order:
  assumes "packet_wf p" "decoder_ok d" "d_state d = D_IDLE"
    and "\<forall>(noise, c, ds) \<in> set ms. END \<notin> set noise \<and> length ds < getMaxDataLength p"
  shows "\<exists>d' p'. deliveries crc bus (noisy_frames crc ms) d p = Inr (map snd ms, d', p') \<and>
    d_state d' = D_IDLE"
proof -
  have idle: "receiver_of d p = R_Idle"
    using assms(3) by (simp add: receiver_of_def)
  have fit: "\<forall>(noise, c, ds) \<in> set ms. END \<notin> set noise \<and> length ds < m_maxDataLen p"
    using assms(4) by (simp add: getMaxDataLength_def)
  obtain d' p' where run: "deliveries crc bus (noisy_frames crc ms) d p = Inr (map snd ms, d', p')"
    "receiver_of d' p' = R_Idle" "step_frame d p d' p'"
    using deliveries_refine[OF assms(1,2), of crc bus "noisy_frames crc ms"]
      receive_noisy_frames[OF fit, of crc] idle by auto
  have "d_state d' = D_IDLE"
    using run(2) step_frameD(2)[OF run(3)]
    by (cases "d_state d'") (auto simp: receiver_of_def decoder_ok_def)
  with run show ?thesis by blast
qed

theorem stream_delivered_in_order_witness:
  "\<exists>d' p'. deliveries crc8_poly07 None
      (noisy_frames crc8_poly07 [([7, 8], 1, [0xC0, 2]), ([], 0xDB, [])]) new_decoder (blank_packet 3)
    = Inr (map snd [([7, 8::u8], 1, [0xC0, 2]), ([], 0xDB, [])], d', p') \<and> d_state d' = D_IDLE"
  by (rule stream_delivered_in_order)
    (simp_all add: blank_packet_wf size_range_def new_decoder_def decoder_ok_def
      getMaxDataLength_def END_def)

section \<open>Damaged frames\<close>

text \<open>A payload with one byte changed still has the shape of a payload, but its CRC is wrong.\<close>

lemma damaged_payload:
  assumes "crc_laws crc" "payload = c # ds @ [frame_crc crc c ds]" "i < length payload" "b \<noteq> payload ! i"
  obtains c' ds' r' where "payload[i := b] = c' # ds' @ [r']" "length ds' = length ds"
    "r' \<noteq> frame_crc crc c' ds'"
proof -
  define bad where "bad = payload[i := b]"
  have "length bad = length ds + 2"
    unfolding bad_def assms(2) length_list_update by simp
  then obtain c' ds' r' where bad: "bad = c' # ds' @ [r']" "length ds' = length ds"
    by (cases bad; cases "tl bad" rule: rev_exhaust) auto
  have "r' \<noteq> frame_crc crc c' ds'"
  proof (cases "i = length ds + 1")
    case True
    with assms(2) bad bad_def have "c' # ds' = c # ds" "r' = b"
      by (auto simp: list_update_append)
    with assms(2,4) True show ?thesis by (simp add: nth_append)
  next
    case False
    with assms(2,3) have i: "i < length (c # ds)" by simp
    have "bad = (c # ds)[i := b] @ [frame_crc crc c ds]"
      using i assms(2) unfolding bad_def by (metis append_Cons list_update_append1)
    with bad have upd: "c' # ds' = (c # ds)[i := b]" "r' = frame_crc crc c ds"
      by (metis append_Cons butlast_snoc, metis append_Cons last_snoc)
    have "b \<noteq> (c # ds) ! i"
      using assms(2,4) i by (metis append_Cons nth_append)
    from crc_one_byte[OF assms(1) i this, of 0] upd show ?thesis
      by (simp add: frame_crc_foldl[OF assms(1)] del: foldl_Cons)
  qed
  with bad that show thesis by (simp add: bad_def)
qed

text \<open>
  The byte sequences that a decoder inside a frame takes for a byte \<open>x\<close>. Those of the
  encoder (\<open>slip\<close>) are among them, but an escape may be followed by any byte.
\<close>

definition spells :: "u8 list \<Rightarrow> u8 \<Rightarrow> bool" where
  "spells bs x \<longleftrightarrow> (bs = [x] \<and> x \<noteq> END \<and> x \<noteq> ESC) \<or> (\<exists>y. bs = [ESC, y] \<and> unescape y = x)"

lemma spells_slip: "spells (slip x) x"
  by (auto simp: spells_def slip_def unescape_def frame_consts)

lemma spells_slips: "list_all2 spells (map slip xs) xs"
  by (simp add: list_all2_conv_all_nth spells_slip)

lemma receive_spelled_command:
  "spells bs c \<Longrightarrow> receive_all crc cap bs (R_Command False) = (pendings bs, R_Data False c [])"
  by (auto simp: spells_def)

lemma receive_spelled_data:
  "length ds + length xs \<le> cap \<Longrightarrow> list_all2 spells chunks xs \<Longrightarrow>
     receive_all crc cap (concat chunks) (R_Data False c ds)
       = (pendings (concat chunks), R_Data False c (ds @ xs))"
proof (induction chunks arbitrary: xs ds)
  case (Cons bs chunks)
  then obtain x xs' where xs: "xs = x # xs'" "spells bs x" "list_all2 spells chunks xs'"
    by (auto simp: list_all2_Cons1)
  then have "receive_all crc cap bs (R_Data False c ds) = (pendings bs, R_Data False c (ds @ [x]))"
    using Cons.prems(1) by (auto simp: spells_def)
  with Cons.IH[of "ds @ [x]" xs'] Cons.prems(1) xs show ?case
    by (simp add: receive_all_append)
qed simp

lemma receive_spelled_enclosed:
  assumes "list_all2 spells chunks (c # ds)" "length ds \<le> cap"
  shows "receive_all crc cap (END # concat chunks @ [END]) R_Idle =
    (Pending # pendings (concat chunks) @ [fst (receive_end crc c ds)], snd (receive_end crc c ds))"
proof -
  obtain bs chunks' where ch: "chunks = bs # chunks'" "spells bs c" "list_all2 spells chunks' ds"
    using assms(1) by (auto simp: list_all2_Cons2)
  have "receive_all crc cap (concat chunks) (R_Command False) = (pendings (concat chunks), R_Data False c ds)"
    using receive_spelled_command[OF ch(2)] receive_spelled_data[OF _ ch(3), of "[]" cap] assms(2)
    by (simp add: ch(1) receive_all_append)
  moreover have "receive crc cap END (R_Data False c ds) = receive_end crc c ds"
    by (simp add: frame_consts)
  ultimately show ?thesis
    by (simp add: receive_all_append split_beta)
qed

lemma decode_spelled_damage:
  assumes "packet_wf p" "decoder_ok d" "d_state d = D_IDLE"
    and "list_all2 spells chunks (c' # ds' @ [r'])" "length ds' < m_maxDataLen p" "r' \<noteq> frame_crc crc c' ds'"
  shows "\<exists>errs d' p' log. decode_stream crc bus (END # concat chunks @ [END]) d p
      = Inr (errs @ [CRC], d', p', log) \<and> set errs = {NOT_DONE}"
proof -
  let ?bytes = "END # concat chunks @ [END]"
  have idle: "receiver_of d p = R_Idle"
    using assms(3) by (simp add: receiver_of_def)
  have rec: "fst (receive_all crc (m_maxDataLen p) ?bytes R_Idle) = (Pending # pendings (concat chunks)) @ [Bad_Crc]"
    using receive_spelled_enclosed[OF assms(4), of "m_maxDataLen p" crc] assms(5,6) by (simp add: receive_end_def)
  have codes: "map outcome_error ((Pending # pendings (concat chunks)) @ [Bad_Crc])
      = replicate (length (concat chunks) + 1) NOT_DONE @ [CRC]"
    by (simp add: comp_def map_replicate_const)
  show ?thesis
    using decode_stream_refines[OF assms(1,2), of crc bus ?bytes, unfolded idle rec codes] by fastforce
qed

text \<open>
  A byte of the payload that is changed before it is escaped, whatever it is changed to, is
  detected: the frame ends with the error \<open>CRC\<close>.
\<close>

theorem payload_damage_detected:
  assumes "crc_laws crc" "packet_wf p" "decoder_ok d" "d_state d = D_IDLE"
    and "payload = c # ds @ [frame_crc crc c ds]" "length ds < getMaxDataLength p"
    and "i < length payload" "b \<noteq> payload ! i"
  shows "\<exists>errs d' p' log. decode_stream crc bus (END # slips (payload[i := b]) @ [END]) d p
      = Inr (errs @ [CRC], d', p', log) \<and> set errs = {NOT_DONE}"
proof -
  obtain c' ds' r' where bad: "payload[i := b] = c' # ds' @ [r']" "length ds' = length ds"
    "r' \<noteq> frame_crc crc c' ds'"
    by (rule damaged_payload[OF assms(1,5,7,8)])
  have "list_all2 spells (map slip (payload[i := b])) (c' # ds' @ [r'])"
    unfolding bad(1) by (rule spells_slips)
  from decode_spelled_damage[OF assms(2-4) this _ bad(3), of bus] show ?thesis
    using assms(6) bad(2) by (simp add: getMaxDataLength_def slips_def)
qed

text \<open>
  One byte of the escaped payload changed on the wire, with no delimiter or escape made or
  destroyed, is one byte of the payload changed, though it may be spelled as the encoder
  never spells it.
\<close>

lemma slip_damage:
  assumes "j < length (slip a)" "slip a ! j \<noteq> ESC" "b \<noteq> END" "b \<noteq> ESC" "b \<noteq> slip a ! j"
  shows "\<exists>x. spells ((slip a)[j := b]) x \<and> x \<noteq> a"
proof (cases "a = END \<or> a = ESC")
  case True
  with assms have "j = 1"
    by (auto simp: slip_def less_Suc_eq frame_consts)
  with True assms have "(slip a)[j := b] = [ESC, b]" "unescape b \<noteq> a"
    by (auto simp: slip_def unescape_def frame_consts)
  then show ?thesis by (auto simp: spells_def)
next
  case False
  with assms show ?thesis by (auto simp: slip_def spells_def)
qed

lemma slips_damage:
  assumes "j < length (slips xs)" "slips xs ! j \<noteq> ESC" "b \<noteq> END" "b \<noteq> ESC" "b \<noteq> slips xs ! j"
  shows "\<exists>chunks k x. (slips xs)[j := b] = concat chunks \<and> list_all2 spells chunks (xs[k := x]) \<and>
    k < length xs \<and> x \<noteq> xs ! k"
  using assms
proof (induction xs arbitrary: j)
  case (Cons a xs)
  show ?case
  proof (cases "j < length (slip a)")
    case True
    then obtain x where "spells ((slip a)[j := b]) x" "x \<noteq> a"
      using slip_damage[of j a b] Cons.prems by (auto simp: nth_append)
    with True spells_slips[of xs] show ?thesis
      by (intro exI[of _ "(slip a)[j := b] # map slip xs"] exI[of _ 0] exI[of _ x])
        (simp add: list_update_append slips_def)
  next
    case False
    let ?j = "j - length (slip a)"
    have "?j < length (slips xs)" "slips xs ! ?j \<noteq> ESC" "b \<noteq> slips xs ! ?j"
      using Cons.prems(1,2,5) False by (simp_all add: nth_append less_diff_conv2)
    with Cons.IH[of ?j] Cons.prems(3,4)
    obtain chunks k x where ih: "(slips xs)[?j := b] = concat chunks" "list_all2 spells chunks (xs[k := x])"
      "k < length xs" "x \<noteq> xs ! k"
      by blast
    with False spells_slip[of a] show ?thesis
      by (intro exI[of _ "slip a # chunks"] exI[of _ "Suc k"] exI[of _ x]) (simp add: list_update_append)
  qed
qed simp

text \<open>A frame that loses one of its two delimiters is not delivered.\<close>

lemma receive_command_quiet:
  "END \<notin> set bs \<Longrightarrow> messages (fst (receive_all crc cap bs (R_Command esc))) = []"
proof (induction bs arbitrary: esc)
  case (Cons b bs)
  have "messages (fst (receive_all crc cap bs (R_Data False c ds))) = []" for c ds
    using receive_in_frame_quiet[of bs crc cap False c ds] Cons.prems by (metis list.set_intros(2) prod.collapse)
  with Cons.IH Cons.prems show ?case
    by (simp add: split_beta)
qed simp

lemma lost_delimiter:
  assumes "END \<notin> set body" "b \<noteq> END" "bytes = b # body @ [END] \<or> bytes = END # body @ [b]"
  shows "messages (fst (receive_all crc cap bytes R_Idle)) = []"
  using assms(3)
proof
  assume bytes: "bytes = b # body @ [END]"
  have "receive_all crc cap (b # body) R_Idle = (pendings (b # body), R_Idle)"
    using assms(1,2) by (intro receive_noise) auto
  then show ?thesis
    using receive_all_append[of crc cap "b # body" "[END]" R_Idle] by (simp add: bytes)
next
  assume bytes: "bytes = END # body @ [b]"
  have "messages (fst (receive_all crc cap (body @ [b]) (R_Command False))) = []"
    using assms(1,2) by (intro receive_command_quiet) auto
  then show ?thesis by (simp add: bytes split_beta)
qed

text \<open>C16: A byte of a frame that is damaged on the wire is detected, unless the damage makes
  a delimiter or an escape (the new byte is \<open>END\<close> or \<open>ESC\<close>) or hits the \<open>ESC\<close> of an escape: for
  a CRC with the documented laws, whichever other byte is replaced by whichever other value,
  the frame is not delivered; if the byte lies between the two delimiters, escaped or not,
  \<open>decodeByte\<close> returns \<open>NOT_DONE\<close> for every byte but the last and \<open>CRC\<close> for the last.\<close>

theorem single_byte_damage_detected:
  assumes "crc_laws crc" "packet_wf p" "decoder_ok d" "d_state d = D_IDLE"
    and "frame = frame_bytes crc c ds" "length ds < getMaxDataLength p"
    and "i < length frame" "b \<noteq> frame ! i" "b \<notin> {END, ESC}" "frame ! i \<noteq> ESC"
  shows "(\<exists>d' p'. deliveries crc bus (frame[i := b]) d p = Inr ([], d', p')) \<and>
    (0 < i \<and> i < length frame - 1 \<longrightarrow>
      (\<exists>d' p' log. decode_stream crc bus (frame[i := b]) d p
        = Inr (replicate (length frame - 1) NOT_DONE @ [CRC], d', p', log)))"
proof -
  let ?payload = "c # ds @ [frame_crc crc c ds]"
  have frame: "frame = END # slips ?payload @ [END]"
    by (simp add: assms(5) frame_bytes_def)
  have idle: "receiver_of d p = R_Idle"
    using assms(4) by (simp add: receiver_of_def)
  have b: "b \<noteq> END" "b \<noteq> ESC"
    using assms(9) by auto
  show ?thesis
  proof (cases "0 < i \<and> i < length frame - 1")
    case True
    define j where "j = i - 1"
    have j: "i = Suc j" "j < length (slips ?payload)" "frame ! i = slips ?payload ! j"
      using True by (auto simp: j_def frame nth_append simp del: slips_simps)
    obtain chunks k x where chunks: "(slips ?payload)[j := b] = concat chunks"
      "list_all2 spells chunks (?payload[k := x])" "k < length ?payload" "x \<noteq> ?payload ! k"
      using slips_damage[OF j(2) _ b] assms(8,10) unfolding j(3) by blast
    have bytes: "frame[i := b] = END # concat chunks @ [END]"
      using j(2) by (simp add: frame j(1) list_update_append chunks(1) del: slips_simps)
    obtain c' ds' r' where bad: "?payload[k := x] = c' # ds' @ [r']" "length ds' = length ds"
      "r' \<noteq> frame_crc crc c' ds'"
      by (rule damaged_payload[OF assms(1) refl chunks(3,4)])
    have run: "receive_all crc (m_maxDataLen p) (frame[i := b]) R_Idle
        = ((Pending # pendings (concat chunks)) @ [Bad_Crc], snd (receive_end crc c' (ds' @ [r'])))"
      using receive_spelled_enclosed[OF chunks(2)[unfolded bad(1)], of "m_maxDataLen p" crc] bad(2,3) assms(6)
      by (simp add: bytes receive_end_def getMaxDataLength_def)
    have len: "length (concat chunks) = length frame - 2"
      using arg_cong[OF chunks(1), of length] by (simp add: frame del: slips_simps)
    have codes: "map outcome_error ((Pending # pendings (concat chunks)) @ [Bad_Crc])
        = replicate (length frame - 1) NOT_DONE @ [CRC]"
    proof -
      have "Suc (length frame - 2) = length frame - 1" using True by arith
      with len show ?thesis
        by (simp add: comp_def map_replicate_const flip: replicate_Suc)
    qed
    show ?thesis
      using deliveries_refine[OF assms(2,3), of crc bus "frame[i := b]"]
        decode_stream_refines[OF assms(2,3), of crc bus "frame[i := b]"]
      unfolding idle run fst_conv codes by auto
  next
    case False
    then have "i = 0 \<or> i = Suc (length (slips ?payload))"
      using assms(7) by (auto simp: frame simp del: slips_simps)
    then have "frame[i := b] = b # slips ?payload @ [END] \<or> frame[i := b] = END # slips ?payload @ [b]"
      by (auto simp: frame list_update_append simp del: slips_simps)
    from lost_delimiter[OF END_notin_slips b(1) this, of crc "m_maxDataLen p"] False show ?thesis
      using deliveries_refine[OF assms(2,3), of crc bus "frame[i := b]"] idle by auto
  qed
qed

theorem single_byte_damage_detected_witness:
  "(\<exists>d' p'. deliveries crc8_poly07 None [0xC0, 1, 7, 0x1b, 0xC0] new_decoder (blank_packet 2) = Inr ([], d', p')) \<and>
   (\<exists>d' p' log. decode_stream crc8_poly07 None [0xC0, 1, 7, 0x1b, 0xC0] new_decoder (blank_packet 2)
      = Inr ([NOT_DONE, NOT_DONE, NOT_DONE, NOT_DONE, CRC], d', p', log))"
proof -
  have frame: "[0xC0, 1, 2, 0x1b, 0xC0] = frame_bytes crc8_poly07 1 [2]"
    by (simp add: frame_bytes_def slip_def frame_consts crc8_examples)
  have at: "packet_wf (blank_packet 2)" "decoder_ok new_decoder" "d_state new_decoder = D_IDLE"
    "length [2 :: u8] < getMaxDataLength (blank_packet 2)"
    by (simp_all add: blank_packet_wf size_range_def new_decoder_def decoder_ok_def getMaxDataLength_def)
  have hit: "2 < length [0xC0, 1, 2, 0x1b, 0xC0 :: u8]" "(7 :: u8) \<noteq> [0xC0, 1, 2, 0x1b, 0xC0] ! 2"
    "(7 :: u8) \<notin> {END, ESC}" "[0xC0, 1, 2, 0x1b, 0xC0] ! 2 \<noteq> ESC" "0 < (2 :: nat) \<and> 2 < length [0xC0, 1, 2, 0x1b, 0xC0 :: u8] - 1"
    by (simp_all add: frame_consts)
  have shape: "[0xC0, 1, 2, 0x1b, 0xC0 :: u8][2 := 7] = [0xC0, 1, 7, 0x1b, 0xC0]"
    "replicate (length [0xC0, 1, 2, 0x1b, 0xC0 :: u8] - 1) NOT_DONE @ [CRC] = [NOT_DONE, NOT_DONE, NOT_DONE, NOT_DONE, CRC]"
    by (simp_all add: numeral_eq_Suc)
  show ?thesis
    using single_byte_damage_detected[OF crc8_poly07_laws at(1-3) frame at(4) hit(1-4), of None] hit(5)
    unfolding shape by blast
qed

text \<open>
  The exceptions are real. A data byte that becomes \<open>END\<close> can cut the frame short where the
  bytes before it happen to be a frame: of the \<open>PING\<close> with the data 7 and 3, damaged in its
  second data byte, a \<open>PING\<close> without data is delivered.
\<close>

lemma false_delimiter_delivers:
  "\<exists>d' p'. deliveries crc8_poly07 None ((frame_bytes crc8_poly07 1 [7, 3])[3 := END]) new_decoder (blank_packet 15)
     = Inr ([(1, [])], d', p')"
proof -
  have crc: "frame_crc crc8_poly07 1 [7, 3] \<notin> {END, ESC}" "frame_crc crc8_poly07 1 [] = 7"
    by code_simp+
  then have bytes: "(frame_bytes crc8_poly07 1 [7, 3])[3 := END]
      = [END, 1, 7, END, frame_crc crc8_poly07 1 [7, 3], END]"
    by (simp add: frame_bytes_def slip_def frame_consts numeral_3_eq_3)
  have "messages (fst (receive_all crc8_poly07 15 ((frame_bytes crc8_poly07 1 [7, 3])[3 := END]) R_Idle)) = [(1, [])]"
    unfolding bytes using crc by (simp add: receive_end_def frame_consts)
  then show ?thesis
    using deliveries_refine[of "blank_packet 15" new_decoder crc8_poly07 None
        "(frame_bytes crc8_poly07 1 [7, 3])[3 := END]"]
    by (auto simp: receiver_of_new blank_packet_wf size_range_def)
qed

text \<open>While the decoder is inside a frame (as it is after every error, see
  \<open>errors_stay_in_the_frame\<close>), the next well-formed frame is lost: at most one message is delivered in its place, and that one
  carries the command of the broken frame.\<close>

theorem frame_after_error_is_lost:
  assumes "packet_wf p" "d_state d = D_DATA"
  shows "\<exists>ms d' p'. deliveries crc bus (frame_bytes crc' c ds) d p = Inr (ms, d', p') \<and>
    length ms \<le> 1 \<and> (\<forall>m \<in> set ms. fst m = getCommand p)"
proof -
  let ?body = "slips (c # ds @ [frame_crc crc' c ds])"
  have ok: "decoder_ok d"
    using assms(2) by (simp add: decoder_ok_def)
  have bytes: "frame_bytes crc' c ds = END # ?body @ [END]"
    by (simp add: frame_bytes_def)
  have lost: "length (messages outs) \<le> 1 \<and> (\<forall>m \<in> set (messages outs). fst m = c0)"
    if run: "receive_all crc cap (END # ?body @ [END]) (R_Data esc c0 xs) = (outs, r)" for cap esc c0 xs outs r
  proof -
    obtain out1 r1 where first: "receive crc cap END (R_Data esc c0 xs) = (out1, r1)"
      by fastforce
    obtain outs2 r2 where mid: "receive_all crc cap ?body r1 = (outs2, r2)"
      by fastforce
    obtain out3 r3 where third: "receive crc cap END r2 = (out3, r3)"
      by fastforce
    have outs: "outs = out1 # outs2 @ [out3]"
      using run first mid third by (simp add: receive_all_append del: slips_simps)
    from receive_end_in_frame[OF first] show ?thesis
    proof (elim disjE conjE exE)
      fix ds'
      assume out1: "message out1 = [(c0, ds')]" "r1 = R_Idle"
      with mid receive_noise[OF END_notin_slips, of crc cap] have "messages outs2 = []" "r2 = R_Idle"
        by (auto simp del: slips_simps)
      with third outs out1 show ?thesis by auto
    next
      fix ds'
      assume out1: "message out1 = []" "r1 = R_Data False c0 ds'"
      with mid receive_in_frame_quiet[OF END_notin_slips] obtain esc2 ds2
        where "messages outs2 = []" "r2 = R_Data esc2 c0 ds2"
        by metis
      with third outs out1 receive_end_in_frame[of crc cap esc2 c0 ds2 out3 r3] show ?thesis
        by auto
    qed
  qed
  have start: "receiver_of d p = R_Data (d_escape d) (m_command p) (contents p)"
    using assms(2) by (simp add: receiver_of_def)
  obtain d' p' where "deliveries crc bus (frame_bytes crc' c ds) d p
      = Inr (messages (fst (receive_all crc (m_maxDataLen p) (frame_bytes crc' c ds)
          (receiver_of d p))), d', p')"
    using deliveries_refine[OF assms(1) ok] by metis
  with lost[of "m_maxDataLen p"] show ?thesis
    unfolding bytes start getCommand_def by (metis prod.collapse)
qed

theorem frame_after_error_is_lost_witness:
  "\<exists>ms d' p'. deliveries crc8_poly07 None (frame_bytes crc8_poly07 1 [])
      (new_decoder\<lparr>d_state := D_DATA\<rparr>) (blank_packet 3) = Inr (ms, d', p') \<and>
    length ms \<le> 1 \<and> (\<forall>m \<in> set ms. fst m = getCommand (blank_packet 3))"
  by (rule frame_after_error_is_lost) (simp_all add: blank_packet_wf size_range_def)

text \<open>After \<open>CRC\<close>, \<open>TOO_SMALL\<close> or \<open>TOO_MUCH_DATA\<close> the decoder is inside the frame.\<close>

lemma receive_error_in_frame:
  "outcome_error (fst (receive crc cap b r)) \<in> {CRC, TOO_SMALL, TOO_MUCH_DATA} \<Longrightarrow>
     \<exists>esc c ds. snd (receive crc cap b r) = R_Data esc c ds"
  by (cases r) (auto simp: receive_end_def split: if_splits)

lemma error_leaves_data:
  assumes "packet_wf p" "decoder_ok d" "decode_stream crc bus bs d p = Inr (errs @ [err], d', p', log)"
    and "err \<in> {CRC, TOO_SMALL, TOO_MUCH_DATA}"
  shows "packet_wf p' \<and> d_state d' = D_DATA"
proof -
  obtain outs r where rec: "receive_all crc (m_maxDataLen p) bs (receiver_of d p) = (outs, r)" by fastforce
  have run: "errs @ [err] = map outcome_error outs" "receiver_of d' p' = r" "step_frame d p d' p'"
    using decode_stream_refines[OF assms(1,2), of crc bus bs] assms(3) by (auto simp: rec)
  obtain bs' b where bs: "bs = bs' @ [b]"
    using rec run(1) by (cases bs rule: rev_cases) auto
  let ?r = "snd (receive_all crc (m_maxDataLen p) bs' (receiver_of d p))"
  have "last outs = fst (receive crc (m_maxDataLen p) b ?r)" "r = snd (receive crc (m_maxDataLen p) b ?r)" "outs \<noteq> []"
    using rec bs by (auto simp: receive_all_append split_beta)
  moreover from this run(1) have "err = outcome_error (last outs)"
    by (metis last_map last_snoc)
  ultimately obtain esc c ds where "receiver_of d' p' = R_Data esc c ds"
    using receive_error_in_frame assms(4) run(2) by metis
  then have "d_state d' = D_DATA"
    by (auto simp: receiver_of_def split: dstate.splits)
  with step_frameD(1)[OF run(3)] show ?thesis by simp
qed

text \<open>The concrete case, with the CRC the protocol uses: a \<open>PING\<close> with a wrong CRC.\<close>

lemma receive_damaged_ping:
  "receive_all crc8_poly07 15 [0xC0, 0x01, 0x08, 0xC0] R_Idle
     = ([Pending, Pending, Pending, Bad_Crc], R_Data False 1 [])"
  using receive_enclosed[of "[8]" 15 crc8_poly07 1]
  by (simp add: receive_end_def crc8_examples slip_def frame_consts)

lemma receive_ping_when_stuck:
  "receive_all crc8_poly07 15 [0xC0, 0x01, 0x07, 0xC0] (R_Data False 1 [])
     = ([Too_Small, Pending, Pending, Bad_Crc], R_Data False 1 [1])"
  "receive_all crc8_poly07 15 [0xC0, 0x01, 0x07, 0xC0] (R_Data False 1 [1])
     = ([Bad_Crc, Pending, Pending, Bad_Crc], R_Data False 1 [1])"
  by (simp_all add: receive_end_def frame_consts crc8_examples crc8_ping_ping)

lemma messages_append:
  "messages (fst (receive_all crc cap (xs @ ys) r)) =
     messages (fst (receive_all crc cap xs r)) @
     messages (fst (receive_all crc cap ys (snd (receive_all crc cap xs r))))"
  by (simp add: receive_all_append split_beta)

lemma receive_pings_when_stuck:
  "messages (fst (receive_all crc8_poly07 15 (concat (replicate n [0xC0, 0x01, 0x07, 0xC0]))
     (R_Data False 1 [1]))) = []"
proof (induction n)
  case (Suc n)
  then show ?case
    by (simp only: replicate_Suc concat.simps messages_append receive_ping_when_stuck
        fst_conv snd_conv) simp
qed simp

lemma receive_pings_after_damage:
  "messages (fst (receive_all crc8_poly07 15 (concat (replicate n [0xC0, 0x01, 0x07, 0xC0]))
     (R_Data False 1 []))) = []"
proof (cases n)
  case (Suc m)
  with receive_pings_when_stuck[of m] show ?thesis
    by (simp only: replicate_Suc concat.simps messages_append receive_ping_when_stuck
        fst_conv snd_conv) simp
qed simp

text \<open>C21: One damaged byte can silence a receiver for good: after a single \<open>PING\<close> with a
  wrong CRC byte, not one of any number of correct \<open>PING\<close> frames that follow is
  delivered.\<close>

theorem pings_after_crc_error_lost:
  "\<exists>d' p'. deliveries crc8_poly07 bus
      ([0xC0, 0x01, 0x08, 0xC0] @ concat (replicate n [0xC0, 0x01, 0x07, 0xC0]))
      new_decoder (blank_packet 15) = Inr ([], d', p')"
proof -
  let ?bytes = "[0xC0, 0x01, 0x08, 0xC0] @ concat (replicate n [0xC0, 0x01, 0x07, 0xC0])"
  have "messages (fst (receive_all crc8_poly07 15 ?bytes R_Idle)) = []"
    using receive_pings_after_damage
    by (simp only: messages_append receive_damaged_ping fst_conv snd_conv) simp
  moreover have "packet_wf (blank_packet 15)"
    by (simp add: blank_packet_wf size_range_def)
  ultimately show ?thesis
    using deliveries_refine[of "blank_packet 15" new_decoder crc8_poly07 bus ?bytes]
    by (auto simp: receiver_of_new)
qed

text \<open>The frame of the examples.\<close>

lemma ping_frame: "frame_bytes crc8_poly07 1 [2] = [0xC0, 1, 2, 0x1b, 0xC0]"
  by (simp add: frame_bytes_def slip_def frame_consts crc8_examples)

end
