(* ===== verification/Packing.thy ===== *)
theory Packing
  imports Packets
begin

text \<open>
  The classes \<open>Packer\<close> (\<^verbatim>\<open>src/Packer.cpp\<close>) and \<open>Unpacker\<close> (\<^verbatim>\<open>src/Unpacker.cpp\<close>): packing
  integers and strings into a packet, taking them out again, the round trip over a whole
  sequence of values, and what happens at the borders (no room, strings that are too long
  for the 8-bit length).
\<close>

section \<open>Packer\<close>

text \<open>
  A packer holds a pointer to a packet; an operation takes the packet and returns what the
  method returns together with the packet. \<open>pack_word\<close> is the template \<open>pack\<close>.
\<close>

definition pack_word :: "'a::len word \<Rightarrow> packet \<Rightarrow> (bool \<times> packet) res" where
  "pack_word data p =
     (if getSpaceRemaining p < sizeof TYPE('a) then Inr (False, p)
      else
        bind_res (appendData (sizeof TYPE('a)) (le_bytes (sizeof TYPE('a)) data) p) (\<lambda>p.
          Inr (True, p)))"

definition pack_str :: "u8 list \<Rightarrow> packet \<Rightarrow> (bool \<times> packet) res" where
  "pack_str str p =
     bind_res (strnlen str 256) (\<lambda>n.
       let strLength = word_of_nat (n + 1) :: u8 in
       bind_res (pack_word strLength p) (\<lambda>(ok, p).
         if \<not> ok then Inr (False, p)
         else if getSpaceRemaining p < unat strLength then Inr (False, p)
         else bind_res (appendData (unat strLength) str p) (\<lambda>p. Inr (True, p))))"

section \<open>Unpacker\<close>

text \<open>
  \<open>u_data\<close> is the memory from \<open>m_data\<close> on, inside the storage of the packet. A value that
  was not unpacked (the method returned false) is \<open>None\<close>.
\<close>

record unpacker =
  u_data :: "u8 list"
  u_dataRemaining :: nat

definition empty_unpacker :: unpacker where
  "empty_unpacker = \<lparr>u_data = [], u_dataRemaining = 0\<rparr>"

definition new_unpacker :: "packet \<Rightarrow> unpacker" where
  "new_unpacker p = \<lparr>u_data = getData p, u_dataRemaining = getDataLength p\<rparr>"

definition unpacker_setData :: "packet \<Rightarrow> unpacker \<Rightarrow> unpacker" where
  "unpacker_setData p u = u\<lparr>u_data := getData p, u_dataRemaining := getDataLength p\<rparr>"

definition unpack_word :: "unpacker \<Rightarrow> ('a::len word option \<times> unpacker) res" where
  "unpack_word u =
     (let size = sizeof TYPE('a) in
      if u_dataRemaining u < size then Inr (None, u)
      else
        bind_res (memcpy (replicate size 0) 0 (u_data u) size) (\<lambda>bytes.
          Inr (Some (of_le_bytes bytes),
            u\<lparr>u_data := drop size (u_data u), u_dataRemaining := u_dataRemaining u - size\<rparr>)))"

definition unpack_bytes :: "nat \<Rightarrow> unpacker \<Rightarrow> (u8 list option \<times> unpacker) res" where
  "unpack_bytes numBytes u =
     (if u_dataRemaining u < numBytes then Inr (None, u)
      else Inr (Some (u_data u),
        u\<lparr>u_data := drop numBytes (u_data u), u_dataRemaining := u_dataRemaining u - numBytes\<rparr>))"

definition unpack_str :: "unpacker \<Rightarrow> (u8 list option \<times> unpacker) res" where
  "unpack_str u =
     bind_res (unpack_word u) (\<lambda>(strLength :: u8 option, u).
       case strLength of
         None \<Rightarrow> Inr (None, u)
       | Some strLength \<Rightarrow>
           if u_dataRemaining u < unat strLength then Inr (None, u)
           else Inr (Some (u_data u),
             u\<lparr>u_data := drop (unat strLength) (u_data u),
               u_dataRemaining := u_dataRemaining u - unat strLength\<rparr>))"

text \<open>
  What the caller sees through the returned \<open>char const*\<close>: the bytes up to the first null
  byte, which must lie in the storage.
\<close>

definition c_string :: "u8 list \<Rightarrow> u8 list res" where
  "c_string mem = (if 0 \<in> set mem then Inr (takeWhile (\<lambda>b. b \<noteq> 0) mem) else Inl Out_Of_Bounds)"

lemma c_string_terminated [simp]:
  assumes "0 \<notin> set s"
  shows "c_string (s @ 0 # rest) = Inr s"
proof -
  have "takeWhile (\<lambda>b. b \<noteq> 0) (s @ 0 # rest) = s"
    using assms by (induction s) auto
  then show ?thesis by (simp add: c_string_def)
qed

section \<open>Single operations\<close>

lemma sizeof_u8 [simp]: "sizeof TYPE(8) = 1"
  by (simp add: sizeof_def)

lemma sizeof_u16 [simp]: "sizeof TYPE(16) = 2"
  by (simp add: sizeof_def)

lemma sizeof_u32 [simp]: "sizeof TYPE(32) = 4"
  by (simp add: sizeof_def)

lemma le_bytes_u8 [simp]: "le_bytes (Suc 0) (b :: u8) = [b]"
  by simp

lemma of_le_bytes_u8 [simp]: "(of_le_bytes [b] :: u8) = b"
  by simp

lemma pack_word_fits:
  fixes w :: "'a::len word"
  assumes "packet_wf p" "m_dataLen p + sizeof TYPE('a) \<le> m_maxDataLen p"
  shows "pack_word w p = Inr (True, put (le_bytes (sizeof TYPE('a)) w) p)"
  using assms by (simp add: pack_word_def getSpaceRemaining_wf appendData_put)

lemma pack_word_full:
  fixes w :: "'a::len word"
  assumes "packet_wf p" "m_maxDataLen p < m_dataLen p + sizeof TYPE('a)"
  shows "pack_word w p = Inr (False, p)"
proof -
  have "m_maxDataLen p - m_dataLen p < sizeof TYPE('a)"
    using assms(2) packet_wf_bounds(1)[OF assms(1)] by linarith
  then show ?thesis
    using assms(1) by (simp add: pack_word_def getSpaceRemaining_wf)
qed

lemma unpack_word_ok:
  assumes "u_dataRemaining u \<le> length (u_data u)" "sizeof TYPE('a::len) \<le> u_dataRemaining u"
  shows "unpack_word u = Inr (Some (of_le_bytes (take (sizeof TYPE('a)) (u_data u)) :: 'a word),
    u\<lparr>u_data := drop (sizeof TYPE('a)) (u_data u),
      u_dataRemaining := u_dataRemaining u - sizeof TYPE('a)\<rparr>)"
  using assms by (simp add: unpack_word_def memcpy_ok Let_def)

text \<open>A string of at most 254 bytes, with its terminator, as \<open>pack_str\<close> lays it out.\<close>

definition string_bytes :: "u8 list \<Rightarrow> u8 list" where
  "string_bytes s = word_of_nat (length s + 1) # s @ [0]"

lemma length_string_bytes [simp]: "length (string_bytes s) = length s + 2"
  by (simp add: string_bytes_def)

lemma unat_string_length: "length s < 255 \<Longrightarrow> unat (word_of_nat (length s + 1) :: u8) = length s + 1"
  by (subst unat_of_nat) simp

lemma pack_str_fits:
  assumes "packet_wf p" "0 \<notin> set s" "length s < 255" "m_dataLen p + length s + 2 \<le> m_maxDataLen p"
  shows "pack_str (s @ 0 # rest) p = Inr (True, put (string_bytes s) p)"
proof -
  let ?l = "word_of_nat (length s + 1) :: u8"
  let ?q = "put [?l] p"
  have q: "packet_wf ?q" "m_dataLen ?q = m_dataLen p + 1"
    using assms by (auto intro!: put_wf)
  have "strnlen (s @ 0 # rest) 256 = Inr (length s)"
    using assms by (intro strnlen_cstring) auto
  moreover have "pack_word ?l p = Inr (True, ?q)"
    using assms by (simp add: pack_word_fits)
  moreover have "appendData (length s + 1) (s @ 0 # rest) ?q = Inr (put (s @ [0]) ?q)"
    using assms q by (simp add: appendData_put)
  moreover have "put (s @ [0]) ?q = put (string_bytes s) p"
    using assms(1) by (simp add: put_put packet_wf_bounds string_bytes_def)
  ultimately show ?thesis
    using assms q unat_string_length[OF assms(3)]
    by (simp add: pack_str_def getSpaceRemaining_wf Let_def)
qed

lemma unpack_str_ok:
  assumes "u_data u = string_bytes s @ rest" "length s < 255"
    "length s + 2 \<le> u_dataRemaining u" "u_dataRemaining u \<le> length (u_data u)"
  shows "unpack_str u = Inr (Some (s @ 0 # rest),
    u\<lparr>u_data := rest, u_dataRemaining := u_dataRemaining u - (length s + 2)\<rparr>)"
proof -
  let ?l = "word_of_nat (length s + 1) :: u8"
  have "unpack_word u = Inr (Some ?l,
      u\<lparr>u_data := s @ 0 # rest, u_dataRemaining := u_dataRemaining u - 1\<rparr>)"
    using unpack_word_ok[of u, where 'a = 8] assms by (simp add: string_bytes_def)
  then show ?thesis
    using assms unat_string_length[OF assms(2)] by (simp add: unpack_str_def)
qed


section \<open>Sequences of values\<close>

text \<open>
  What an application packs: integers of the three widths and strings. \<open>pack_item\<close> and
  \<open>unpack_item\<close> call the method for the type of the value; strings are given without
  their terminator, which the memory behind the pointer has.
\<close>

datatype item = U8 u8 | U16 u16 | U32 u32 | Str "u8 list"

datatype kind = K8 | K16 | K32 | KStr

fun kind_of :: "item \<Rightarrow> kind" where
  "kind_of (U8 b) = K8"
| "kind_of (U16 w) = K16"
| "kind_of (U32 w) = K32"
| "kind_of (Str s) = KStr"

fun pack_item :: "item \<Rightarrow> packet \<Rightarrow> (bool \<times> packet) res" where
  "pack_item (U8 b) p = pack_word b p"
| "pack_item (U16 w) p = pack_word w p"
| "pack_item (U32 w) p = pack_word w p"
| "pack_item (Str s) p = pack_str (s @ [0]) p"

fun pack_items :: "item list \<Rightarrow> packet \<Rightarrow> (bool \<times> packet) res" where
  "pack_items [] p = Inr (True, p)"
| "pack_items (x # xs) p =
     bind_res (pack_item x p) (\<lambda>(ok, p). if ok then pack_items xs p else Inr (False, p))"

fun unpack_item :: "kind \<Rightarrow> unpacker \<Rightarrow> (item option \<times> unpacker) res" where
  "unpack_item K8 u = bind_res (unpack_word u) (\<lambda>(x, u). Inr (map_option U8 x, u))"
| "unpack_item K16 u = bind_res (unpack_word u) (\<lambda>(x, u). Inr (map_option U16 x, u))"
| "unpack_item K32 u = bind_res (unpack_word u) (\<lambda>(x, u). Inr (map_option U32 x, u))"
| "unpack_item KStr u =
     bind_res (unpack_str u) (\<lambda>(x, u).
       case x of None \<Rightarrow> Inr (None, u)
       | Some mem \<Rightarrow> bind_res (c_string mem) (\<lambda>s. Inr (Some (Str s), u)))"

fun unpack_items :: "kind list \<Rightarrow> unpacker \<Rightarrow> (item list option \<times> unpacker) res" where
  "unpack_items [] u = Inr (Some [], u)"
| "unpack_items (k # ks) u =
     bind_res (unpack_item k u) (\<lambda>(x, u).
       case x of None \<Rightarrow> Inr (None, u)
       | Some x \<Rightarrow> bind_res (unpack_items ks u) (\<lambda>(xs, u). Inr (map_option ((#) x) xs, u)))"

text \<open>The strings the format can carry, and the bytes a value takes.\<close>

fun item_ok :: "item \<Rightarrow> bool" where
  "item_ok (Str s) \<longleftrightarrow> 0 \<notin> set s \<and> length s < 255"
| "item_ok _ \<longleftrightarrow> True"

fun item_bytes :: "item \<Rightarrow> u8 list" where
  "item_bytes (U8 b) = [b]"
| "item_bytes (U16 w) = le_bytes 2 w"
| "item_bytes (U32 w) = le_bytes 4 w"
| "item_bytes (Str s) = string_bytes s"

definition items_bytes :: "item list \<Rightarrow> u8 list" where
  "items_bytes xs = concat (map item_bytes xs)"

lemma items_bytes_simps [simp]:
  "items_bytes [] = []" "items_bytes (x # xs) = item_bytes x @ items_bytes xs"
  by (simp_all add: items_bytes_def)

lemma pack_item_fits:
  assumes "packet_wf p" "item_ok x" "m_dataLen p + length (item_bytes x) \<le> m_maxDataLen p"
  shows "pack_item x p = Inr (True, put (item_bytes x) p)"
proof (cases x)
  case (U8 b)
  with assms show ?thesis by (simp add: pack_word_fits)
next
  case (U16 w)
  with assms show ?thesis by (simp add: pack_word_fits del: le_bytes.simps)
next
  case (U32 w)
  with assms show ?thesis by (simp add: pack_word_fits del: le_bytes.simps)
next
  case (Str s)
  with assms pack_str_fits[of p s "[]"] show ?thesis by simp
qed

lemma pack_items_fits:
  "packet_wf p \<Longrightarrow> list_all item_ok xs \<Longrightarrow>
     m_dataLen p + length (items_bytes xs) \<le> m_maxDataLen p \<Longrightarrow>
     pack_items xs p = Inr (True, put (items_bytes xs) p)"
proof (induction xs arbitrary: p)
  case Nil
  then show ?case by simp
next
  case (Cons x xs)
  then have "pack_item x p = Inr (True, put (item_bytes x) p)"
    by (intro pack_item_fits) auto
  moreover have "pack_items xs (put (item_bytes x) p)
      = Inr (True, put (items_bytes xs) (put (item_bytes x) p))"
    using Cons.prems by (intro Cons.IH) (auto intro!: put_wf)
  ultimately show ?case
    using Cons.prems by (simp add: put_put packet_wf_bounds)
qed

text \<open>The bytes still to unpack are those of the values, with anything behind them.\<close>

definition unpacker_at :: "unpacker \<Rightarrow> u8 list \<Rightarrow> bool" where
  "unpacker_at u bytes \<longleftrightarrow> (\<exists>rest. u_data u = bytes @ rest) \<and>
     length bytes \<le> u_dataRemaining u \<and> u_dataRemaining u \<le> length (u_data u)"

lemma unpack_word_le:
  fixes w :: "'a::len word"
  assumes "u_data u = le_bytes (sizeof TYPE('a)) w @ rest" "8 dvd LENGTH('a)"
    "sizeof TYPE('a) \<le> u_dataRemaining u" "u_dataRemaining u \<le> length (u_data u)"
  shows "unpack_word u = Inr (Some w,
    u\<lparr>u_data := rest, u_dataRemaining := u_dataRemaining u - sizeof TYPE('a)\<rparr>)"
  using unpack_word_ok[of u, where 'a = 'a] assms by (simp add: of_le_bytes_le_bytes)

lemma unpack_item_bytes:
  assumes "unpacker_at u (item_bytes x @ later)" "item_ok x"
  obtains u' where "unpack_item (kind_of x) u = Inr (Some x, u')" "unpacker_at u' later"
    "u_dataRemaining u' = u_dataRemaining u - length (item_bytes x)"
proof -
  obtain rest where rest: "u_data u = item_bytes x @ later @ rest"
    "length (item_bytes x) + length later \<le> u_dataRemaining u"
    "u_dataRemaining u \<le> length (u_data u)"
    using assms(1) by (auto simp: unpacker_at_def)
  let ?u = "u\<lparr>u_data := later @ rest, u_dataRemaining := u_dataRemaining u - length (item_bytes x)\<rparr>"
  have at: "unpacker_at ?u later"
    using rest by (auto simp: unpacker_at_def)
  have "unpack_item (kind_of x) u = Inr (Some x, ?u)"
  proof (cases x)
    case (U8 b)
    with rest unpack_word_le[of u b "later @ rest"] show ?thesis by simp
  next
    case (U16 w)
    with rest unpack_word_le[of u w "later @ rest"] show ?thesis by (simp del: le_bytes.simps)
  next
    case (U32 w)
    with rest unpack_word_le[of u w "later @ rest"] show ?thesis by (simp del: le_bytes.simps)
  next
    case (Str s)
    with rest assms(2) unpack_str_ok[of u s "later @ rest"] show ?thesis by simp
  qed
  with at that show thesis by simp
qed

lemma unpack_items_bytes:
  "list_all item_ok xs \<Longrightarrow> unpacker_at u (items_bytes xs) \<Longrightarrow>
     \<exists>u'. unpack_items (map kind_of xs) u = Inr (Some xs, u') \<and>
       u_dataRemaining u' = u_dataRemaining u - length (items_bytes xs)"
proof (induction xs arbitrary: u)
  case Nil
  then show ?case by simp
next
  case (Cons x xs)
  then obtain u1 where u1: "unpack_item (kind_of x) u = Inr (Some x, u1)"
    "unpacker_at u1 (items_bytes xs)" "u_dataRemaining u1 = u_dataRemaining u - length (item_bytes x)"
    using unpack_item_bytes[of u x "items_bytes xs"] by auto
  with Cons.IH[of u1] Cons.prems(1) show ?case by auto
qed

text \<open>An unpacker made from a packet stands before the packet's data.\<close>

lemma unpacker_at_contents:
  assumes "packet_wf p"
  shows "unpacker_at (new_unpacker p) (contents p)" "u_dataRemaining (new_unpacker p) = length (contents p)"
proof -
  have "m_data p = contents p @ drop (m_dataLen p) (m_data p)"
    by (simp add: contents_def)
  with packet_wf_bounds(2)[OF assms] assms
  show "unpacker_at (new_unpacker p) (contents p)" "u_dataRemaining (new_unpacker p) = length (contents p)"
    by (auto simp: unpacker_at_def new_unpacker_def getData_def getDataLength_def)
qed

lemma packed_items_unpack:
  assumes "packet_wf p" "getDataLength p = 0" "list_all item_ok xs"
    and "length (items_bytes xs) \<le> getMaxDataLength p"
  shows "\<exists>p' u'. pack_items xs p = Inr (True, p') \<and> contents p' = items_bytes xs \<and>
    unpack_items (map kind_of xs) (new_unpacker p') = Inr (Some xs, u') \<and> u_dataRemaining u' = 0"
proof -
  have len: "m_dataLen p = 0" "length (items_bytes xs) \<le> m_maxDataLen p"
    using assms(2,4) by (simp_all add: getDataLength_def getMaxDataLength_def)
  let ?q = "put (items_bytes xs) p"
  have q: "packet_wf ?q" "contents ?q = items_bytes xs"
    using assms(1) len by (auto intro!: put_wf simp: packet_wf_bounds contents_def[of p])
  have packed: "pack_items xs p = Inr (True, ?q)"
    using assms(1,3) len by (intro pack_items_fits) auto
  from unpack_items_bytes[OF assms(3), of "new_unpacker ?q"] unpacker_at_contents[OF q(1)] packed q(2)
  show ?thesis by auto
qed


section \<open>Properties\<close>

text \<open>C20: Packing and unpacking are inverse on whole sequences: integers of 8, 16 and 32
  bits and null-free strings of at most 254 bytes, packed one after the other into an
  empty packet with room for them, are all accepted, and unpacking the same types in the
  same order gives the same values back and uses up the packet exactly.\<close>

theorem pack_unpack_sequence:
  assumes "packet_wf p" "getDataLength p = 0" "list_all item_ok xs"
    and "length (items_bytes xs) \<le> getMaxDataLength p"
  shows "\<exists>p' u'. pack_items xs p = Inr (True, p') \<and> contents p' = items_bytes xs \<and>
    unpack_items (map kind_of xs) (new_unpacker p') = Inr (Some xs, u') \<and> u_dataRemaining u' = 0"
  using assms by (rule packed_items_unpack)

theorem pack_unpack_sequence_witness:
  "\<exists>p' u'. pack_items [U8 7, Str [65, 66], U32 0xDEADBEEF, Str [], U16 0xC0DB] (blank_packet 16)
      = Inr (True, p') \<and>
    contents p' = items_bytes [U8 7, Str [65, 66], U32 0xDEADBEEF, Str [], U16 0xC0DB] \<and>
    unpack_items (map kind_of [U8 7, Str [65, 66], U32 0xDEADBEEF, Str [], U16 0xC0DB])
      (new_unpacker p') = Inr (Some [U8 7, Str [65, 66], U32 0xDEADBEEF, Str [], U16 0xC0DB], u') \<and>
    u_dataRemaining u' = 0"
  by (rule pack_unpack_sequence)
    (simp_all add: blank_packet_wf size_range_def getDataLength_def getMaxDataLength_def
      del: le_bytes.simps)

lemma u8_wraps: "(256::u8) = 0" "(257::u8) = 1"
  by code_simp+

text \<open>Strings that do not fit the 8-bit length are stored wrongly although \<open>pack\<close>
  returns true: a string of 255 bytes is stored as the single byte 0, a longer one as
  length 1 and its first character, without a terminator.\<close>

theorem pack_str_too_long:
  assumes "packet_wf p" "0 \<notin> set s" "255 \<le> length s" "getDataLength p + 2 \<le> getMaxDataLength p"
  shows "pack_str (s @ 0 # rest) p
    = Inr (True, put (if length s = 255 then [0] else [1, hd s]) p)"
proof (cases "length s = 255")
  case True
  have "strnlen (s @ 0 # rest) 256 = Inr 255"
    using strnlen_cstring[OF assms(2), of 256 rest] True by simp
  moreover have "pack_word (0::u8) p = Inr (True, put [0] p)"
    using assms by (simp add: pack_word_fits getDataLength_def getMaxDataLength_def)
  moreover have "packet_wf (put [0] p)"
    using assms by (auto intro!: put_wf simp: getDataLength_def getMaxDataLength_def)
  ultimately show ?thesis
    using True appendData_put[of "put [0] p" 0 "s @ 0 # rest"] packet_wf_bounds(1)[of "put [0] p"]
    by (simp add: pack_str_def u8_wraps)
next
  case False
  then have "256 \<le> length s" using assms(3) by simp
  then have n: "strnlen (s @ 0 # rest) 256 = Inr 256"
    using strnlen_long[OF assms(2)] by blast
  have room: "m_dataLen p + 2 \<le> m_maxDataLen p"
    using assms(4) by (simp add: getDataLength_def getMaxDataLength_def)
  have one: "pack_word (1::u8) p = Inr (True, put [1] p)"
    using assms(1) room by (simp add: pack_word_fits)
  have wf: "packet_wf (put [1] p)"
    using assms(1) room by (auto intro!: put_wf)
  have "take 1 (s @ 0 # rest) = [hd s]"
    using \<open>256 \<le> length s\<close> by (cases s) auto
  then have "appendData 1 (s @ 0 # rest) (put [1] p) = Inr (put [1, hd s] p)"
    using wf room appendData_put[of "put [1] p" 1 "s @ 0 # rest"]
      put_put[OF packet_wf_bounds(2)[OF assms(1)], of "[hd s]" "[1]"] by simp
  then show ?thesis
    using n one wf room False by (simp add: pack_str_def getSpaceRemaining_wf u8_wraps)
qed

theorem pack_str_too_long_witness:
  "pack_str (replicate 255 65 @ 0 # []) (blank_packet 4) = Inr (True, put [0] (blank_packet 4)) \<and>
   pack_str (replicate 300 65 @ 0 # []) (blank_packet 4) = Inr (True, put [1, 65] (blank_packet 4))"
  using pack_str_too_long[of "blank_packet 4" "replicate 255 65" "[]"]
    pack_str_too_long[of "blank_packet 4" "replicate 300 65" "[]"]
  by (simp add: blank_packet_wf size_range_def getDataLength_def getMaxDataLength_def)

text \<open>A string that does not fit is refused, but not without a trace: when there is
  room for the length byte, \<open>pack\<close> returns false and the packet has grown by that byte.\<close>

theorem pack_str_failure_leaves_length:
  assumes "packet_wf p" "0 \<notin> set s" "length s < 255"
    and "getDataLength p < getMaxDataLength p" "getMaxDataLength p < getDataLength p + length s + 2"
  shows "pack_str (s @ 0 # rest) p = Inr (False, put [word_of_nat (length s + 1)] p)"
proof -
  let ?l = "word_of_nat (length s + 1) :: u8"
  have room: "m_dataLen p + 1 \<le> m_maxDataLen p" "m_maxDataLen p < m_dataLen p + length s + 2"
    using assms(4,5) by (auto simp: getDataLength_def getMaxDataLength_def)
  have "strnlen (s @ 0 # rest) 256 = Inr (length s)"
    using assms(2,3) by (intro strnlen_cstring) auto
  moreover have "pack_word ?l p = Inr (True, put [?l] p)"
    using assms(1) room by (simp add: pack_word_fits)
  moreover have "packet_wf (put [?l] p)"
    using assms(1) room by (auto intro!: put_wf)
  moreover have "m_maxDataLen p - (m_dataLen p + 1) < length s + 1"
    using room by linarith
  ultimately show ?thesis
    using unat_string_length[OF assms(3)] by (simp add: pack_str_def getSpaceRemaining_wf Let_def)
qed

theorem pack_str_failure_leaves_length_witness:
  "pack_str ([65, 66, 67] @ 0 # []) (blank_packet 4)
     = Inr (False, put [word_of_nat (length [65, 66, 67::u8] + 1)] (blank_packet 4))"
  by (rule pack_str_failure_leaves_length)
    (simp_all add: blank_packet_wf size_range_def getDataLength_def getMaxDataLength_def)

text \<open>The unpacker's pointer lies in the data of a packet and the count is what is left.\<close>

definition unpacker_in :: "packet \<Rightarrow> unpacker \<Rightarrow> bool" where
  "unpacker_in p u \<longleftrightarrow> (\<exists>n \<le> getDataLength p. u_data u = drop n (getData p) \<and>
     u_dataRemaining u = getDataLength p - n)"

lemma unpacker_in_advance:
  assumes "unpacker_in p u" "k \<le> u_dataRemaining u"
  shows "unpacker_in p (u\<lparr>u_data := drop k (u_data u), u_dataRemaining := u_dataRemaining u - k\<rparr>)"
proof -
  obtain n where n: "n \<le> getDataLength p" "u_data u = drop n (getData p)"
    "u_dataRemaining u = getDataLength p - n"
    using assms(1) by (auto simp: unpacker_in_def)
  with assms(2) show ?thesis
    unfolding unpacker_in_def by (intro exI[of _ "n + k"]) (auto simp: add.commute)
qed

lemma unpacker_in_bound:
  "packet_wf p \<Longrightarrow> unpacker_in p u \<Longrightarrow> u_dataRemaining u \<le> length (u_data u)"
  by (auto simp: unpacker_in_def packet_wf_def getData_def getDataLength_def)

lemma unpack_word_in:
  assumes "packet_wf p" "unpacker_in p u"
  shows "\<exists>x u'. unpack_word u = Inr (x :: 'a::len word option, u') \<and> unpacker_in p u' \<and>
    (x = None \<longleftrightarrow> u_dataRemaining u < sizeof TYPE('a)) \<and> (x = None \<longrightarrow> u' = u)"
proof (cases "u_dataRemaining u < sizeof TYPE('a)")
  case True
  with assms(2) show ?thesis by (simp add: unpack_word_def Let_def)
next
  case False
  then show ?thesis
    using unpack_word_ok[of u, where 'a = 'a] unpacker_in_bound[OF assms]
      unpacker_in_advance[OF assms(2), of "sizeof TYPE('a)"] by auto
qed

text \<open>C34: Unpacking never leaves the packet: starting from a packet, every integer, block
  and string that is unpacked, of whatever size and whether or not there is enough left,
  is read without a fault and leaves the pointer inside the packet's data; an integer or
  block that does not fit is refused and changes nothing.\<close>

theorem unpacker_stays_in_packet:
  assumes "packet_wf p"
  shows "unpacker_in p (new_unpacker p) \<and>
    (\<forall>u. unpacker_in p u \<longrightarrow>
      (\<exists>x u'. unpack_word u = Inr (x :: 'a::len word option, u') \<and> unpacker_in p u' \<and>
         (x = None \<longrightarrow> u' = u)) \<and>
      (\<exists>x u'. unpack_bytes n u = Inr (x, u') \<and> unpacker_in p u' \<and> (x = None \<longrightarrow> u' = u)) \<and>
      (\<exists>x u'. unpack_str u = Inr (x, u') \<and> unpacker_in p u'))"
proof (intro conjI allI impI)
  show "unpacker_in p (new_unpacker p)"
    by (auto simp: unpacker_in_def new_unpacker_def)
next
  fix u
  assume u: "unpacker_in p u"
  show "\<exists>x u'. unpack_word u = Inr (x :: 'a word option, u') \<and> unpacker_in p u' \<and>
      (x = None \<longrightarrow> u' = u)"
    using unpack_word_in[OF assms u, where 'a = 'a] by blast
  show "\<exists>x u'. unpack_bytes n u = Inr (x, u') \<and> unpacker_in p u' \<and> (x = None \<longrightarrow> u' = u)"
    using u unpacker_in_advance[OF u] by (auto simp: unpack_bytes_def not_less)
  obtain x u1 where "unpack_word u = Inr (x :: u8 option, u1)" "unpacker_in p u1"
    using unpack_word_in[OF assms u, where 'a = 8] by blast
  then show "\<exists>x u'. unpack_str u = Inr (x, u') \<and> unpacker_in p u'"
    using unpacker_in_advance[of p u1] by (auto simp: unpack_str_def not_less split: option.splits)
qed

theorem unpacker_stays_in_packet_witness:
  "(\<exists>x u'. unpack_word (new_unpacker sample_packet) = Inr (x :: u32 option, u') \<and> unpacker_in sample_packet u') \<and>
   (\<exists>x u'. unpack_bytes 1 (new_unpacker sample_packet) = Inr (x, u') \<and> unpacker_in sample_packet u') \<and>
   (\<exists>x u'. unpack_str (new_unpacker sample_packet) = Inr (x, u') \<and> unpacker_in sample_packet u')"
  using unpacker_stays_in_packet[OF sample_packet_props(1), where 'a = 32 and n = 1] by blast

text \<open>\<open>Packet::append\<close> and \<open>Packer::pack\<close> for strings do the same, except that where
  \<open>pack\<close> returns false \<open>append\<close> aborts in an assertion. (The capacity must leave the 256
  bytes below the range of \<open>size_t\<close> that the sum inside the assertion needs.)\<close>

theorem append_str_is_pack_str:
  assumes "packet_wf p" "getMaxDataLength p + 256 \<le> size_range"
  shows "append_str str p =
    (case pack_str str p of
       Inl e \<Rightarrow> Inl e
     | Inr (ok, p') \<Rightarrow> if ok then Inr p' else Inl Assert_Failed)"
proof (cases "strnlen str 256")
  case (Inl e)
  then show ?thesis by (simp add: append_str_def pack_str_def)
next
  case (Inr n)
  define l :: u8 where "l = word_of_nat (n + 1)"
  have l: "unat l < 256"
    using unsigned_less[of l, where 'a = nat] by simp
  show ?thesis
  proof (cases "m_dataLen p < m_maxDataLen p")
    case False
    then have full: "pack_word l p = Inr (False, p)"
      using assms(1) by (simp add: pack_word_full)
    have "append_word l p = Inl Assert_Failed"
      using False packet_wf_bounds(1)[OF assms(1)] assms(2) appendData_full[of p 1 "[l]"]
      by (simp add: append_word_def getMaxDataLength_def)
    with full Inr show ?thesis
      by (simp add: append_str_def pack_str_def l_def Let_def)
  next
    case True
    let ?q = "put [l] p"
    have q: "packet_wf ?q" using True assms(1) by (auto intro!: put_wf)
    have both: "pack_word l p = Inr (True, ?q)" "append_word l p = Inr ?q"
      using True assms(1) by (simp_all add: pack_word_fits append_word_def appendData_put)
    show ?thesis
    proof (cases "getSpaceRemaining ?q < unat l")
      case space: True
      have "m_dataLen ?q \<le> m_maxDataLen ?q"
        using q by (rule packet_wf_bounds)
      then have "appendData (unat l) str ?q = Inl Assert_Failed"
        using space q l assms(2)
        by (intro appendData_full) (auto simp: getSpaceRemaining_wf getMaxDataLength_def)
      with space both Inr show ?thesis
        by (simp add: append_str_def pack_str_def l_def Let_def)
    next
      case False
      with both Inr show ?thesis
        by (simp add: append_str_def pack_str_def l_def Let_def bind_res_def split: sum.splits)
    qed
  qed
qed

theorem append_str_is_pack_str_witness:
  "append_str [65, 66, 0] (blank_packet 3) =
    (case pack_str [65, 66, 0] (blank_packet 3) of
       Inl e \<Rightarrow> Inl e
     | Inr (ok, p') \<Rightarrow> if ok then Inr p' else Inl Assert_Failed)"
  by (rule append_str_is_pack_str)
    (simp_all add: blank_packet_wf size_range_def getMaxDataLength_def)

end
