(* ===== verification/Bus.thy ===== *)
theory Bus
  imports Framing "HOL-Library.Sublist"
begin

text \<open>
  The class \<open>IBus\<close> of \<^verbatim>\<open>src/Bus.cpp\<close> and the interface \<open>IPacketHandler\<close>. The virtual
  methods of a concrete bus are a record of functions on the state of its device, the
  packets live in a store addressed by the pointers the constructor got, and a handler is
  the pair of its virtual methods. The locales \<open>byte_device\<close> and \<open>lossless_device\<close> say
  what a bus may rely on when it writes, \<open>packet_handler\<close> what it may rely on in a
  handler.
\<close>

section \<open>The virtual methods of a bus\<close>

text \<open>
  \<open>vt_readByte\<close> is \<open>None\<close> when the method returns false. The two tests of availability ask
  the device, so they return its state too. The defaults of the base class are
  \<open>default_flush\<close> and \<open>default_isConnected\<close>.
\<close>

record 's bus_vt =
  vt_isDataAvailable :: "'s \<Rightarrow> bool \<times> 's"
  vt_readByte :: "'s \<Rightarrow> u8 option \<times> 's"
  vt_isSpaceAvailable :: "'s \<Rightarrow> bool \<times> 's"
  vt_writeByte :: "u8 \<Rightarrow> 's \<Rightarrow> 's"
  vt_flush :: "'s \<Rightarrow> 's"
  vt_isConnected :: "'s \<Rightarrow> bool"

definition default_flush :: "'s \<Rightarrow> 's" where
  "default_flush s = s"

definition default_isConnected :: "'s \<Rightarrow> bool" where
  "default_isConnected s = True"

section \<open>The bus\<close>

record 's bus =
  m_cmdPacket :: ptr
  m_rspPacket :: ptr
  m_logPacket :: ptr
  m_evtPacket :: ptr
  m_decoder :: decoder
  m_encoder :: encoder
  packets :: packet_store
  device :: 's
  logged :: "log_event list"

definition new_bus :: "ptr \<Rightarrow> ptr \<Rightarrow> ptr \<Rightarrow> ptr \<Rightarrow> packet_store \<Rightarrow> 's \<Rightarrow> u8 \<Rightarrow> 's bus" where
  "new_bus cmd rsp lg evt h s garbage =
     \<lparr>m_cmdPacket = cmd, m_rspPacket = rsp, m_logPacket = lg, m_evtPacket = evt,
      m_decoder = new_decoder, m_encoder = new_encoder garbage,
      packets = h, device = s, logged = []\<rparr>"

definition getLogPacket :: "'s bus \<Rightarrow> ptr" where
  "getLogPacket b = m_logPacket b"

definition getEventPacket :: "'s bus \<Rightarrow> ptr" where
  "getEventPacket b = m_evtPacket b"

definition setDebug :: "bool \<Rightarrow> 's bus \<Rightarrow> 's bus" where
  "setDebug debug b =
     b\<lparr>m_decoder := decoder_setDebug debug (m_decoder b),
       m_encoder := encoder_setDebug debug (m_encoder b)\<rparr>"

text \<open>Writing through a packet pointer.\<close>

definition store_packet :: "ptr \<Rightarrow> packet \<Rightarrow> 's bus \<Rightarrow> 's bus" where
  "store_packet a p b = b\<lparr>packets := (packets b)(a \<mapsto> p)\<rparr>"

definition log_bus :: "log_event list \<Rightarrow> 's bus \<Rightarrow> 's bus" where
  "log_bus es b = b\<lparr>logged := logged b @ es\<rparr>"

section \<open>Handlers\<close>

text \<open>
  \<open>ph_handlePacket set cmd rsp\<close> is the method \<open>handlePacket\<close>, \<open>set\<close> telling whether
  \<open>setBus\<close> has been called; \<open>ph_as_str\<close> is \<open>None\<close> for a null pointer.
\<close>

record 's handler =
  ph_bus_set :: bool
  ph_handlePacket :: "bool \<Rightarrow> ptr \<Rightarrow> ptr \<Rightarrow> 's bus \<Rightarrow> (bool \<times> 's bus) res"
  ph_as_str :: "u8 \<Rightarrow> string option"

definition setBus :: "'s handler \<Rightarrow> 's handler" where
  "setBus h = h\<lparr>ph_bus_set := True\<rparr>"

definition add :: "'s handler \<Rightarrow> 's handler list \<Rightarrow> 's handler list" where
  "add h hs = hs @ [setBus h]"

fun bus_as_str :: "'s handler list \<Rightarrow> u8 \<Rightarrow> string" where
  "bus_as_str [] cmd = ''???''"
| "bus_as_str (h # hs) cmd =
     (case ph_as_str h cmd of
        None \<Rightarrow> bus_as_str hs cmd
      | Some str \<Rightarrow> if str = [] \<or> hd str \<noteq> CHR ''?'' then str else bus_as_str hs cmd)"

section \<open>Reading and writing\<close>

definition processByte ::
    "crc_fns \<Rightarrow> 's bus_vt \<Rightarrow> 's handler list \<Rightarrow> 's bus \<Rightarrow> (error \<times> 's bus) res" where
  "processByte crc vt hs b =
     (case vt_readByte vt (device b) of
        (None, s) \<Rightarrow> Inr (NOT_DONE, b\<lparr>device := s\<rparr>)
      | (Some byte, s) \<Rightarrow>
          bind_res (deref (packets b) (m_cmdPacket b)) (\<lambda>p.
          bind_res (decodeByte crc (Some (bus_as_str hs)) byte (m_decoder b) p) (\<lambda>(err, d, p, log).
            Inr (err, log_bus log (store_packet (m_cmdPacket b) p
              (b\<lparr>device := s, m_decoder := d\<rparr>))))))"

text \<open>The loop of \<open>writePacket\<close>; a byte that was never written must not be sent.\<close>

partial_function (option) write_loop ::
    "crc_fns \<Rightarrow> 's bus_vt \<Rightarrow> packet_store \<Rightarrow> encoder \<Rightarrow> u8 option \<Rightarrow> 's \<Rightarrow>
     (error \<times> encoder \<times> 's) res option" where
  "write_loop crc vt h e byte s =
     (case encodeByte crc h e byte of
        Inl f \<Rightarrow> Some (Inl f)
      | Inr (err, e, byte) \<Rightarrow>
          (case byte of
             None \<Rightarrow> Some (Inl Indeterminate)
           | Some x \<Rightarrow>
               if err = NOT_DONE then write_loop crc vt h e byte (vt_writeByte vt x s)
               else Some (Inr (err, e, vt_writeByte vt x s))))"

definition writePacket ::
    "crc_fns \<Rightarrow> 's bus_vt \<Rightarrow> 's handler list \<Rightarrow> ptr \<Rightarrow> 's bus \<Rightarrow> (error \<times> 's bus) res option" where
  "writePacket crc vt hs packet b =
     (case encodeStart crc (Some (bus_as_str hs)) packet (m_encoder b) (packets b) of
        Inl f \<Rightarrow> Some (Inl f)
      | Inr (e, h, log) \<Rightarrow>
          map_option (\<lambda>r. bind_res r (\<lambda>(err, e, s).
            Inr (err, log_bus log (b\<lparr>m_encoder := e, packets := h, device := vt_flush vt s\<rparr>))))
            (write_loop crc vt h e None (device b)))"

section \<open>Dispatching a packet\<close>

text \<open>What happens after a handler has accepted the packet.\<close>

definition send_response ::
    "crc_fns \<Rightarrow> 's bus_vt \<Rightarrow> 's handler list \<Rightarrow> 's bus \<Rightarrow> (bool \<times> 's bus) res option" where
  "send_response crc vt hs b =
     (case deref (packets b) (m_rspPacket b) of
        Inl f \<Rightarrow> Some (Inl f)
      | Inr rsp \<Rightarrow>
          if getCommand rsp \<noteq> 0 then
            map_option (\<lambda>r. bind_res r (\<lambda>(err, b). Inr (True, b)))
              (writePacket crc vt hs (m_rspPacket b) b)
          else if getDataLength rsp > 0 then
            Some (Inr (True, log_bus [Log_error ''Packet data set, but no command'' []] b))
          else Some (Inr (True, b)))"

text \<open>\<open>todo\<close> are the handlers the loop has not asked yet, \<open>hs\<close> all handlers.\<close>

fun dispatch ::
    "crc_fns \<Rightarrow> 's bus_vt \<Rightarrow> 's handler list \<Rightarrow> 's handler list \<Rightarrow> 's bus \<Rightarrow>
     (bool \<times> 's bus) res option" where
  "dispatch crc vt hs [] b =
     (case deref (packets b) (m_cmdPacket b) of
        Inl f \<Rightarrow> Some (Inl f)
      | Inr cmd \<Rightarrow> Some (Inr (False,
          log_bus [Log_error ''Unhandled command: 0x%02x'' [A_Byte (getCommand cmd)]] b)))"
| "dispatch crc vt hs (h # todo) b =
     (case ph_handlePacket h (ph_bus_set h) (m_cmdPacket b) (m_rspPacket b) b of
        Inl f \<Rightarrow> Some (Inl f)
      | Inr (handled, b) \<Rightarrow>
          if handled then send_response crc vt hs b else dispatch crc vt hs todo b)"

definition handlePacket ::
    "crc_fns \<Rightarrow> 's bus_vt \<Rightarrow> 's handler list \<Rightarrow> 's bus \<Rightarrow> (bool \<times> 's bus) res option" where
  "handlePacket crc vt hs b =
     (case deref (packets b) (m_rspPacket b) of
        Inl f \<Rightarrow> Some (Inl f)
      | Inr rsp \<Rightarrow>
          (case setData 0 [] (setCommand 0 rsp) of
             Inl f \<Rightarrow> Some (Inl f)
           | Inr rsp \<Rightarrow> dispatch crc vt hs hs (store_packet (m_rspPacket b) rsp b)))"

section \<open>Writing a packet\<close>

lemma write_loop_owed:
  assumes "encoder_at h e p"
  shows "\<exists>e'. write_loop crc vt h e byte s
      = Some (Inr (NONE, e', fold (vt_writeByte vt) (owed crc p e) s)) \<and>
    e_state e' = E_IDLE \<and> e_packet e' = e_packet e \<and> e_debug e' = e_debug e"
  using assms
proof (induction "length (owed crc p e)" arbitrary: e byte s rule: less_induct)
  case less
  obtain err e' x rest where step: "encodeByte crc h e byte = Inr (err, e', Some x)"
    "owed crc p e = x # rest" "e_packet e' = e_packet e" "e_debug e' = e_debug e"
    "if rest = [] then err = NONE \<and> e_state e' = E_IDLE
     else err = NOT_DONE \<and> encoder_at h e' p \<and> owed crc p e' = rest"
    using encodeByte_owed[OF less.prems, of crc byte] by blast
  show ?case
  proof (cases "rest = []")
    case True
    with step show ?thesis
      by (simp add: write_loop.simps)
  next
    case False
    with step have next_step: "err = NOT_DONE" "encoder_at h e' p" "owed crc p e' = rest"
      by auto
    with step have "length (owed crc p e') < length (owed crc p e)"
      by simp
    then obtain e'' where
      "write_loop crc vt h e' (Some x) (vt_writeByte vt x s) =
         Some (Inr (NONE, e'', fold (vt_writeByte vt) (owed crc p e') (vt_writeByte vt x s)))"
      "e_state e'' = E_IDLE" "e_packet e'' = e_packet e'" "e_debug e'' = e_debug e'"
      using less.hyps next_step(2) by blast
    with step next_step show ?thesis
      by (subst write_loop.simps) simp
  qed
qed

lemma writePacket_frame:
  assumes "deref (packets b) a = Inr p" "packet_wf p"
  obtains e' log where
    "writePacket crc vt hs a b = Some (Inr (NONE,
       b\<lparr>m_encoder := e', packets := (packets b)(a \<mapsto> with_crc crc p),
         device := vt_flush vt (fold (vt_writeByte vt)
           (frame_bytes crc (m_command p) (contents p)) (device b)),
         logged := logged b @ log\<rparr>))"
    "e_state e' = E_IDLE" "e_packet e' = a" "e_debug e' = e_debug (m_encoder b)"
    "\<not> e_debug (m_encoder b) \<Longrightarrow> log = []"
proof -
  obtain e1 log where start:
    "encodeStart crc (Some (bus_as_str hs)) a (m_encoder b) (packets b)
       = Inr (e1, (packets b)(a \<mapsto> with_crc crc p), log)"
    "e1 = m_encoder b\<lparr>e_packet := a, e_state := E_IDLE\<rparr>"
    "encoder_at ((packets b)(a \<mapsto> with_crc crc p)) e1 (with_crc crc p)"
    "owed crc (with_crc crc p) e1 = frame_bytes crc (m_command p) (contents p)"
    "\<not> e_debug (m_encoder b) \<Longrightarrow> log = []"
    using encodeStart_wf[OF assms, of crc "Some (bus_as_str hs)" "m_encoder b"] by metis
  obtain e2 where "write_loop crc vt ((packets b)(a \<mapsto> with_crc crc p)) e1 None (device b)
      = Some (Inr (NONE, e2, fold (vt_writeByte vt)
          (frame_bytes crc (m_command p) (contents p)) (device b)))"
    "e_state e2 = E_IDLE" "e_packet e2 = a" "e_debug e2 = e_debug (m_encoder b)"
    using write_loop_owed[OF start(3), of crc vt None "device b"] start(2,4) by auto
  with start(1,5) that show thesis
    by (simp add: writePacket_def log_bus_def)
qed


section \<open>What a device promises\<close>

text \<open>
  \<open>sent s\<close> is what the device has taken for transmission. A \<open>writeByte\<close> may lose its
  byte (a full buffer, a closed connection), but it sends nothing else, and reading and
  flushing send nothing.
\<close>

locale byte_device =
  fixes vt :: "'s bus_vt"
    and sent :: "'s \<Rightarrow> u8 list"
  assumes write_sent: "sent (vt_writeByte vt b s) = sent s @ [b] \<or> sent (vt_writeByte vt b s) = sent s"
    and flush_sent: "sent (vt_flush vt s) = sent s"
    and read_sent: "sent (snd (vt_readByte vt s)) = sent s"
begin

lemma writes_sent: "\<exists>xs. subseq xs bs \<and> sent (fold (vt_writeByte vt) bs s) = sent s @ xs"
proof (induction bs arbitrary: s)
  case Nil
  then show ?case by simp
next
  case (Cons b bs)
  obtain xs where xs: "subseq xs bs"
    "sent (fold (vt_writeByte vt) bs (vt_writeByte vt b s)) = sent (vt_writeByte vt b s) @ xs"
    using Cons.IH by blast
  from write_sent[of b s] show ?case
  proof
    assume "sent (vt_writeByte vt b s) = sent s @ [b]"
    with xs have "subseq (b # xs) (b # bs)"
      "sent (fold (vt_writeByte vt) (b # bs) s) = sent s @ b # xs"
      by simp_all
    then show ?thesis by blast
  next
    assume "sent (vt_writeByte vt b s) = sent s"
    with xs have "subseq xs (b # bs)" "sent (fold (vt_writeByte vt) (b # bs) s) = sent s @ xs"
      by (simp_all add: list_emb_Cons)
    then show ?thesis by blast
  qed
qed

lemma writePacket_sent:
  assumes "deref (packets b) a = Inr p" "packet_wf p"
    and "writePacket crc vt hs a b = Some (Inr (err, b'))"
  shows "err = NONE \<and> (\<exists>xs. subseq xs (frame_bytes crc (m_command p) (contents p)) \<and>
    sent (device b') = sent (device b) @ xs)"
proof -
  obtain e' log where "writePacket crc vt hs a b = Some (Inr (NONE,
       b\<lparr>m_encoder := e', packets := (packets b)(a \<mapsto> with_crc crc p),
         device := vt_flush vt (fold (vt_writeByte vt)
           (frame_bytes crc (m_command p) (contents p)) (device b)),
         logged := logged b @ log\<rparr>))"
    using writePacket_frame[OF assms(1,2), of crc vt hs] by metis
  with assms(3) writes_sent[of "frame_bytes crc (m_command p) (contents p)" "device b"]
  show ?thesis
    by (auto simp: flush_sent)
qed

end

text \<open>A device that loses nothing while it is up.\<close>

locale lossless_device = byte_device +
  fixes up :: "'s \<Rightarrow> bool"
  assumes up_write: "up s \<Longrightarrow> sent (vt_writeByte vt b s) = sent s @ [b] \<and> up (vt_writeByte vt b s)"
    and up_flush: "up s \<Longrightarrow> up (vt_flush vt s)"
begin

lemma writes_all_sent:
  "up s \<Longrightarrow> sent (fold (vt_writeByte vt) bs s) = sent s @ bs \<and> up (fold (vt_writeByte vt) bs s)"
  by (induction bs arbitrary: s) (auto simp: up_write)

lemma writePacket_all_sent:
  assumes "deref (packets b) a = Inr p" "packet_wf p" "up (device b)"
  obtains b' where "writePacket crc vt hs a b = Some (Inr (NONE, b'))"
    "sent (device b') = sent (device b) @ frame_bytes crc (m_command p) (contents p)"
    "up (device b')"
proof -
  obtain e' log where w: "writePacket crc vt hs a b = Some (Inr (NONE,
       b\<lparr>m_encoder := e', packets := (packets b)(a \<mapsto> with_crc crc p),
         device := vt_flush vt (fold (vt_writeByte vt)
           (frame_bytes crc (m_command p) (contents p)) (device b)),
         logged := logged b @ log\<rparr>))"
    using writePacket_frame[OF assms(1,2), of crc vt hs] by metis
  show thesis
    by (rule that[OF w]) (simp_all add: flush_sent up_flush writes_all_sent assms(3))
qed

end


section \<open>Receiving\<close>

text \<open>
  \<open>reads vt s bs s'\<close>: the next calls of \<open>readByte\<close> from the device state \<open>s\<close> return the
  bytes \<open>bs\<close> and lead to \<open>s'\<close>. How a device comes to have these bytes is its own affair.
\<close>

inductive reads :: "'s bus_vt \<Rightarrow> 's \<Rightarrow> u8 list \<Rightarrow> 's \<Rightarrow> bool" for vt where
  reads_Nil: "reads vt s [] s"
| reads_Cons: "vt_readByte vt s = (Some b, s1) \<Longrightarrow> reads vt s1 bs s2 \<Longrightarrow> reads vt s (b # bs) s2"

inductive_simps reads_simps [simp]: "reads vt s [] s'" "reads vt s (b # bs) s'"

text \<open>Calling \<open>processByte\<close> a number of times: the codes it returned.\<close>

fun process_bytes ::
    "crc_fns \<Rightarrow> 's bus_vt \<Rightarrow> 's handler list \<Rightarrow> nat \<Rightarrow> 's bus \<Rightarrow> (error list \<times> 's bus) res" where
  "process_bytes crc vt hs 0 b = Inr ([], b)"
| "process_bytes crc vt hs (Suc n) b =
     bind_res (processByte crc vt hs b) (\<lambda>(err, b).
     bind_res (process_bytes crc vt hs n b) (\<lambda>(errs, b). Inr (err # errs, b)))"

text \<open>The bus after bytes have gone through its decoder.\<close>

definition received :: "'s \<Rightarrow> decoder \<Rightarrow> packet \<Rightarrow> log_event list \<Rightarrow> 's bus \<Rightarrow> 's bus" where
  "received s d p log b = log_bus log (store_packet (m_cmdPacket b) p (b\<lparr>device := s, m_decoder := d\<rparr>))"

lemma received_received:
  "received s' d' p' log' (received s d p log b) = received s' d' p' (log @ log') b"
  by (simp add: received_def log_bus_def store_packet_def)

lemma received_fields [simp]:
  "m_cmdPacket (received s d p log b) = m_cmdPacket b"
  "m_rspPacket (received s d p log b) = m_rspPacket b"
  "device (received s d p log b) = s" "m_decoder (received s d p log b) = d"
  "m_encoder (received s d p log b) = m_encoder b"
  "packets (received s d p log b) = (packets b)(m_cmdPacket b \<mapsto> p)"
  "logged (received s d p log b) = logged b @ log"
  by (simp_all add: received_def log_bus_def store_packet_def)

lemma process_bytes_decode:
  assumes "reads vt (device b) (x # xs) s'" "deref (packets b) (m_cmdPacket b) = Inr p"
    and "decode_stream crc (Some (bus_as_str hs)) (x # xs) (m_decoder b) p = Inr (errs, d', p', log)"
  shows "process_bytes crc vt hs (length (x # xs)) b = Inr (errs, received s' d' p' log b)"
  using assms
proof (induction xs arbitrary: x b p errs log)
  case Nil
  then show ?case
    by (auto simp: processByte_def bind_res_eq_Inr received_def)
next
  case (Cons y ys)
  obtain s1 where s1: "vt_readByte vt (device b) = (Some x, s1)" "reads vt s1 (y # ys) s'"
    using Cons.prems(1) by auto
  obtain err d1 p1 log1 errs2 log2 where step:
    "decodeByte crc (Some (bus_as_str hs)) x (m_decoder b) p = Inr (err, d1, p1, log1)"
    "decode_stream crc (Some (bus_as_str hs)) (y # ys) d1 p1 = Inr (errs2, d', p', log2)"
    "errs = err # errs2" "log = log1 @ log2"
    using Cons.prems(3) by (auto simp: bind_res_eq_Inr simp del: decode_stream.simps(2)
        simp: decode_stream.simps(2)[of _ _ x "y # ys"])
  let ?b1 = "received s1 d1 p1 log1 b"
  have first: "processByte crc vt hs b = Inr (err, ?b1)"
    using s1(1) step(1) Cons.prems(2) by (simp add: processByte_def received_def)
  have "deref (packets ?b1) (m_cmdPacket ?b1) = Inr p1"
    using Cons.prems(2) by (simp add: deref_ok)
  then have "process_bytes crc vt hs (length (y # ys)) ?b1 = Inr (errs2, received s' d' p' log2 ?b1)"
    using s1(2) step(2) by (intro Cons.IH) (simp_all only: received_fields)
  with first step(3,4) show ?case
    by (simp add: received_received)
qed

text \<open>A whole frame arrives: every call returns \<open>NOT_DONE\<close>, the last one \<open>NONE\<close>.\<close>

lemma process_frame:
  assumes "reads vt (device b) (frame_bytes crc c ds) s'"
    and "deref (packets b) (m_cmdPacket b) = Inr p" "packet_wf p"
    and "decoder_ok (m_decoder b)" "d_state (m_decoder b) = D_IDLE" "length ds < m_maxDataLen p"
  obtains d' p' log where
    "process_bytes crc vt hs (length (frame_bytes crc c ds)) b
       = Inr (replicate (length (frame_bytes crc c ds) - 1) NOT_DONE @ [NONE], received s' d' p' log b)"
    "step_frame (m_decoder b) p d' p'" "d_state d' = D_IDLE"
    "m_command p' = c" "contents p' = ds" "m_crc p' = frame_crc crc c ds"
proof -
  obtain x xs where f: "frame_bytes crc c ds = x # xs"
    by (simp add: frame_bytes_def)
  obtain d' p' log where
    "decode_stream crc (Some (bus_as_str hs)) (frame_bytes crc c ds) (m_decoder b) p
       = Inr (replicate (length (frame_bytes crc c ds) - 1) NOT_DONE @ [NONE], d', p', log)"
    "step_frame (m_decoder b) p d' p'" "d_state d' = D_IDLE"
    "m_command p' = c" "contents p' = ds" "m_crc p' = frame_crc crc c ds"
    using decode_frame[OF assms(3-6), where crc = crc and c = c] by metis
  with process_bytes_decode[of vt b x xs s' p crc hs] assms(1,2) f that show thesis
    by auto
qed

end
