(* ===== verification/Test_Bus.thy ===== *)
theory Test_Bus
  imports Bus
begin

text \<open>
  The class \<open>TestBus\<close> of \<^verbatim>\<open>tests/BusTest.cpp\<close>: a bus whose device is a buffer of incoming
  bytes and a buffer of outgoing bytes. It loses nothing, and what it has sent is its
  outgoing buffer.
\<close>

section \<open>The device\<close>

record test_device =
  m_decodeIdx :: nat
  m_dataToDecode :: "u8 list"
  m_encodedData :: "u8 list"

definition test_isDataAvailable :: "test_device \<Rightarrow> bool" where
  "test_isDataAvailable s \<longleftrightarrow> m_decodeIdx s < length (m_dataToDecode s)"

definition test_readByte :: "test_device \<Rightarrow> u8 option \<times> test_device" where
  "test_readByte s =
     (if test_isDataAvailable s
      then (Some (m_dataToDecode s ! m_decodeIdx s), s\<lparr>m_decodeIdx := m_decodeIdx s + 1\<rparr>)
      else (None, s))"

definition test_isSpaceAvailable :: "test_device \<Rightarrow> bool" where
  "test_isSpaceAvailable s = True"

definition test_writeByte :: "u8 \<Rightarrow> test_device \<Rightarrow> test_device" where
  "test_writeByte byte s = s\<lparr>m_encodedData := m_encodedData s @ [byte]\<rparr>"

definition test_vt :: "test_device bus_vt" where
  "test_vt =
     \<lparr>vt_isDataAvailable = (\<lambda>s. (test_isDataAvailable s, s)), vt_readByte = test_readByte,
      vt_isSpaceAvailable = (\<lambda>s. (test_isSpaceAvailable s, s)), vt_writeByte = test_writeByte,
      vt_flush = default_flush, vt_isConnected = default_isConnected\<rparr>"

text \<open>\<open>BusTest\<close>: both packets have 15 bytes of storage; \<open>data\<close> is what will be read.\<close>

definition test_bus :: "u8 list \<Rightarrow> test_device bus" where
  "test_bus data =
     new_bus 10 20 nullptr nullptr [10 \<mapsto> blank_packet 15, 20 \<mapsto> blank_packet 15]
       \<lparr>m_decodeIdx = 0, m_dataToDecode = data, m_encodedData = []\<rparr> 0"

section \<open>It is lossless\<close>

lemma test_vt_simps [simp]:
  "vt_readByte test_vt = test_readByte" "vt_writeByte test_vt = test_writeByte"
  "vt_flush test_vt = default_flush" "vt_isConnected test_vt = default_isConnected"
  by (simp_all add: test_vt_def)

interpretation tb: lossless_device test_vt m_encodedData "\<lambda>s. True"
  by unfold_locales
    (auto simp: test_writeByte_def test_readByte_def default_flush_def)

lemma test_reads:
  "take (length bs) (drop (m_decodeIdx s) (m_dataToDecode s)) = bs \<Longrightarrow>
     reads test_vt s bs (s\<lparr>m_decodeIdx := m_decodeIdx s + length bs\<rparr>)"
proof (induction bs arbitrary: s)
  case Nil
  then show ?case by simp
next
  case (Cons b bs)
  let ?s1 = "s\<lparr>m_decodeIdx := m_decodeIdx s + 1\<rparr>"
  obtain rest where drop: "drop (m_decodeIdx s) (m_dataToDecode s) = b # rest" "take (length bs) rest = bs"
    using Cons.prems by (cases "drop (m_decodeIdx s) (m_dataToDecode s)") auto
  then have "m_decodeIdx s < length (m_dataToDecode s)"
    by (metis drop_eq_Nil2 linorder_not_le list.distinct(1))
  with drop(1) have "test_readByte s = (Some b, ?s1)" "drop (m_decodeIdx ?s1) (m_dataToDecode ?s1) = rest"
    by (simp_all add: test_readByte_def test_isDataAvailable_def Cons_nth_drop_Suc[symmetric])
  moreover from this(2) drop(2) have "reads test_vt ?s1 bs (?s1\<lparr>m_decodeIdx := m_decodeIdx ?s1 + length bs\<rparr>)"
    by (intro Cons.IH) simp
  ultimately show ?case
    by auto
qed

lemma test_bus_fields [simp]:
  "m_cmdPacket (test_bus data) = 10" "m_rspPacket (test_bus data) = 20"
  "m_decoder (test_bus data) = new_decoder"
  "deref (packets (test_bus data)) 10 = Inr (blank_packet 15)"
  "deref (packets (test_bus data)) 20 = Inr (blank_packet 15)"
  "m_dataToDecode (device (test_bus data)) = data" "m_decodeIdx (device (test_bus data)) = 0"
  "m_encodedData (device (test_bus data)) = []"
  by (simp_all add: test_bus_def new_bus_def deref_ok nullptr_def)

lemma test_bus_reads:
  "reads test_vt (device (test_bus data)) data ((device (test_bus data))\<lparr>m_decodeIdx := length data\<rparr>)"
  using test_reads[of data "device (test_bus data)"] by simp

end
