(* ===== verification/Core_Handler.thy ===== *)
theory Core_Handler
  imports Bus Packing
begin

text \<open>
  The class \<open>CorePacketHandler\<close> of \<^verbatim>\<open>src/CorePacketHandler.cpp\<close>: the answers to \<open>PING\<close>,
  \<open>DEBUG\<close>, \<open>STACK_INFO\<close> and \<open>HEAP_INFO\<close>, as a handler of the bus, and the contract every
  handler owes the bus, which this one and the handler of the tests are shown to meet.
\<close>

section \<open>Commands\<close>

definition PING :: u8 where "PING = 0x01"
definition DEBUG :: u8 where "DEBUG = 0x02"
definition LOG :: u8 where "LOG = 0x03"
definition STACK_INFO :: u8 where "STACK_INFO = 0x04"
definition HEAP_INFO :: u8 where "HEAP_INFO = 0x05"

lemmas core_commands = PING_def DEBUG_def LOG_def STACK_INFO_def HEAP_INFO_def

definition core_as_str :: "u8 \<Rightarrow> string" where
  "core_as_str cmd =
     (if cmd = PING then ''PING''
      else if cmd = DEBUG then ''DEBUG''
      else if cmd = LOG then ''LOG''
      else if cmd = STACK_INFO then ''STACK_INFO''
      else if cmd = HEAP_INFO then ''HEAP_INFO''
      else ''???'')"

text \<open>
  What the C library (\<open>mallinfo\<close>) and \<^verbatim>\<open>duino_util\<close> (stack and heap monitor) report is a
  parameter. \<open>on_arm\<close> tells whether \<^verbatim>\<open>__ARM_ARCH\<close> is defined.
\<close>

record monitor =
  on_arm :: bool
  mallinfo_arena :: int
  mallinfo_uordblks :: int
  mallinfo_fordblks :: int
  mallinfo_ordblks :: int
  heapGrowthPotential :: nat
  stackSize :: nat
  usedStackSpace :: nat
  unusedStackSpace :: nat

section \<open>The answers\<close>

text \<open>Several \<open>append\<close> calls on the response packet, one after the other.\<close>

definition append_words :: "u32 list \<Rightarrow> packet \<Rightarrow> packet res" where
  "append_words ws p = fold_res (\<lambda>p w. append_word w p) p ws"

definition handleDebug :: "bool \<Rightarrow> ptr \<Rightarrow> ptr \<Rightarrow> 's bus \<Rightarrow> 's bus res" where
  "handleDebug bus_set cmd rsp b =
     bind_res (deref (packets b) cmd) (\<lambda>c.
     bind_res (unpack_word (new_unpacker c)) (\<lambda>(flags :: u32 option, u).
     bind_res (case flags of None \<Rightarrow> Inl Indeterminate | Some flags \<Rightarrow> Inr flags) (\<lambda>flags.
     bind_res (if bus_set then Inr () else Inl Null_Deref) (\<lambda>_.
       let b = setDebug (and flags 0x01 \<noteq> 0) b in
       bind_res (deref (packets b) rsp) (\<lambda>r.
       bind_res (append_word flags (setCommand DEBUG r)) (\<lambda>r.
         Inr (store_packet rsp r b)))))))"

definition handleHeapInfo :: "monitor \<Rightarrow> ptr \<Rightarrow> 's bus \<Rightarrow> 's bus res" where
  "handleHeapInfo m rsp b =
     bind_res (deref (packets b) rsp) (\<lambda>r.
       let growthPotential = (if on_arm m then heapGrowthPotential m else 0) in
       bind_res (append_words
         [word_of_int (mallinfo_arena m), word_of_int (mallinfo_uordblks m),
          word_of_int (mallinfo_fordblks m), word_of_int (mallinfo_ordblks m),
          word_of_nat growthPotential] (setCommand HEAP_INFO r)) (\<lambda>r.
         Inr (store_packet rsp r b)))"

definition handlePing :: "ptr \<Rightarrow> ptr \<Rightarrow> 's bus \<Rightarrow> 's bus res" where
  "handlePing cmd rsp b =
     bind_res (deref (packets b) rsp) (\<lambda>r.
       let b = store_packet rsp (setCommand PING r) b in
       bind_res (deref (packets b) cmd) (\<lambda>c.
       bind_res (deref (packets b) rsp) (\<lambda>r.
       bind_res (setData (getDataLength c) (getData c) r) (\<lambda>r.
         Inr (store_packet rsp r b)))))"

definition handleStackInfo :: "monitor \<Rightarrow> ptr \<Rightarrow> 's bus \<Rightarrow> 's bus res" where
  "handleStackInfo m rsp b =
     bind_res (deref (packets b) rsp) (\<lambda>r.
       bind_res (append_words
         (if on_arm m then
            [word_of_nat (stackSize m), word_of_nat (usedStackSpace m), word_of_nat (unusedStackSpace m)]
          else [0, 0, 0]) (setCommand STACK_INFO r)) (\<lambda>r.
         Inr (store_packet rsp r b)))"

definition core_handlePacket ::
    "monitor \<Rightarrow> bool \<Rightarrow> ptr \<Rightarrow> ptr \<Rightarrow> 's bus \<Rightarrow> (bool \<times> 's bus) res" where
  "core_handlePacket m bus_set cmd rsp b =
     bind_res (deref (packets b) cmd) (\<lambda>c.
       if getCommand c = PING then
         bind_res (handlePing cmd rsp b) (\<lambda>b. Inr (True, b))
       else if getCommand c = DEBUG then
         bind_res (handleDebug bus_set cmd rsp b) (\<lambda>b. Inr (True, b))
       else if getCommand c = STACK_INFO then
         bind_res (handleStackInfo m rsp b) (\<lambda>b. Inr (True, b))
       else if getCommand c = HEAP_INFO then
         bind_res (handleHeapInfo m rsp b) (\<lambda>b. Inr (True, b))
       else Inr (False, b))"

definition core_handler :: "monitor \<Rightarrow> 's handler" where
  "core_handler m =
     \<lparr>ph_bus_set = False, ph_handlePacket = core_handlePacket m,
      ph_as_str = (\<lambda>cmd. Some (core_as_str cmd))\<rparr>"

text \<open>\<open>TestHandler\<close> of \<^verbatim>\<open>tests/BusTest.cpp\<close>.\<close>

definition test_handlePacket :: "bool \<Rightarrow> ptr \<Rightarrow> ptr \<Rightarrow> 's bus \<Rightarrow> (bool \<times> 's bus) res" where
  "test_handlePacket bus_set cmd rsp b =
     bind_res (deref (packets b) cmd) (\<lambda>c.
       if getCommand c = 0x01 then
         bind_res (deref (packets b) rsp) (\<lambda>r.
           let b = store_packet rsp (setCommand (getCommand c) r) b in
           bind_res (deref (packets b) cmd) (\<lambda>c.
           bind_res (deref (packets b) rsp) (\<lambda>r.
           bind_res (setData (getDataLength c) (getData c) r) (\<lambda>r.
             Inr (True, store_packet rsp r b)))))
       else if getCommand c = 0x02 then Inr (True, b)
       else Inr (False, b))"

definition test_handler :: "'s handler" where
  "test_handler =
     \<lparr>ph_bus_set = False, ph_handlePacket = test_handlePacket, ph_as_str = (\<lambda>cmd. Some ''???'')\<rparr>"

section \<open>The contract of a handler\<close>

definition bus_ok :: "'s bus \<Rightarrow> bool" where
  "bus_ok b \<longleftrightarrow> m_cmdPacket b \<noteq> m_rspPacket b \<and> decoder_ok (m_decoder b) \<and>
     (\<exists>c. deref (packets b) (m_cmdPacket b) = Inr c \<and> packet_wf c) \<and>
     (\<exists>r. deref (packets b) (m_rspPacket b) = Inr r \<and> packet_wf r)"

text \<open>
  What a handler leaves alone: everything but the contents of the response packet and the
  debug flags.
\<close>

definition handler_frame :: "'s bus \<Rightarrow> 's bus \<Rightarrow> bool" where
  "handler_frame b b' \<longleftrightarrow>
     m_cmdPacket b' = m_cmdPacket b \<and> m_rspPacket b' = m_rspPacket b \<and>
     m_logPacket b' = m_logPacket b \<and> m_evtPacket b' = m_evtPacket b \<and>
     device b' = device b \<and> logged b' = logged b \<and>
     (\<forall>a. a \<noteq> m_rspPacket b \<longrightarrow> packets b' a = packets b a) \<and>
     (\<forall>a. map_option m_maxDataLen (packets b' a) = map_option m_maxDataLen (packets b a)) \<and>
     (\<exists>dbg. m_decoder b' = (m_decoder b)\<lparr>d_debug := dbg\<rparr>) \<and>
     (\<exists>dbg. m_encoder b' = (m_encoder b)\<lparr>e_debug := dbg\<rparr>)"

text \<open>
  A handler decides by the command alone whether it takes a packet; a packet it does not
  take it leaves without any effect; one it takes changes nothing but the response and
  the debug flags, and the response stays well formed.
\<close>

locale packet_handler =
  fixes h :: "'s handler"
    and accepts :: "u8 \<Rightarrow> bool"
  assumes declines: "deref (packets b) cmd = Inr c \<Longrightarrow> \<not> accepts (getCommand c) \<Longrightarrow>
      ph_handlePacket h known cmd rsp b = Inr (False, b)"
    and takes: "bus_ok b \<Longrightarrow> deref (packets b) (m_cmdPacket b) = Inr c \<Longrightarrow> accepts (getCommand c) \<Longrightarrow>
      ph_handlePacket h known (m_cmdPacket b) (m_rspPacket b) b = Inr (ok, b') \<Longrightarrow>
      ok \<and> bus_ok b' \<and> handler_frame b b'"
begin

lemma dispatch_declined:
  assumes "deref (packets b) (m_cmdPacket b) = Inr c" "\<not> accepts (getCommand c)"
  shows "dispatch crc vt hs (setBus h # todo) b = dispatch crc vt hs todo b"
  using declines[OF assms] by (simp add: setBus_def)

lemma dispatch_taken:
  assumes "bus_ok b" "deref (packets b) (m_cmdPacket b) = Inr c" "accepts (getCommand c)"
    and "ph_handlePacket h True (m_cmdPacket b) (m_rspPacket b) b = Inr (ok, b')"
  shows "dispatch crc vt hs (setBus h # todo) b = send_response crc vt hs b' \<and>
    deref (packets b') (m_cmdPacket b') = Inr c"
proof -
  have "ok" "bus_ok b'" "handler_frame b b'"
    using takes[OF assms] by auto
  with assms show ?thesis
    by (auto simp: setBus_def handler_frame_def bus_ok_def deref_ok)
qed

lemma handles_only_its_commands:
  assumes "bus_ok b" "deref (packets b) (m_cmdPacket b) = Inr c"
    and "ph_handlePacket h known (m_cmdPacket b) (m_rspPacket b) b = Inr (ok, b')"
  shows "ok \<longleftrightarrow> accepts (getCommand c)"
  using declines[OF assms(2)] takes[OF assms(1,2)] assms(3) by fastforce

end


section \<open>The handlers meet the contract\<close>

definition core_accepts :: "u8 \<Rightarrow> bool" where
  "core_accepts c \<longleftrightarrow> c = PING \<or> c = DEBUG \<or> c = STACK_INFO \<or> c = HEAP_INFO"

definition test_accepts :: "u8 \<Rightarrow> bool" where
  "test_accepts c \<longleftrightarrow> c = 0x01 \<or> c = 0x02"

lemma append_words_capacity:
  "append_words ws p = Inr p' \<Longrightarrow> m_maxDataLen p' = m_maxDataLen p"
  unfolding append_words_def
  by (induction ws arbitrary: p) (auto simp: bind_res_eq_Inr dest: capacity_kept)

lemma append_words_wf:
  "packet_wf p \<Longrightarrow> append_words ws p = Inr p' \<Longrightarrow> packet_wf p'"
  unfolding append_words_def
  by (induction ws arbitrary: p) (auto simp: bind_res_eq_Inr dest: append_word_wf)

lemma setCommand_wf [simp]: "packet_wf (setCommand c p) = packet_wf p"
  "m_maxDataLen (setCommand c p) = m_maxDataLen p"
  by (simp_all add: setCommand_def)

lemma debug_unchanged:
  "\<exists>dbg. d = d\<lparr>d_debug := dbg\<rparr>" "\<exists>dbg. e = e\<lparr>e_debug := dbg\<rparr>"
  by (rule exI[of _ "d_debug d"], simp) (rule exI[of _ "e_debug e"], simp)

text \<open>Storing a well-formed response changes nothing a handler must leave alone.\<close>

lemma store_response_frame:
  assumes "bus_ok b" "packet_wf r"
    and "deref (packets b) (m_rspPacket b) = Inr r0" "m_maxDataLen r = m_maxDataLen r0"
  shows "bus_ok (store_packet (m_rspPacket b) r b) \<and>
    handler_frame b (store_packet (m_rspPacket b) r b)"
  using assms
  unfolding bus_ok_def handler_frame_def store_packet_def
  by (auto simp: deref_ok debug_unchanged)

lemma setDebug_frame:
  assumes "bus_ok b"
  shows "bus_ok (setDebug dbg b) \<and> handler_frame b (setDebug dbg b)"
  using assms
  by (auto simp: bus_ok_def handler_frame_def setDebug_def decoder_setDebug_def
      encoder_setDebug_def decoder_ok_def)

lemma handler_frame_trans:
  "handler_frame b b' \<Longrightarrow> handler_frame b' b'' \<Longrightarrow> handler_frame b b''"
  unfolding handler_frame_def by auto

lemma bus_okD:
  assumes "bus_ok b"
  obtains c r where "deref (packets b) (m_cmdPacket b) = Inr c" "packet_wf c"
    "deref (packets b) (m_rspPacket b) = Inr r" "packet_wf r" "m_cmdPacket b \<noteq> m_rspPacket b"
  using assms by (auto simp: bus_ok_def)

lemma handlePing_takes:
  assumes "bus_ok b" "handlePing (m_cmdPacket b) (m_rspPacket b) b = Inr b'"
  shows "bus_ok b' \<and> handler_frame b b'"
proof -
  obtain c r where cr: "deref (packets b) (m_cmdPacket b) = Inr c"
    "deref (packets b) (m_rspPacket b) = Inr r" "packet_wf r" "m_cmdPacket b \<noteq> m_rspPacket b"
    using assms(1) by (rule bus_okD)
  then obtain r' where r': "setData (getDataLength c) (getData c) (setCommand PING r) = Inr r'"
    "b' = store_packet (m_rspPacket b) r' b"
    using assms(2) by (auto simp: handlePing_def bind_res_eq_Inr store_packet_def deref_ok)
  have "packet_wf r'" "m_maxDataLen r' = m_maxDataLen r"
    using setData_wf[OF _ r'(1)] capacity_kept(2)[OF r'(1)] cr(3) by simp_all
  with store_response_frame[OF assms(1) _ cr(2)] r'(2) show ?thesis by simp
qed

lemma handleDebug_takes:
  assumes "bus_ok b" "handleDebug known (m_cmdPacket b) (m_rspPacket b) b = Inr b'"
  shows "bus_ok b' \<and> handler_frame b b'"
proof -
  obtain dbg r r' and flags :: u32 where step:
    "deref (packets (setDebug dbg b)) (m_rspPacket b) = Inr r"
    "append_word flags (setCommand DEBUG r) = Inr r'"
    "b' = store_packet (m_rspPacket b) r' (setDebug dbg b)"
    using assms(2) by (auto simp: handleDebug_def bind_res_eq_Inr Let_def)
  note dbg = setDebug_frame[OF assms(1), of dbg]
  have rsp: "m_rspPacket (setDebug dbg b) = m_rspPacket b"
    by (simp add: setDebug_def)
  have "packet_wf r"
    using step(1) dbg rsp by (auto simp: bus_ok_def)
  then have "packet_wf r'" "m_maxDataLen r' = m_maxDataLen r"
    using append_word_wf[OF _ step(2)] capacity_kept(3)[OF step(2)] by simp_all
  from store_response_frame[of "setDebug dbg b", OF _ this(1) _ this(2)] dbg rsp step(1,3) show ?thesis
    by (auto intro: handler_frame_trans)
qed

lemma append_response_takes:
  assumes "bus_ok b" "deref (packets b) (m_rspPacket b) = Inr r"
    and "append_words ws (setCommand c r) = Inr r'"
  shows "bus_ok (store_packet (m_rspPacket b) r' b) \<and>
    handler_frame b (store_packet (m_rspPacket b) r' b)"
proof -
  have "packet_wf r"
    using assms(1,2) by (auto simp: bus_ok_def)
  then have "packet_wf r'" "m_maxDataLen r' = m_maxDataLen r"
    using append_words_wf[OF _ assms(3)] append_words_capacity[OF assms(3)] by simp_all
  then show ?thesis
    by (rule store_response_frame[OF assms(1) _ assms(2)])
qed

interpretation core: packet_handler "core_handler m" core_accepts for m
proof unfold_locales
  show "ph_handlePacket (core_handler m) known cmd rsp b = Inr (False, b)"
    if "deref (packets b) cmd = Inr c" "\<not> core_accepts (getCommand c)" for b :: "'a bus" and cmd c known rsp
    using that by (simp add: core_handler_def core_handlePacket_def core_accepts_def)
next
  fix b b' :: "'a bus" and c known ok
  assume ok: "bus_ok b" and "deref (packets b) (m_cmdPacket b) = Inr c"
    and "core_accepts (getCommand c)"
    and "ph_handlePacket (core_handler m) known (m_cmdPacket b) (m_rspPacket b) b = Inr (ok, b')"
  then show "ok \<and> bus_ok b' \<and> handler_frame b b'"
    using handlePing_takes[OF ok] handleDebug_takes[OF ok] append_response_takes[OF ok]
    by (auto simp: core_handler_def core_handlePacket_def handleStackInfo_def handleHeapInfo_def
        bind_res_eq_Inr Let_def core_accepts_def core_commands split: if_splits)
qed

lemma test_handlePacket_ping:
  assumes "bus_ok b" "deref (packets b) (m_cmdPacket b) = Inr c"
    and "getCommand c = 0x01" "test_handlePacket known (m_cmdPacket b) (m_rspPacket b) b = Inr (ok, b')"
  shows "ok \<and> bus_ok b' \<and> handler_frame b b'"
proof -
  obtain c' r where cr: "deref (packets b) (m_rspPacket b) = Inr r" "packet_wf r"
    "m_cmdPacket b \<noteq> m_rspPacket b"
    using assms(1) by (rule bus_okD)
  then obtain r' where r': "setData (getDataLength c) (getData c) (setCommand 1 r) = Inr r'"
    "b' = store_packet (m_rspPacket b) r' b" "ok"
    using assms(2-4) by (auto simp: test_handlePacket_def bind_res_eq_Inr store_packet_def deref_ok)
  have "packet_wf r'" "m_maxDataLen r' = m_maxDataLen r"
    using setData_wf[OF _ r'(1)] capacity_kept(2)[OF r'(1)] cr(2) by simp_all
  with store_response_frame[OF assms(1) _ cr(1)] r'(2,3) show ?thesis by simp
qed

interpretation tests: packet_handler test_handler test_accepts
proof unfold_locales
  show "ph_handlePacket test_handler known cmd rsp b = Inr (False, b)"
    if "deref (packets b) cmd = Inr c" "\<not> test_accepts (getCommand c)" for b :: "'a bus" and cmd c known rsp
    using that by (simp add: test_handler_def test_handlePacket_def test_accepts_def)
next
  fix b b' :: "'a bus" and c known ok
  assume ok: "bus_ok b" "deref (packets b) (m_cmdPacket b) = Inr c"
    and acc: "test_accepts (getCommand c)"
    and run: "ph_handlePacket test_handler known (m_cmdPacket b) (m_rspPacket b) b = Inr (ok, b')"
  have refl: "handler_frame b b"
    by (simp add: handler_frame_def debug_unchanged)
  from acc run ok refl test_handlePacket_ping[OF ok, of known ok b'] show "ok \<and> bus_ok b' \<and> handler_frame b b'"
    by (auto simp: test_handler_def test_handlePacket_def test_accepts_def)
qed


section \<open>What the handler answers\<close>

lemma append_words_put:
  "packet_wf p \<Longrightarrow> m_dataLen p + 4 * length ws \<le> m_maxDataLen p \<Longrightarrow>
     append_words ws p = Inr (put (concat (map (le_bytes 4) ws)) p)"
proof (induction ws arbitrary: p)
  case Nil
  then show ?case by (simp add: append_words_def)
next
  case (Cons w ws)
  let ?q = "put (le_bytes 4 w) p"
  have "append_word w p = Inr ?q"
    using Cons.prems by (simp add: append_word_def appendData_put del: le_bytes.simps)
  moreover have "append_words ws ?q = Inr (put (concat (map (le_bytes 4) ws)) ?q)"
    using Cons.prems by (intro Cons.IH put_wf) auto
  ultimately show ?case
    using Cons.prems(1)
    by (simp add: append_words_def put_put packet_wf_bounds del: le_bytes.simps)
qed

text \<open>The response packet as \<open>IBus::handlePacket\<close> hands it to the handlers: emptied.\<close>

definition emptied :: "packet \<Rightarrow> packet" where
  "emptied r = r\<lparr>m_command := 0, m_dataLen := 0\<rparr>"

lemma emptied_props [simp]:
  "packet_wf r \<Longrightarrow> packet_wf (emptied r)" "m_dataLen (emptied r) = 0" "m_command (emptied r) = 0"
  "m_maxDataLen (emptied r) = m_maxDataLen r" "contents (emptied r) = []"
  by (simp_all add: emptied_def contents_def packet_wf_def)

lemma handlePacket_starts_dispatch:
  assumes "deref (packets b) (m_rspPacket b) = Inr r"
  shows "handlePacket crc vt hs b
    = dispatch crc vt hs hs (store_packet (m_rspPacket b) (emptied r) b)"
  using assms by (simp add: handlePacket_def setData_empty setCommand_def emptied_def)

lemma handlePing_ok:
  assumes "deref (packets b) (m_cmdPacket b) = Inr c" "packet_wf c"
    and "deref (packets b) (m_rspPacket b) = Inr r" "packet_wf r" "m_cmdPacket b \<noteq> m_rspPacket b"
    and "m_dataLen c \<le> m_maxDataLen r"
  shows "handlePing (m_cmdPacket b) (m_rspPacket b) b
    = Inr (store_packet (m_rspPacket b) (put (contents c) ((emptied r)\<lparr>m_command := PING\<rparr>)) b)"
proof -
  have "r\<lparr>m_command := PING, m_dataLen := 0\<rparr> = (emptied r)\<lparr>m_command := PING\<rparr>"
    by (simp add: emptied_def)
  then have "setData (m_dataLen c) (m_data c) (setCommand PING r)
      = Inr (put (contents c) ((emptied r)\<lparr>m_command := PING\<rparr>))"
    using assms packet_wf_bounds(2)[OF assms(2)]
    by (simp add: setData_put setCommand_def contents_def)
  then show ?thesis
    using assms(1,3,5)
    by (simp add: handlePing_def store_packet_def deref_store[OF assms(3)]
        deref_store_other[OF assms(1)] getDataLength_def getData_def)
qed

lemma handleDebug_ok:
  assumes "deref (packets b) (m_cmdPacket b) = Inr c" "packet_wf c"
    and "deref (packets b) (m_rspPacket b) = Inr r" "packet_wf r"
    and "4 \<le> m_dataLen c" "m_dataLen r + 4 \<le> m_maxDataLen r"
  shows "handleDebug True (m_cmdPacket b) (m_rspPacket b) b
    = Inr (store_packet (m_rspPacket b) (put (take 4 (contents c)) (r\<lparr>m_command := DEBUG\<rparr>))
        (setDebug (and (of_le_bytes (take 4 (contents c))) 0x01 \<noteq> (0 :: u32)) b))"
proof -
  let ?flags = "of_le_bytes (take 4 (contents c)) :: u32"
  have "take 4 (m_data c) = take 4 (contents c)"
    using assms(5) by (simp add: contents_def)
  then have "\<exists>u. unpack_word (new_unpacker c) = Inr (Some ?flags, u)"
    using unpack_word_ok[of "new_unpacker c", where 'a = 32] assms(5) packet_wf_bounds(2)[OF assms(2)]
    by (simp add: new_unpacker_def getData_def getDataLength_def)
  then obtain u where u: "unpack_word (new_unpacker c) = Inr (Some ?flags, u)" by blast
  have len: "length (take 4 (contents c)) = 4"
    using assms(2,5) by simp
  have "append_word ?flags (setCommand DEBUG r)
      = Inr (put (le_bytes 4 ?flags) (r\<lparr>m_command := DEBUG\<rparr>))"
    using assms(4,6) by (simp add: append_word_def appendData_put setCommand_def del: le_bytes.simps)
  moreover have "le_bytes 4 ?flags = take 4 (contents c)"
    by (rule le_bytes_of_le_bytes) (use len in simp_all)
  moreover have "deref (packets (setDebug dbg b)) (m_rspPacket b) = Inr r" for dbg
    using assms(3) by (simp add: setDebug_def)
  ultimately show ?thesis
    using assms(1) u by (simp add: handleDebug_def Let_def)
qed

end
