(* ===== verification/Conversations.thy ===== *)
theory Conversations
  imports Core_Handler Test_Bus
begin

text \<open>
  What a peer of the bus sees: whole exchanges through \<open>IBus::processByte\<close> and
  \<open>IBus::handlePacket\<close> with the core handler registered, from the bytes of a command frame
  to the bytes of the response frame, and the commands that end in an abort, an
  undefined value or a log entry.
\<close>

section \<open>Sending the response\<close>

lemma send_response_frame:
  assumes "deref (packets b) (m_rspPacket b) = Inr r" "packet_wf r" "m_command r \<noteq> 0"
  obtains b' where "send_response crc vt hs b = Some (Inr (True, b'))"
    "device b' = vt_flush vt (fold (vt_writeByte vt) (frame_bytes crc (m_command r) (contents r)) (device b))"
    "deref (packets b') (m_rspPacket b) = Inr (with_crc crc r)"
    "\<And>a. a \<noteq> m_rspPacket b \<Longrightarrow> packets b' a = packets b a"
    "m_decoder b' = m_decoder b" "e_debug (m_encoder b') = e_debug (m_encoder b)"
proof -
  obtain e' log where w: "writePacket crc vt hs (m_rspPacket b) b = Some (Inr (NONE,
       b\<lparr>m_encoder := e', packets := (packets b)(m_rspPacket b \<mapsto> with_crc crc r),
         device := vt_flush vt (fold (vt_writeByte vt)
           (frame_bytes crc (m_command r) (contents r)) (device b)),
         logged := logged b @ log\<rparr>))" "e_debug e' = e_debug (m_encoder b)"
    using writePacket_frame[OF assms(1,2), of crc vt hs] by metis
  show thesis
  proof (rule that)
    show "send_response crc vt hs b = Some (Inr (True,
       b\<lparr>m_encoder := e', packets := (packets b)(m_rspPacket b \<mapsto> with_crc crc r),
         device := vt_flush vt (fold (vt_writeByte vt)
           (frame_bytes crc (m_command r) (contents r)) (device b)),
         logged := logged b @ log\<rparr>))"
      using assms w by (simp add: send_response_def getCommand_def)
  qed (use w(2) deref_store[OF assms(1)] in simp_all)
qed

text \<open>The core handler is asked first and answers.\<close>

lemma core_answers:
  assumes "deref (packets b) (m_rspPacket b) = Inr r"
    and "core_handlePacket m True (m_cmdPacket b) (m_rspPacket b)
           (store_packet (m_rspPacket b) (emptied r) b) = Inr (True, b1)"
  shows "handlePacket crc vt (setBus (core_handler m) # hs) b
    = send_response crc vt (setBus (core_handler m) # hs) b1"
  using assms
  by (simp add: handlePacket_starts_dispatch setBus_def core_handler_def store_packet_def)

lemma store_packet_fields [simp]:
  "m_cmdPacket (store_packet a p b) = m_cmdPacket b" "m_rspPacket (store_packet a p b) = m_rspPacket b"
  "device (store_packet a p b) = device b" "m_decoder (store_packet a p b) = m_decoder b"
  "m_encoder (store_packet a p b) = m_encoder b" "logged (store_packet a p b) = logged b"
  "packets (store_packet a p b) = (packets b)(a \<mapsto> p)"
  "store_packet a q (store_packet a p b) = store_packet a q b"
  by (simp_all add: store_packet_def)

lemma setDebug_fields [simp]:
  "m_cmdPacket (setDebug dbg b) = m_cmdPacket b" "m_rspPacket (setDebug dbg b) = m_rspPacket b"
  "device (setDebug dbg b) = device b" "packets (setDebug dbg b) = packets b"
  "logged (setDebug dbg b) = logged b"
  by (simp_all add: setDebug_def)

lemma setCommand_fields [simp]:
  "m_dataLen (setCommand c p) = m_dataLen p" "m_maxDataLen (setCommand c p) = m_maxDataLen p"
  "m_command (setCommand c p) = c"
  by (simp_all add: setCommand_def)

text \<open>What the handler finds when it is asked: the command as it was, an empty response.\<close>

lemma asked_packets:
  assumes "deref (packets b) (m_cmdPacket b) = Inr c" "deref (packets b) (m_rspPacket b) = Inr r"
    and "m_cmdPacket b \<noteq> m_rspPacket b"
  shows "deref (packets (store_packet (m_rspPacket b) (emptied r) b)) (m_cmdPacket b) = Inr c"
    "deref (packets (store_packet (m_rspPacket b) (emptied r) b)) (m_rspPacket b) = Inr (emptied r)"
  using assms by (simp_all add: deref_store deref_store_other)

lemma put_emptied:
  assumes "packet_wf r" "length ds \<le> m_maxDataLen r"
  shows "packet_wf (put ds ((emptied r)\<lparr>m_command := c\<rparr>))"
    "contents (put ds ((emptied r)\<lparr>m_command := c\<rparr>)) = ds"
    "m_command (put ds ((emptied r)\<lparr>m_command := c\<rparr>)) = c"
  using assms by (auto intro!: put_wf)

lemma emptied_emptied [simp]: "emptied (emptied r) = emptied r"
  by (simp add: emptied_def)

section \<open>Answers of the core handler\<close>

lemma ping_answer:
  assumes ok: "deref (packets b) (m_cmdPacket b) = Inr c" "packet_wf c" "getCommand c = PING"
    "deref (packets b) (m_rspPacket b) = Inr r" "packet_wf r" "m_cmdPacket b \<noteq> m_rspPacket b"
    and fits: "m_dataLen c \<le> m_maxDataLen r"
  obtains b' where "handlePacket crc vt (setBus (core_handler m) # hs) b = Some (Inr (True, b'))"
    "device b' = vt_flush vt (fold (vt_writeByte vt) (frame_bytes crc PING (contents c)) (device b))"
    "m_decoder b' = m_decoder b"
proof -
  let ?b0 = "store_packet (m_rspPacket b) (emptied r) b"
  let ?r1 = "put (contents c) ((emptied r)\<lparr>m_command := PING\<rparr>)"
  note asked = asked_packets[OF ok(1,4,6)]
  have "handlePing (m_cmdPacket ?b0) (m_rspPacket ?b0) ?b0 = Inr (store_packet (m_rspPacket b) ?r1 ?b0)"
    using handlePing_ok[of ?b0 c "emptied r"] asked ok fits by simp
  then have "core_handlePacket m True (m_cmdPacket b) (m_rspPacket b) ?b0
      = Inr (True, store_packet (m_rspPacket b) ?r1 b)"
    using asked(1) ok(3) by (simp add: core_handlePacket_def)
  note answers = core_answers[OF ok(4) this, of crc vt hs]
  have r1: "packet_wf ?r1" "m_command ?r1 \<noteq> 0" "contents ?r1 = contents c" "m_command ?r1 = PING"
    using put_emptied[OF ok(5), of "contents c" PING] fits ok(2) by (simp_all add: PING_def)
  have "deref (packets (store_packet (m_rspPacket b) ?r1 b)) (m_rspPacket (store_packet (m_rspPacket b) ?r1 b))
      = Inr ?r1"
    using ok(4) by (simp add: deref_store)
  from send_response_frame[OF this r1(1,2), of crc vt "setBus (core_handler m) # hs"] r1(3,4) answers that
  show thesis by (metis store_packet_fields(3,4))
qed


lemma debug_answer:
  assumes ok: "deref (packets b) (m_cmdPacket b) = Inr c" "packet_wf c" "getCommand c = DEBUG"
    "deref (packets b) (m_rspPacket b) = Inr r" "packet_wf r" "m_cmdPacket b \<noteq> m_rspPacket b"
    and len: "4 \<le> m_dataLen c" "4 \<le> m_maxDataLen r"
  obtains b' where "handlePacket crc vt (setBus (core_handler m) # hs) b = Some (Inr (True, b'))"
    "device b' = vt_flush vt (fold (vt_writeByte vt)
       (frame_bytes crc DEBUG (take 4 (contents c))) (device b))"
    "d_debug (m_decoder b') \<longleftrightarrow> and (of_le_bytes (take 4 (contents c))) 0x01 \<noteq> (0 :: u32)"
    "e_debug (m_encoder b') \<longleftrightarrow> and (of_le_bytes (take 4 (contents c))) 0x01 \<noteq> (0 :: u32)"
proof -
  let ?b0 = "store_packet (m_rspPacket b) (emptied r) b"
  let ?on = "and (of_le_bytes (take 4 (contents c))) 0x01 \<noteq> (0 :: u32)"
  let ?r1 = "put (take 4 (contents c)) ((emptied r)\<lparr>m_command := DEBUG\<rparr>)"
  let ?b1 = "store_packet (m_rspPacket b) ?r1 (setDebug ?on ?b0)"
  note asked = asked_packets[OF ok(1,4,6)]
  have "handleDebug True (m_cmdPacket ?b0) (m_rspPacket ?b0) ?b0 = Inr ?b1"
    using handleDebug_ok[of ?b0 c "emptied r"] asked ok len by simp
  then have "core_handlePacket m True (m_cmdPacket b) (m_rspPacket b) ?b0 = Inr (True, ?b1)"
    using asked(1) ok(3) by (simp add: core_handlePacket_def core_commands)
  note answers = core_answers[OF ok(4) this, of crc vt hs]
  have four: "length (take 4 (contents c)) = 4"
    using len(1) ok(2) by simp
  have r1: "packet_wf ?r1" "m_command ?r1 \<noteq> 0" "contents ?r1 = take 4 (contents c)"
    "m_command ?r1 = DEBUG"
    using put_emptied[OF ok(5), of "take 4 (contents c)" DEBUG] len four
    by (simp_all add: DEBUG_def)
  have "deref (packets ?b1) (m_rspPacket ?b1) = Inr ?r1"
    using asked(2) by (simp add: deref_ok)
  note sent = send_response_frame[OF this r1(1,2), of crc vt "setBus (core_handler m) # hs"]
  show thesis
  proof (rule sent)
    fix b'
    assume b': "send_response crc vt (setBus (core_handler m) # hs) ?b1 = Some (Inr (True, b'))"
      "device b' = vt_flush vt (fold (vt_writeByte vt) (frame_bytes crc (m_command ?r1) (contents ?r1)) (device ?b1))"
      "m_decoder b' = m_decoder ?b1" "e_debug (m_encoder b') = e_debug (m_encoder ?b1)"
    show thesis
    proof (rule that)
      show "handlePacket crc vt (setBus (core_handler m) # hs) b = Some (Inr (True, b'))"
        using answers b'(1) by (rule trans)
      show "device b' = vt_flush vt (fold (vt_writeByte vt)
          (frame_bytes crc DEBUG (take 4 (contents c))) (device b))"
        using b'(2) by (simp only: r1(3,4) store_packet_fields setDebug_fields)
    qed (simp_all add: b'(3,4) setDebug_def decoder_setDebug_def encoder_setDebug_def)
  qed
qed

text \<open>The two monitor commands append their words to the empty response.\<close>

lemma words_answer:
  assumes ok: "deref (packets b) (m_cmdPacket b) = Inr c"
    "deref (packets b) (m_rspPacket b) = Inr r" "packet_wf r" "m_cmdPacket b \<noteq> m_rspPacket b"
    and room: "4 * length ws \<le> m_maxDataLen r" and cmd: "cmd \<noteq> 0"
    and run: "core_handlePacket m True (m_cmdPacket b) (m_rspPacket b)
        (store_packet (m_rspPacket b) (emptied r) b) =
      bind_res (append_words ws (setCommand cmd (emptied r)))
        (\<lambda>r'. Inr (True, store_packet (m_rspPacket b) r' (store_packet (m_rspPacket b) (emptied r) b)))"
  obtains b' where "handlePacket crc vt (setBus (core_handler m) # hs) b = Some (Inr (True, b'))"
    "device b' = vt_flush vt (fold (vt_writeByte vt)
       (frame_bytes crc cmd (concat (map (le_bytes 4) ws))) (device b))"
    "m_decoder b' = m_decoder b"
proof -
  let ?ds = "concat (map (le_bytes 4) ws)"
  let ?r1 = "put ?ds ((emptied r)\<lparr>m_command := cmd\<rparr>)"
  have len: "length ?ds = 4 * length ws"
    by (induction ws) simp_all
  have "append_words ws (setCommand cmd (emptied r)) = Inr ?r1"
    using append_words_put[of "setCommand cmd (emptied r)" ws] ok(3) room by (simp add: setCommand_def)
  then have "core_handlePacket m True (m_cmdPacket b) (m_rspPacket b) (store_packet (m_rspPacket b) (emptied r) b)
      = Inr (True, store_packet (m_rspPacket b) ?r1 b)"
    using run by simp
  note answers = core_answers[OF ok(2) this, of crc vt hs]
  have r1: "packet_wf ?r1" "m_command ?r1 \<noteq> 0" "contents ?r1 = ?ds" "m_command ?r1 = cmd"
    using put_emptied[OF ok(3), of ?ds cmd] room len cmd by simp_all
  have "deref (packets (store_packet (m_rspPacket b) ?r1 b)) (m_rspPacket (store_packet (m_rspPacket b) ?r1 b))
      = Inr ?r1"
    using ok(2) by (simp add: deref_store)
  from send_response_frame[OF this r1(1,2), of crc vt "setBus (core_handler m) # hs"] r1(3,4) answers that
  show thesis by (metis store_packet_fields(3,4))
qed


lemma append_words_full:
  "packet_wf p \<Longrightarrow> m_maxDataLen p + 4 < size_range \<Longrightarrow> m_maxDataLen p < m_dataLen p + 4 * length ws \<Longrightarrow>
     append_words ws p = Inl Assert_Failed"
proof (induction ws arbitrary: p)
  case Nil
  then show ?case by (simp add: packet_wf_def)
next
  case (Cons w ws)
  show ?case
  proof (cases "m_dataLen p + 4 \<le> m_maxDataLen p")
    case True
    let ?q = "put (le_bytes 4 w) p"
    have "append_words ws ?q = Inl Assert_Failed"
      using Cons.prems True by (intro Cons.IH put_wf) auto
    moreover have "append_word w p = Inr ?q"
      using Cons.prems(1) True by (simp add: append_word_def appendData_put del: le_bytes.simps)
    ultimately show ?thesis by (simp add: append_words_def)
  next
    case False
    with Cons.prems have "append_word w p = Inl Assert_Failed"
      by (simp add: append_word_def appendData_full packet_wf_def del: le_bytes.simps)
    then show ?thesis by (simp add: append_words_def)
  qed
qed

text \<open>A fault in the handler ends \<open>IBus::handlePacket\<close>.\<close>

lemma core_faults:
  assumes "deref (packets b) (m_rspPacket b) = Inr r"
    and "core_handlePacket m True (m_cmdPacket b) (m_rspPacket b)
           (store_packet (m_rspPacket b) (emptied r) b) = Inl f"
  shows "handlePacket crc vt (setBus (core_handler m) # hs) b = Some (Inl f)"
  using assms
  by (simp add: handlePacket_starts_dispatch setBus_def core_handler_def store_packet_def)


section \<open>A host for examples\<close>

definition host_monitor :: monitor where
  "host_monitor =
     \<lparr>on_arm = False, mallinfo_arena = 135168, mallinfo_uordblks = 4096, mallinfo_fordblks = 131072,
      mallinfo_ordblks = 1, heapGrowthPotential = 0, stackSize = 0, usedStackSpace = 0,
      unusedStackSpace = 0\<rparr>"

lemma test_bus_ok: "bus_ok (test_bus data)"
  by (simp add: bus_ok_def blank_packet_wf size_range_def)

text \<open>The test bus with a command packet already received.\<close>

definition asked_bus :: "u8 \<Rightarrow> u8 list \<Rightarrow> nat \<Rightarrow> test_device bus" where
  "asked_bus cmd ds cap =
     new_bus 10 20 nullptr nullptr
       [10 \<mapsto> put ds (setCommand cmd (blank_packet 15)), 20 \<mapsto> blank_packet cap]
       \<lparr>m_decodeIdx = 0, m_dataToDecode = [], m_encodedData = []\<rparr> 0"

lemma asked_bus_fields [simp]:
  "m_cmdPacket (asked_bus cmd ds cap) = 10" "m_rspPacket (asked_bus cmd ds cap) = 20"
  "deref (packets (asked_bus cmd ds cap)) 10 = Inr (put ds (setCommand cmd (blank_packet 15)))"
  "deref (packets (asked_bus cmd ds cap)) 20 = Inr (blank_packet cap)"
  "m_encodedData (device (asked_bus cmd ds cap)) = []"
  by (simp_all add: asked_bus_def new_bus_def deref_ok nullptr_def)

lemma asked_packet:
  assumes "length ds \<le> 15"
  shows "packet_wf (put ds (setCommand cmd (blank_packet 15)))"
    "contents (put ds (setCommand cmd (blank_packet 15))) = ds"
    "getCommand (put ds (setCommand cmd (blank_packet 15))) = cmd"
  using assms by (auto simp: setCommand_def getCommand_def size_range_def intro!: put_wf blank_packet_wf
      intro: contents_put[THEN trans])


section \<open>Properties\<close>

text \<open>C17: Writing a packet always ends: on any device and from any encoder state
  \<open>writePacket\<close> returns \<open>NONE\<close> after handing the device exactly the bytes of the frame, in
  order, and flushing it once; the packet then holds its CRC, and no other packet and not
  the decoder is touched. (What the device does with the bytes is not reported.)\<close>

theorem writePacket_writes_the_frame:
  assumes "deref (packets b) a = Inr p" "packet_wf p"
  shows "\<exists>b'. writePacket crc vt hs a b = Some (Inr (NONE, b')) \<and>
    device b' = vt_flush vt (fold (vt_writeByte vt)
      (frame_bytes crc (getCommand p) (contents p)) (device b)) \<and>
    deref (packets b') a = Inr (p\<lparr>m_crc := frame_crc crc (getCommand p) (contents p)\<rparr>) \<and>
    (\<forall>a'. a' \<noteq> a \<longrightarrow> packets b' a' = packets b a') \<and> m_decoder b' = m_decoder b"
proof -
  obtain e' log where w: "writePacket crc vt hs a b = Some (Inr (NONE,
       b\<lparr>m_encoder := e', packets := (packets b)(a \<mapsto> with_crc crc p),
         device := vt_flush vt (fold (vt_writeByte vt)
           (frame_bytes crc (m_command p) (contents p)) (device b)),
         logged := logged b @ log\<rparr>))"
    using writePacket_frame[OF assms, of crc vt hs] by metis
  show ?thesis
    by (rule exI, intro conjI, rule w)
      (use assms in \<open>simp_all add: getCommand_def deref_ok with_crc_def\<close>)
qed

theorem writePacket_writes_the_frame_witness:
  "\<exists>b'. writePacket crc8_poly07 test_vt [] 5 (new_bus 5 6 0 0 [5 \<mapsto> sample_packet] \<lparr>m_decodeIdx = 0, m_dataToDecode = [], m_encodedData = []\<rparr> 0)
      = Some (Inr (NONE, b')) \<and> m_encodedData (device b') = [0xC0, 1, 2, 0x1b, 0xC0]"
proof -
  let ?b = "new_bus 5 6 0 0 [5 \<mapsto> sample_packet] \<lparr>m_decodeIdx = 0, m_dataToDecode = [], m_encodedData = []\<rparr> 0"
  have "deref (packets ?b) 5 = Inr sample_packet" "device ?b = \<lparr>m_decodeIdx = 0, m_dataToDecode = [], m_encodedData = []\<rparr>"
    by (simp_all add: deref_ok nullptr_def new_bus_def)
  with writePacket_writes_the_frame[OF this(1) sample_packet_props(1), of crc8_poly07 test_vt "[]"]
  show ?thesis
    by (auto simp: ping_frame getCommand_def sample_packet_props default_flush_def test_writeByte_def)
qed

lemma ping_answered:
  assumes "bus_ok b" "d_state (m_decoder b) = D_IDLE"
    and "deref (packets b) (m_cmdPacket b) = Inr c" "length ds < m_maxDataLen c"
    and "deref (packets b) (m_rspPacket b) = Inr r" "length ds \<le> m_maxDataLen r"
    and "reads vt (device b) (frame_bytes crc PING ds) s'"
    and "hs = setBus (core_handler m) # others"
  shows "\<exists>b1 b2.
    process_bytes crc vt hs (length (frame_bytes crc PING ds)) b
      = Inr (replicate (length (frame_bytes crc PING ds) - 1) NOT_DONE @ [NONE], b1) \<and>
    handlePacket crc vt hs b1 = Some (Inr (True, b2)) \<and>
    device b2 = vt_flush vt (fold (vt_writeByte vt) (frame_bytes crc PING ds) s') \<and>
    d_state (m_decoder b2) = D_IDLE"
proof -
  have wf: "packet_wf c" "packet_wf r" "m_cmdPacket b \<noteq> m_rspPacket b" "decoder_ok (m_decoder b)"
    using assms(1,3,5) by (auto simp: bus_ok_def)
  obtain d' c' log where got: "process_bytes crc vt hs (length (frame_bytes crc PING ds)) b
       = Inr (replicate (length (frame_bytes crc PING ds) - 1) NOT_DONE @ [NONE], received s' d' c' log b)"
    "step_frame (m_decoder b) c d' c'" "d_state d' = D_IDLE"
    "m_command c' = PING" "contents c' = ds"
    using process_frame[OF assms(7,3) wf(1,4) assms(2,4), of hs] by metis
  let ?b1 = "received s' d' c' log b"
  have c': "packet_wf c'" using got(2) by (simp add: step_frame_def)
  then have len: "m_dataLen c' = length ds" using got(5) length_contents by metis
  have at: "deref (packets ?b1) (m_cmdPacket ?b1) = Inr c'" "deref (packets ?b1) (m_rspPacket ?b1) = Inr r"
    using assms(3,5) wf(3) by (simp_all add: deref_ok)
  obtain b2 where "handlePacket crc vt hs ?b1 = Some (Inr (True, b2))"
    "device b2 = vt_flush vt (fold (vt_writeByte vt) (frame_bytes crc PING ds) s')"
    "m_decoder b2 = d'"
    using ping_answer[OF at(1) c' _ at(2) wf(2), of crc vt m others] got(4,5) len assms(6,8) wf(3)
    by (auto simp: getCommand_def)
  with got(1,3) show ?thesis by blast
qed

text \<open>A \<open>PING\<close> is answered with its own data: when the frame of a \<open>PING\<close> with the data
  \<open>ds\<close> arrives at an idle bus on which the core handler is registered first, \<open>processByte\<close>
  reports \<open>NOT_DONE\<close> for every byte but the last and \<open>NONE\<close> for the last, and
  \<open>handlePacket\<close> returns true after writing exactly the frame of a \<open>PING\<close> with the data
  \<open>ds\<close> and flushing the device.\<close>

theorem ping_is_echoed:
  assumes "bus_ok b" "d_state (m_decoder b) = D_IDLE"
    and "deref (packets b) (m_cmdPacket b) = Inr c" "length ds < m_maxDataLen c"
    and "deref (packets b) (m_rspPacket b) = Inr r" "length ds \<le> m_maxDataLen r"
    and "reads vt (device b) (frame_bytes crc PING ds) s'"
    and "hs = setBus (core_handler m) # others"
  shows "\<exists>b1 b2.
    process_bytes crc vt hs (length (frame_bytes crc PING ds)) b
      = Inr (replicate (length (frame_bytes crc PING ds) - 1) NOT_DONE @ [NONE], b1) \<and>
    handlePacket crc vt hs b1 = Some (Inr (True, b2)) \<and>
    device b2 = vt_flush vt (fold (vt_writeByte vt) (frame_bytes crc PING ds) s') \<and>
    d_state (m_decoder b2) = D_IDLE"
  using assms by (rule ping_answered)

theorem ping_is_echoed_witness:
  "\<exists>b1 b2.
    process_bytes crc8_poly07 test_vt [setBus (core_handler host_monitor)] 5
      (test_bus [0xC0, 1, 2, 0x1b, 0xC0]) = Inr ([NOT_DONE, NOT_DONE, NOT_DONE, NOT_DONE, NONE], b1) \<and>
    handlePacket crc8_poly07 test_vt [setBus (core_handler host_monitor)] b1 = Some (Inr (True, b2)) \<and>
    m_encodedData (device b2) = [0xC0, 1, 2, 0x1b, 0xC0]"
proof -
  let ?frame = "[0xC0, 1, 2, 0x1b, 0xC0] :: u8 list"
  have f: "frame_bytes crc8_poly07 PING [2] = ?frame"
    by (simp add: PING_def ping_frame)
  have shape: "replicate (5 - 1) NOT_DONE @ [NONE] = [NOT_DONE, NOT_DONE, NOT_DONE, NOT_DONE, NONE]"
    "length ?frame = 5"
    by (simp_all add: numeral_eq_Suc)
  let ?s' = "(device (test_bus ?frame))\<lparr>m_decodeIdx := 5\<rparr>"
  have reads: "reads test_vt (device (test_bus ?frame)) (frame_bytes crc8_poly07 PING [2]) ?s'"
    using test_bus_reads[of ?frame] by (simp only: f shape(2))
  have at: "deref (packets (test_bus ?frame)) (m_cmdPacket (test_bus ?frame)) = Inr (blank_packet 15)"
    "deref (packets (test_bus ?frame)) (m_rspPacket (test_bus ?frame)) = Inr (blank_packet 15)"
    "d_state (m_decoder (test_bus ?frame)) = D_IDLE" 
    "length [2 :: u8] < m_maxDataLen (blank_packet 15)" "length [2 :: u8] \<le> m_maxDataLen (blank_packet 15)"
    by (simp_all add: new_decoder_def)
  have sent: "m_encodedData (vt_flush test_vt (fold (vt_writeByte test_vt) ?frame ?s')) = ?frame"
    by (simp add: default_flush_def test_writeByte_def)
  obtain b1 b2 where run:
    "process_bytes crc8_poly07 test_vt [setBus (core_handler host_monitor)] 5 (test_bus ?frame)
      = Inr ([NOT_DONE, NOT_DONE, NOT_DONE, NOT_DONE, NONE], b1)"
    "handlePacket crc8_poly07 test_vt [setBus (core_handler host_monitor)] b1 = Some (Inr (True, b2))"
    "device b2 = vt_flush test_vt (fold (vt_writeByte test_vt) ?frame ?s')"
    using ping_is_echoed[OF test_bus_ok at(3,1,4,2,5) reads refl, of host_monitor "[]"]
    unfolding f shape(2) unfolding shape(1) by blast
  have "m_encodedData (device b2) = ?frame"
    by (simp only: run(3) sent)
  with run(1,2) show ?thesis by blast
qed

text \<open>A \<open>DEBUG\<close> with at least four bytes of data switches the debugging of the decoder
  and of the encoder to bit 0 of its flags, both the same way whatever they were before,
  and is answered with a \<open>DEBUG\<close> that carries the same four bytes back.\<close>

theorem debug_sets_both_flags:
  assumes "deref (packets b) (m_cmdPacket b) = Inr c" "packet_wf c" "getCommand c = DEBUG"
    and "deref (packets b) (m_rspPacket b) = Inr r" "packet_wf r" "m_cmdPacket b \<noteq> m_rspPacket b"
    and "4 \<le> length (contents c)" "4 \<le> m_maxDataLen r"
  shows "\<exists>b'. handlePacket crc vt (setBus (core_handler m) # others) b = Some (Inr (True, b')) \<and>
    device b' = vt_flush vt (fold (vt_writeByte vt)
      (frame_bytes crc DEBUG (take 4 (contents c))) (device b)) \<and>
    d_debug (m_decoder b') = bit (contents c ! 0) 0 \<and>
    e_debug (m_encoder b') = bit (contents c ! 0) 0"
proof -
  let ?flags = "of_le_bytes (take 4 (contents c)) :: u32"
  have "bit ?flags 0 \<longleftrightarrow> bit (contents c ! 0) 0"
    using assms(7) by (auto simp: bit_of_le_bytes)
  then have "and ?flags 0x01 \<noteq> 0 \<longleftrightarrow> bit (contents c ! 0) 0"
    by (simp add: and_one_eq odd_iff_mod_2_eq_one bit_0)
  with debug_answer[OF assms(1-6), of crc vt m others] assms(2,7,8) show ?thesis
    by (metis length_contents)
qed

theorem debug_sets_both_flags_witness:
  "\<exists>b'. handlePacket crc8_poly07 test_vt [setBus (core_handler host_monitor)] (asked_bus DEBUG [1, 0, 0, 0] 15)
      = Some (Inr (True, b')) \<and> d_debug (m_decoder b') \<and> e_debug (m_encoder b')"
proof -
  note p = asked_packet[of "[1, 0, 0, 0]" DEBUG]
  from debug_sets_both_flags[of "asked_bus DEBUG [1, 0, 0, 0] 15" _ "blank_packet 15" crc8_poly07 test_vt
      host_monitor "[]"] p
  show ?thesis
    by (auto simp: blank_packet_wf size_range_def)
qed

lemma short_debug_indeterminate:
  assumes "deref (packets b) (m_cmdPacket b) = Inr c" "packet_wf c" "getCommand c = DEBUG"
    and "deref (packets b) (m_rspPacket b) = Inr r" "m_cmdPacket b \<noteq> m_rspPacket b"
    and "length (contents c) < 4"
  shows "handlePacket crc vt (setBus (core_handler m) # others) b = Some (Inl Indeterminate)"
proof -
  have "m_dataLen c < 4" using assms(2,6) by simp
  then have "handleDebug True (m_cmdPacket b) (m_rspPacket b) (store_packet (m_rspPacket b) (emptied r) b)
      = Inl Indeterminate"
    using asked_packets[OF assms(1,4,5)]
    by (simp add: handleDebug_def unpack_word_def new_unpacker_def sizeof_def getDataLength_def)
  then have "core_handlePacket m True (m_cmdPacket b) (m_rspPacket b)
      (store_packet (m_rspPacket b) (emptied r) b) = Inl Indeterminate"
    using asked_packets[OF assms(1,4,5)] assms(3) by (simp add: core_handlePacket_def core_commands)
  then show ?thesis
    by (rule core_faults[OF assms(4)])
qed

text \<open>A \<open>DEBUG\<close> with fewer than four bytes of data uses a value that was never written:
  \<open>unpack\<close> returns false and leaves the local variable \<open>flags\<close> alone, the result is
  ignored, and the variable decides what debugging is switched to.\<close>

theorem short_debug_reads_garbage:
  assumes "deref (packets b) (m_cmdPacket b) = Inr c" "packet_wf c" "getCommand c = DEBUG"
    and "deref (packets b) (m_rspPacket b) = Inr r" "m_cmdPacket b \<noteq> m_rspPacket b"
    and "length (contents c) < 4"
  shows "handlePacket crc vt (setBus (core_handler m) # others) b = Some (Inl Indeterminate)"
  using assms by (rule short_debug_indeterminate)

theorem short_debug_reads_garbage_witness:
  "handlePacket crc8_poly07 test_vt [setBus (core_handler host_monitor)] (asked_bus DEBUG [1] 15)
     = Some (Inl Indeterminate)"
  using short_debug_reads_garbage[of "asked_bus DEBUG [1] 15" _ "blank_packet 15" crc8_poly07 test_vt
      host_monitor "[]"] asked_packet[of "[1]" DEBUG]
  by simp

text \<open>A \<open>PING\<close> whose data is longer than the response packet can hold aborts the
  program: the assertion of \<open>appendData\<close> fails inside the handler.\<close>

theorem large_ping_aborts:
  assumes "deref (packets b) (m_cmdPacket b) = Inr c" "packet_wf c" "getCommand c = PING"
    and "deref (packets b) (m_rspPacket b) = Inr r" "m_cmdPacket b \<noteq> m_rspPacket b"
    and "m_maxDataLen r < length (contents c)"
  shows "handlePacket crc vt (setBus (core_handler m) # others) b = Some (Inl Assert_Failed)"
proof -
  have len: "m_maxDataLen r < m_dataLen c" "m_dataLen c < size_range"
    using assms(2,6) packet_wf_bounds[OF assms(2)] by simp_all
  then have "setData (m_dataLen c) (m_data c) (setCommand PING (emptied r)) = Inl Assert_Failed"
    by (simp add: setData_def setCommand_def emptied_def appendData_full)
  then have "handlePing (m_cmdPacket b) (m_rspPacket b) (store_packet (m_rspPacket b) (emptied r) b)
      = Inl Assert_Failed"
    using assms(1,4,5)
    by (simp add: handlePing_def deref_store deref_store_other getDataLength_def getData_def)
  then have "core_handlePacket m True (m_cmdPacket b) (m_rspPacket b)
      (store_packet (m_rspPacket b) (emptied r) b) = Inl Assert_Failed"
    using asked_packets[OF assms(1,4,5)] assms(3) by (simp add: core_handlePacket_def)
  then show ?thesis
    by (rule core_faults[OF assms(4)])
qed

theorem large_ping_aborts_witness:
  "handlePacket crc8_poly07 test_vt [setBus (core_handler host_monitor)] (asked_bus PING [1, 2, 3] 2)
     = Some (Inl Assert_Failed)"
  using large_ping_aborts[of "asked_bus PING [1, 2, 3] 2" _ "blank_packet 2" crc8_poly07 test_vt
      host_monitor "[]"] asked_packet[of "[1, 2, 3]" PING]
  by simp

lemma unknown_command_ok:
  assumes "deref (packets b) (m_cmdPacket b) = Inr c" "deref (packets b) (m_rspPacket b) = Inr r"
    and "m_cmdPacket b \<noteq> m_rspPacket b"
    and "getCommand c \<notin> {PING, DEBUG, STACK_INFO, HEAP_INFO}"
  shows "\<exists>b'. handlePacket crc vt (add (core_handler m) []) b = Some (Inr (False, b')) \<and>
    device b' = device b \<and>
    logged b' = logged b @ [Log_error ''Unhandled command: 0x%02x'' [A_Byte (getCommand c)]] \<and>
    deref (packets b') (m_rspPacket b) = Inr (r\<lparr>m_command := 0, m_dataLen := 0\<rparr>)"
proof -
  let ?b0 = "store_packet (m_rspPacket b) (emptied r) b"
  note asked = asked_packets[OF assms(1-3)]
  have "\<not> core_accepts (getCommand c)"
    using assms(4) by (simp add: core_accepts_def)
  then have "dispatch crc vt hs (setBus (core_handler m) # []) ?b0 = dispatch crc vt hs [] ?b0" for hs
    using asked(1) by (intro core.dispatch_declined) simp_all
  then have "handlePacket crc vt (add (core_handler m) []) b
      = dispatch crc vt (add (core_handler m) []) [] ?b0"
    by (simp add: handlePacket_starts_dispatch[OF assms(2)] add_def)
  with asked show ?thesis
    by (simp add: log_bus_def emptied_def)
qed

text \<open>A command the core handler does not know, with no other handler registered, is
  reported and nothing else: \<open>handlePacket\<close> returns false, the log gains one error entry
  with the command, no byte is written to the device, and the response packet is left
  empty.\<close>

theorem unknown_command_is_reported:
  assumes "deref (packets b) (m_cmdPacket b) = Inr c" "deref (packets b) (m_rspPacket b) = Inr r"
    and "m_cmdPacket b \<noteq> m_rspPacket b"
    and "getCommand c \<notin> {PING, DEBUG, STACK_INFO, HEAP_INFO}"
  shows "\<exists>b'. handlePacket crc vt (add (core_handler m) []) b = Some (Inr (False, b')) \<and>
    device b' = device b \<and>
    logged b' = logged b @ [Log_error ''Unhandled command: 0x%02x'' [A_Byte (getCommand c)]] \<and>
    deref (packets b') (m_rspPacket b) = Inr (r\<lparr>m_command := 0, m_dataLen := 0\<rparr>)"
  using assms by (rule unknown_command_ok)

theorem unknown_command_is_reported_witness:
  "\<exists>b'. handlePacket crc8_poly07 test_vt (add (core_handler host_monitor) []) (asked_bus 0xff [] 15)
      = Some (Inr (False, b')) \<and> m_encodedData (device b') = []"
  using unknown_command_is_reported[of "asked_bus 0xff [] 15" _ "blank_packet 15" crc8_poly07 test_vt
      host_monitor] asked_packet(3)[of "[]" "0xff"]
  by (auto simp: core_commands)

text \<open>The words of the two monitor responses.\<close>

lemma append_words_emptied:
  assumes "packet_wf r" "length ws \<le> 5"
  shows "append_words ws (setCommand cmd (emptied r)) =
    (if 4 * length ws \<le> m_maxDataLen r
     then Inr (put (concat (map (le_bytes 4) ws)) (setCommand cmd (emptied r))) else Inl Assert_Failed)"
  using assms append_words_put[of "setCommand cmd (emptied r)" ws]
    append_words_full[of "setCommand cmd (emptied r)" ws]
  by (auto simp: size_range_def)

lemma words_response:
  assumes ok: "deref (packets b) (m_cmdPacket b) = Inr c"
    "deref (packets b) (m_rspPacket b) = Inr r" "packet_wf r" "m_cmdPacket b \<noteq> m_rspPacket b"
    and small: "length ws \<le> 5" and cmd: "cmd \<noteq> 0"
    and run: "core_handlePacket m True (m_cmdPacket b) (m_rspPacket b)
        (store_packet (m_rspPacket b) (emptied r) b) =
      bind_res (append_words ws (setCommand cmd (emptied r)))
        (\<lambda>r'. Inr (True, store_packet (m_rspPacket b) r' (store_packet (m_rspPacket b) (emptied r) b)))"
  shows "if 4 * length ws \<le> m_maxDataLen r
    then \<exists>b'. handlePacket crc vt (setBus (core_handler m) # hs) b = Some (Inr (True, b')) \<and>
      device b' = vt_flush vt (fold (vt_writeByte vt)
        (frame_bytes crc cmd (concat (map (le_bytes 4) ws))) (device b))
    else handlePacket crc vt (setBus (core_handler m) # hs) b = Some (Inl Assert_Failed)"
proof (cases "4 * length ws \<le> m_maxDataLen r")
  case True
  with words_answer[OF ok True cmd run, of crc vt hs] show ?thesis by auto
next
  case False
  then have "core_handlePacket m True (m_cmdPacket b) (m_rspPacket b)
      (store_packet (m_rspPacket b) (emptied r) b) = Inl Assert_Failed"
    using run append_words_emptied[OF ok(3) small, of cmd] by simp
  with False core_faults[OF ok(2) this, of crc vt hs] show ?thesis by simp
qed

lemma heap_response_ok:
  assumes "deref (packets b) (m_cmdPacket b) = Inr c" "getCommand c = HEAP_INFO"
    and "deref (packets b) (m_rspPacket b) = Inr r" "packet_wf r" "m_cmdPacket b \<noteq> m_rspPacket b"
  shows "if 20 \<le> m_maxDataLen r
    then \<exists>b'. handlePacket crc vt (setBus (core_handler m) # others) b = Some (Inr (True, b')) \<and>
      device b' = vt_flush vt (fold (vt_writeByte vt)
        (frame_bytes crc HEAP_INFO
          (le_bytes 4 (word_of_int (mallinfo_arena m) :: u32) @
           le_bytes 4 (word_of_int (mallinfo_uordblks m) :: u32) @
           le_bytes 4 (word_of_int (mallinfo_fordblks m) :: u32) @
           le_bytes 4 (word_of_int (mallinfo_ordblks m) :: u32) @
           le_bytes 4 (word_of_nat (if on_arm m then heapGrowthPotential m else 0) :: u32)))
        (device b))
    else handlePacket crc vt (setBus (core_handler m) # others) b = Some (Inl Assert_Failed)"
proof -
  let ?ws = "[word_of_int (mallinfo_arena m), word_of_int (mallinfo_uordblks m),
    word_of_int (mallinfo_fordblks m), word_of_int (mallinfo_ordblks m),
    word_of_nat (if on_arm m then heapGrowthPotential m else 0)] :: u32 list"
  note asked = asked_packets[OF assms(1,3,5)]
  have "core_handlePacket m True (m_cmdPacket b) (m_rspPacket b)
        (store_packet (m_rspPacket b) (emptied r) b) =
      bind_res (append_words ?ws (setCommand HEAP_INFO (emptied r)))
        (\<lambda>r'. Inr (True, store_packet (m_rspPacket b) r' (store_packet (m_rspPacket b) (emptied r) b)))"
    using asked assms(2)
    by (simp add: core_handlePacket_def core_commands handleHeapInfo_def bind_res_assoc Let_def)
  from words_response[OF assms(1,3,4,5) _ _ this, of crc vt others] show ?thesis
    by (cases "20 \<le> m_maxDataLen r") (simp_all add: HEAP_INFO_def del: le_bytes.simps)
qed

text \<open>\<open>HEAP_INFO\<close> is answered with five 32-bit words, low byte first: the arena, the
  used and the free bytes and the number of free chunks (\<open>ordblks\<close>) of \<open>mallinfo\<close>, then the
  growth potential, which is 0 off ARM. A response packet with room for fewer than 20 bytes
  aborts the program instead.\<close>

theorem heap_info_response:
  assumes "deref (packets b) (m_cmdPacket b) = Inr c" "getCommand c = HEAP_INFO"
    and "deref (packets b) (m_rspPacket b) = Inr r" "packet_wf r" "m_cmdPacket b \<noteq> m_rspPacket b"
  shows "if 20 \<le> m_maxDataLen r
    then \<exists>b'. handlePacket crc vt (setBus (core_handler m) # others) b = Some (Inr (True, b')) \<and>
      device b' = vt_flush vt (fold (vt_writeByte vt)
        (frame_bytes crc HEAP_INFO
          (le_bytes 4 (word_of_int (mallinfo_arena m) :: u32) @
           le_bytes 4 (word_of_int (mallinfo_uordblks m) :: u32) @
           le_bytes 4 (word_of_int (mallinfo_fordblks m) :: u32) @
           le_bytes 4 (word_of_int (mallinfo_ordblks m) :: u32) @
           le_bytes 4 (word_of_nat (if on_arm m then heapGrowthPotential m else 0) :: u32)))
        (device b))
    else handlePacket crc vt (setBus (core_handler m) # others) b = Some (Inl Assert_Failed)"
  using assms by (rule heap_response_ok)

theorem heap_info_response_witness:
  "handlePacket crc8_poly07 test_vt [setBus (core_handler host_monitor)] (asked_bus HEAP_INFO [] 15)
     = Some (Inl Assert_Failed) \<and>
   (\<exists>b'. handlePacket crc8_poly07 test_vt [setBus (core_handler host_monitor)] (asked_bus HEAP_INFO [] 20)
     = Some (Inr (True, b')))"
  using heap_info_response[of "asked_bus HEAP_INFO [] 15" _ "blank_packet 15" crc8_poly07 test_vt
      host_monitor "[]"] heap_info_response[of "asked_bus HEAP_INFO [] 20" _ "blank_packet 20" crc8_poly07 test_vt
      host_monitor "[]"] asked_packet(3)[of "[]" HEAP_INFO]
  by (auto simp: blank_packet_wf size_range_def)

lemma stack_response_ok:
  assumes "deref (packets b) (m_cmdPacket b) = Inr c" "getCommand c = STACK_INFO"
    and "deref (packets b) (m_rspPacket b) = Inr r" "packet_wf r" "m_cmdPacket b \<noteq> m_rspPacket b"
  shows "if 12 \<le> m_maxDataLen r
    then \<exists>b'. handlePacket crc vt (setBus (core_handler m) # others) b = Some (Inr (True, b')) \<and>
      device b' = vt_flush vt (fold (vt_writeByte vt)
        (frame_bytes crc STACK_INFO
          (if on_arm m then
             le_bytes 4 (word_of_nat (stackSize m) :: u32) @
             le_bytes 4 (word_of_nat (usedStackSpace m) :: u32) @
             le_bytes 4 (word_of_nat (unusedStackSpace m) :: u32)
           else replicate 12 0))
        (device b))
    else handlePacket crc vt (setBus (core_handler m) # others) b = Some (Inl Assert_Failed)"
proof -
  let ?ws = "(if on_arm m then
      [word_of_nat (stackSize m), word_of_nat (usedStackSpace m), word_of_nat (unusedStackSpace m)]
    else [0, 0, 0]) :: u32 list"
  note asked = asked_packets[OF assms(1,3,5)]
  have "core_handlePacket m True (m_cmdPacket b) (m_rspPacket b)
        (store_packet (m_rspPacket b) (emptied r) b) =
      bind_res (append_words ?ws (setCommand STACK_INFO (emptied r)))
        (\<lambda>r'. Inr (True, store_packet (m_rspPacket b) r' (store_packet (m_rspPacket b) (emptied r) b)))"
    using asked assms(2)
    by (simp add: core_handlePacket_def core_commands handleStackInfo_def bind_res_assoc)
  note answer = words_response[OF assms(1,3,4,5) _ _ this, of crc vt others]
  have "concat (map (le_bytes 4) ?ws) = (if on_arm m then
      le_bytes 4 (word_of_nat (stackSize m) :: u32) @ le_bytes 4 (word_of_nat (usedStackSpace m) :: u32) @
      le_bytes 4 (word_of_nat (unusedStackSpace m) :: u32) else replicate 12 0)" "length ?ws = 3"
    by (simp_all add: numeral_eq_Suc)
  with answer show ?thesis
    by (simp only: STACK_INFO_def) (simp del: le_bytes.simps)
qed

text \<open>\<open>STACK_INFO\<close> is answered with three 32-bit words, low byte first: size, used and
  unused space of the stack, all 0 off ARM. A response packet with room for fewer than 12
  bytes aborts the program instead.\<close>

theorem stack_info_response:
  assumes "deref (packets b) (m_cmdPacket b) = Inr c" "getCommand c = STACK_INFO"
    and "deref (packets b) (m_rspPacket b) = Inr r" "packet_wf r" "m_cmdPacket b \<noteq> m_rspPacket b"
  shows "if 12 \<le> m_maxDataLen r
    then \<exists>b'. handlePacket crc vt (setBus (core_handler m) # others) b = Some (Inr (True, b')) \<and>
      device b' = vt_flush vt (fold (vt_writeByte vt)
        (frame_bytes crc STACK_INFO
          (if on_arm m then
             le_bytes 4 (word_of_nat (stackSize m) :: u32) @
             le_bytes 4 (word_of_nat (usedStackSpace m) :: u32) @
             le_bytes 4 (word_of_nat (unusedStackSpace m) :: u32)
           else replicate 12 0))
        (device b))
    else handlePacket crc vt (setBus (core_handler m) # others) b = Some (Inl Assert_Failed)"
  using assms by (rule stack_response_ok)

theorem stack_info_response_witness:
  "\<exists>b'. handlePacket crc8_poly07 test_vt [setBus (core_handler host_monitor)] (asked_bus STACK_INFO [] 15)
     = Some (Inr (True, b'))"
  using stack_info_response[of "asked_bus STACK_INFO [] 15" _ "blank_packet 15" crc8_poly07 test_vt
      host_monitor "[]"] asked_packet(3)[of "[]" STACK_INFO]
  by (auto simp: blank_packet_wf size_range_def)

text \<open>What the bus makes of a handler that accepts a packet: with a command in the
  response packet it sends exactly the frame of the response, without one it sends nothing
  and logs an error precisely when the handler left data behind. Either way the remaining
  handlers are not asked and the result is true.\<close>

theorem first_acceptor_decides:
  assumes "deref (packets b) (m_rspPacket b) = Inr r"
    and "ph_handlePacket h (ph_bus_set h) (m_cmdPacket b) (m_rspPacket b)
           (b\<lparr>packets := (packets b)(m_rspPacket b \<mapsto> r\<lparr>m_command := 0, m_dataLen := 0\<rparr>)\<rparr>) = Inr (True, b1)"
    and "deref (packets b1) (m_rspPacket b1) = Inr r1" "packet_wf r1"
  shows "\<exists>b2. handlePacket crc vt (h # others) b = Some (Inr (True, b2)) \<and>
    device b2 =
      (if getCommand r1 = 0 then device b1
       else vt_flush vt (fold (vt_writeByte vt) (frame_bytes crc (getCommand r1) (contents r1)) (device b1))) \<and>
    (getCommand r1 = 0 \<longrightarrow> logged b2 = logged b1 @
      (if contents r1 = [] then [] else [Log_error ''Packet data set, but no command'' []]))"
proof -
  have hp: "handlePacket crc vt (h # others) b = send_response crc vt (h # others) b1"
    using assms(1,2)
    by (simp add: handlePacket_starts_dispatch emptied_def store_packet_def)
  show ?thesis
  proof (cases "getCommand r1 = 0")
    case True
    have "contents r1 = [] \<longleftrightarrow> m_dataLen r1 = 0"
      using length_contents[OF assms(4)] by auto
    then have "send_response crc vt (h # others) b1 = Some (Inr (True,
        if contents r1 = [] then b1 else log_bus [Log_error ''Packet data set, but no command'' []] b1))"
      using True assms(3) by (simp add: send_response_def getDataLength_def)
    with hp True show ?thesis by (simp add: log_bus_def)
  next
    case False
    then have "m_command r1 \<noteq> 0" by (simp add: getCommand_def)
    with send_response_frame[OF assms(3,4), of crc vt "h # others"] hp False show ?thesis
      unfolding getCommand_def by metis
  qed
qed

theorem first_acceptor_decides_witness:
  "\<exists>b2. handlePacket crc8_poly07 test_vt [setBus test_handler] (asked_bus 2 [3] 15) = Some (Inr (True, b2)) \<and>
    m_encodedData (device b2) = [] \<and> logged b2 = []"
proof -
  let ?b = "asked_bus 2 [3] 15"
  let ?b1 = "?b\<lparr>packets := (packets ?b)(20 \<mapsto> (blank_packet 15)\<lparr>m_command := 0, m_dataLen := 0\<rparr>)\<rparr>"
  have at: "deref (packets ?b) (m_rspPacket ?b) = Inr (blank_packet 15)" by simp
  have cmd: "deref (packets ?b1) 10 = Inr (put [3] (setCommand 2 (blank_packet 15)))"
    by (simp add: deref_store_other)
  have rsp: "deref (packets ?b1) (m_rspPacket ?b1) = Inr ((blank_packet 15)\<lparr>m_command := 0, m_dataLen := 0\<rparr>)"
    using deref_store[OF at] by simp
  have wf: "packet_wf ((blank_packet 15)\<lparr>m_command := 0, m_dataLen := 0\<rparr>)"
    by (simp add: blank_packet_wf size_range_def)
  have run: "ph_handlePacket (setBus test_handler) (ph_bus_set (setBus test_handler)) (m_cmdPacket ?b) (m_rspPacket ?b)
      (?b\<lparr>packets := (packets ?b)(m_rspPacket ?b \<mapsto> (blank_packet 15)\<lparr>m_command := 0, m_dataLen := 0\<rparr>)\<rparr>)
      = Inr (True, ?b1)"
    using cmd asked_packet(3)[of "[3]" 2]
    by (simp add: setBus_def test_handler_def test_handlePacket_def)
  have "logged ?b1 = []" by (simp add: asked_bus_def new_bus_def)
  with first_acceptor_decides[OF at run rsp wf, of crc8_poly07 test_vt "[]"] show ?thesis
    by (auto simp: getCommand_def)
qed

end
