(* ===== verification/Bus_Log.thy ===== *)
theory Bus_Log
  imports Conversations
begin

text \<open>
  The class \<open>BusLog\<close> of \<^verbatim>\<open>src/BusLog.cpp\<close>, a logger that sends its messages over a bus: how a
  formatted message becomes the data of the log packet, how it is cut to the capacity of
  the packet, and what a peer unpacks from the frame.
\<close>

section \<open>The callback\<close>

text \<open>\<open>LogParam\<close> is a pair of the packet and the count \<open>bytes_written\<close>.\<close>

record LogParam =
  lp_pkt :: packet
  bytes_written :: nat

definition log_char_to_packet :: "u8 \<Rightarrow> LogParam \<Rightarrow> (nat \<times> LogParam) res" where
  "log_char_to_packet ch param =
     (if getSpaceRemaining (lp_pkt param) > 1 then
        bind_res (appendByte ch (lp_pkt param)) (\<lambda>pkt.
          Inr (1, param\<lparr>lp_pkt := pkt, bytes_written := bytes_written param + 1\<rparr>))
      else Inr (0, param))"

text \<open>
  \<^verbatim>\<open>vStrXPrintf\<close> of \<^verbatim>\<open>duino_util\<close> is not part of the repository: it hands the characters of the
  formatted message to the callback one by one. The message is a parameter, \<open>chars\<close>. (It
  makes no difference whether it stops when the callback returns 0: from then on the
  callback changes nothing.)
\<close>

definition log_chars :: "u8 list \<Rightarrow> LogParam \<Rightarrow> LogParam res" where
  "log_chars chars param =
     fold_res (\<lambda>param ch. bind_res (log_char_to_packet ch param) (\<lambda>(n, param). Inr param)) param chars"

section \<open>Sending a message\<close>

text \<open>What \<open>do_log\<close> does to the log packet before it writes it.\<close>

definition fill_log :: "u8 \<Rightarrow> u8 list \<Rightarrow> packet \<Rightarrow> packet res" where
  "fill_log level chars log =
     bind_res (setData 0 [] (setCommand LOG log)) (\<lambda>log.
     bind_res (appendByte level log) (\<lambda>log.
       let (strLen, log) = getWriteData 1 log in
       bind_res (log_chars chars \<lparr>lp_pkt = log, bytes_written = 0\<rparr>) (\<lambda>param.
       bind_res (appendByte 0 (lp_pkt param)) (\<lambda>log.
       bind_res (write_at (m_data log) strLen (word_of_nat (bytes_written param + 1))) (\<lambda>data.
         Inr (log\<lparr>m_data := data\<rparr>))))))"

definition do_log ::
    "crc_fns \<Rightarrow> 's bus_vt \<Rightarrow> 's handler list \<Rightarrow> u8 \<Rightarrow> u8 list \<Rightarrow> 's bus \<Rightarrow> 's bus res option" where
  "do_log crc vt hs level chars b =
     (if getLogPacket b = nullptr then Some (Inr b)
      else
        case bind_res (deref (packets b) (getLogPacket b)) (fill_log level chars) of
          Inl f \<Rightarrow> Some (Inl f)
        | Inr log \<Rightarrow>
            map_option (\<lambda>r. bind_res r (\<lambda>(err, b). Inr b))
              (writePacket crc vt hs (getLogPacket b) (store_packet (getLogPacket b) log b)))"

text \<open>
  In \<open>do_log\<close> what the encoder logs while it writes the packet is only recorded. When the
  program's logger is this very \<open>BusLog\<close>, those calls of \<open>Log\<close> can come back to \<open>do_log\<close> before
  the encoder goes on. Whether they do is up to \<^verbatim>\<open>duino_log\<close>, which is not part of the
  repository and a parameter here: \<open>logger n ev\<close> are the calls of \<open>do_log\<close> (level and characters)
  to which a call \<open>ev\<close> of \<open>Log\<close> or \<open>DumpMem\<close> leads while \<open>n\<close> calls of \<open>do_log\<close> are under way.
  A level filter, or a guard against re-entrance, gives none; \<open>DumpMem\<close> may give several.
\<close>

type_synonym log_call = "u8 \<times> u8 list"
type_synonym log_dispatch = "nat \<Rightarrow> log_event \<Rightarrow> log_call list"

text \<open>
  \<open>live_log\<close> carries out the calls of \<open>do_log\<close> in a list, one after the other, \<open>n\<close> calls being
  under way: the body of \<open>do_log\<close>, with the calls to which the encoder's logging leads made
  where the encoder logs, between the start and the first byte. (What the encoder logs is taken
  from the packet before these calls, also where one of them changes the log packet.)
\<close>

partial_function (option) live_log ::
    "crc_fns \<Rightarrow> 's bus_vt \<Rightarrow> 's handler list \<Rightarrow> log_dispatch \<Rightarrow> nat \<Rightarrow> log_call list \<Rightarrow> 's bus \<Rightarrow>
     's bus res option" where
  "live_log crc vt hs logger n calls b =
     (case calls of
        [] \<Rightarrow> Some (Inr b)
      | (level, chars) # calls \<Rightarrow>
          if getLogPacket b = nullptr then live_log crc vt hs logger n calls b
          else
            (case bind_res (deref (packets b) (getLogPacket b)) (fill_log level chars) of
               Inl f \<Rightarrow> Some (Inl f)
             | Inr log \<Rightarrow>
                 (case encodeStart crc (Some (bus_as_str hs)) (getLogPacket b) (m_encoder b)
                     ((packets b)(getLogPacket b \<mapsto> log)) of
                    Inl f \<Rightarrow> Some (Inl f)
                  | Inr (e, h, nested) \<Rightarrow>
                      Option.bind
                        (live_log crc vt hs logger (Suc n) (concat (map (logger (Suc n)) nested))
                           (b\<lparr>m_encoder := e\<lparr>e_state := e_state (m_encoder b)\<rparr>, packets := h\<rparr>))
                        (\<lambda>r. case r of
                           Inl f \<Rightarrow> Some (Inl f)
                         | Inr b \<Rightarrow>
                             Option.bind
                               (write_loop crc vt (packets b) ((m_encoder b)\<lparr>e_state := E_IDLE\<rparr>) None (device b))
                               (\<lambda>r. case r of
                                  Inl f \<Rightarrow> Some (Inl f)
                                | Inr (err, e, s) \<Rightarrow>
                                    live_log crc vt hs logger n calls
                                      (b\<lparr>m_encoder := e, device := vt_flush vt s\<rparr>))))))"

text \<open>
  The documented behaviour of a logger whose level lets informational messages through:
  \<open>Log::info\<close> hands its message to \<open>do_log\<close>, also when it is called from \<open>do_log\<close>.
\<close>

definition passes_infos :: "log_dispatch \<Rightarrow> bool" where
  "passes_infos logger \<longleftrightarrow> (\<forall>n fmt args. logger n (Log_info fmt args) \<noteq> [])"

section \<open>Filling the packet\<close>

text \<open>The last free byte of the packet is kept for the terminator.\<close>

lemma log_chars_put:
  assumes "packet_wf p" "m_dataLen p < m_maxDataLen p"
  shows "log_chars chars \<lparr>lp_pkt = p, bytes_written = n\<rparr> =
    Inr \<lparr>lp_pkt = put (take (m_maxDataLen p - m_dataLen p - 1) chars) p,
         bytes_written = n + min (length chars) (m_maxDataLen p - m_dataLen p - 1)\<rparr>"
  using assms
proof (induction chars arbitrary: p n)
  case Nil
  then show ?case by (simp add: log_chars_def)
next
  case (Cons ch chars)
  show ?case
  proof (cases "m_maxDataLen p - m_dataLen p > 1")
    case True
    let ?p = "put [ch] p"
    have "packet_wf ?p" using Cons.prems True by (intro put_wf) auto
    moreover have "m_dataLen ?p < m_maxDataLen ?p" using True by simp
    ultimately have ih: "log_chars chars \<lparr>lp_pkt = ?p, bytes_written = n + 1\<rparr> =
      Inr \<lparr>lp_pkt = put (take (m_maxDataLen p - m_dataLen p - 2) chars) ?p,
           bytes_written = n + 1 + min (length chars) (m_maxDataLen p - m_dataLen p - 2)\<rparr>"
      using Cons.IH[of ?p "n + 1"] by (simp add: numeral_2_eq_2)
    have k: "m_maxDataLen p - m_dataLen p - 1 = Suc (m_maxDataLen p - m_dataLen p - 2)"
      using True by simp
    from Cons.prems True ih show ?thesis
      unfolding k
      by (simp add: log_chars_def log_char_to_packet_def getSpaceRemaining_wf appendByte_put put_put
          packet_wf_bounds)
  next
    case False
    then have "log_char_to_packet c \<lparr>lp_pkt = p, bytes_written = n\<rparr>
        = Inr (0, \<lparr>lp_pkt = p, bytes_written = n\<rparr>)" for c
      using Cons.prems by (simp add: log_char_to_packet_def getSpaceRemaining_wf)
    then have "log_chars (ch # chars) \<lparr>lp_pkt = p, bytes_written = n\<rparr>
        = log_chars chars \<lparr>lp_pkt = p, bytes_written = n\<rparr>"
      by (simp add: log_chars_def)
    moreover have "m_maxDataLen p - m_dataLen p - 1 = 0" using False by simp
    ultimately show ?thesis
      using Cons.IH[OF Cons.prems] by simp
  qed
qed


lemma contents_update:
  "contents (p\<lparr>m_data := (m_data p)[i := w]\<rparr>) = (contents p)[i := w]"
  by (simp add: contents_def take_update_swap)

text \<open>The log packet after \<open>getWriteData\<close>: the level and one byte yet to be written.\<close>

lemma log_header:
  assumes "packet_wf p" "3 \<le> m_maxDataLen p"
  obtains q old where
    "bind_res (setData 0 [] (setCommand LOG p)) (\<lambda>log.
       bind_res (appendByte level log) (\<lambda>log. Inr (getWriteData 1 log))) = Inr (1, q)"
    "packet_wf q" "contents q = [level, old]" "m_command q = LOG" "m_maxDataLen q = m_maxDataLen p"
proof -
  let ?p1 = "put [level] ((setCommand LOG p)\<lparr>m_dataLen := 0\<rparr>)"
  have wf1: "packet_wf ?p1"
    using assms by (intro put_wf) simp_all
  have len1: "m_dataLen ?p1 = 1" "m_maxDataLen ?p1 = m_maxDataLen p" "contents ?p1 = [level]"
    by simp_all
  have bound: "2 \<le> length (m_data ?p1)" "m_maxDataLen p < size_range"
    using packet_wf_bounds(4)[OF wf1] assms(2) len1(2) packet_wf_bounds(3)[OF assms(1)] by linarith+
  let ?q = "?p1\<lparr>m_dataLen := 2\<rparr>"
  have "getWriteData 1 ?p1 = (1, ?q)"
    using assms(2) bound(2) len1(1) by (simp add: getWriteData_def size_add_small)
  moreover have "appendByte level ((setCommand LOG p)\<lparr>m_dataLen := 0\<rparr>) = Inr ?p1"
    using assms by (intro appendByte_put) simp_all
  moreover have "packet_wf ?q"
    using wf1 assms(2) bound(1) by (simp add: packet_wf_def del: put_fields) (simp add: put_def)
  moreover have "contents ?q = [level, m_data ?p1 ! 1]"
  proof -
    have "take 2 (m_data ?p1) = take 1 (m_data ?p1) @ [m_data ?p1 ! 1]"
      using bound(1) by (metis Suc_1 Suc_le_lessD take_Suc_conv_app_nth)
    also have "take 1 (m_data ?p1) = [level]"
      using len1(1,3) by (simp add: contents_def)
    finally show ?thesis by (simp add: contents_def)
  qed
  ultimately show thesis
    by (intro that[of ?q "m_data ?p1 ! 1"]) (simp_all add: setData_empty)
qed


text \<open>The data of a log packet with capacity \<open>n\<close>.\<close>

definition log_data :: "nat \<Rightarrow> u8 \<Rightarrow> u8 list \<Rightarrow> u8 list" where
  "log_data n level chars =
     (let kept = take (n - 3) chars in level # word_of_nat (length kept + 1) # kept @ [0])"

lemma fill_log_ok:
  assumes "packet_wf p" "3 \<le> m_maxDataLen p"
  obtains q where "fill_log level chars p = Inr q" "packet_wf q" "m_command q = LOG"
    "contents q = log_data (m_maxDataLen p) level chars" "m_maxDataLen q = m_maxDataLen p"
proof -
  let ?n = "m_maxDataLen p"
  let ?kept = "take (?n - 3) chars"
  obtain q old where q: "bind_res (setData 0 [] (setCommand LOG p)) (\<lambda>log.
       bind_res (appendByte level log) (\<lambda>log. Inr (getWriteData 1 log))) = Inr (1, q)"
    "packet_wf q" "contents q = [level, old]" "m_command q = LOG" "m_maxDataLen q = ?n"
    by (rule log_header[OF assms])
  have lq: "m_dataLen q = 2" using q(2,3) length_contents[OF q(2)] by simp
  let ?q1 = "put ?kept q"
  let ?q2 = "put [0] ?q1"
  let ?len = "word_of_nat (length ?kept + 1) :: u8"
  let ?q3 = "?q2\<lparr>m_data := (m_data ?q2)[1 := ?len]\<rparr>"
  have chars: "log_chars chars \<lparr>lp_pkt = q, bytes_written = 0\<rparr>
      = Inr \<lparr>lp_pkt = ?q1, bytes_written = length ?kept\<rparr>"
    using log_chars_put[OF q(2), of chars 0] lq q(5) assms(2) by (simp add: numeral_eq_Suc)
  have wf1: "packet_wf ?q1" using q(2,5) lq assms(2) by (intro put_wf) auto
  have room: "m_dataLen ?q1 + 1 \<le> m_maxDataLen ?q1" using lq q(5) assms(2) by simp
  have wf2: "packet_wf ?q2" by (rule put_wf[OF wf1]) (use room in simp)
  have ended: "appendByte 0 ?q1 = Inr ?q2" by (rule appendByte_put[OF wf1]) (use room in simp)
  have "1 < length (m_data ?q2)"
    using packet_wf_bounds(4)[OF wf2] q(5) assms(2) by simp
  then have len: "write_at (m_data ?q2) 1 ?len = Inr ((m_data ?q2)[1 := ?len])"
    by (rule write_at_ok)
  have run: "fill_log level chars p = Inr ?q3"
    using q(1) chars ended len by (auto simp: fill_log_def bind_res_eq_Inr)
  have "contents ?q3 = (contents ?q2)[1 := ?len]" by (rule contents_update)
  also have "contents ?q2 = [level, old] @ ?kept @ [0]"
    using q(2,3) packet_wf_bounds(2)[OF wf1] packet_wf_bounds(2)[OF q(2)] by simp
  finally have "contents ?q3 = log_data ?n level chars"
    by (simp add: log_data_def Let_def)
  moreover have "packet_wf ?q3" using wf2 by (simp add: packet_wf_def)
  ultimately show thesis
    using that[of ?q3] run q(4,5) by simp
qed

lemma do_log_writes:
  assumes "deref (packets b) (m_logPacket b) = Inr p" "packet_wf p" "3 \<le> m_maxDataLen p"
  obtains q b' where "packet_wf q" "contents q = log_data (m_maxDataLen p) level chars"
    "do_log crc vt hs level chars b = Some (Inr b')"
    "deref (packets b') (m_logPacket b) = Inr (with_crc crc q)"
    "device b' = vt_flush vt (fold (vt_writeByte vt)
      (frame_bytes crc LOG (log_data (m_maxDataLen p) level chars)) (device b))"
proof -
  obtain q where fill: "fill_log level chars p = Inr q" and q: "packet_wf q" "m_command q = LOG"
    "contents q = log_data (m_maxDataLen p) level chars" "m_maxDataLen q = m_maxDataLen p"
    by (rule fill_log_ok[OF assms(2,3)])
  let ?b = "store_packet (m_logPacket b) q b"
  have at: "deref (packets ?b) (m_logPacket b) = Inr q"
    using assms(1) by (simp add: deref_store)
  obtain e' log where w: "writePacket crc vt hs (m_logPacket b) ?b =
      Some (Inr (NONE, ?b\<lparr>m_encoder := e',
        packets := (packets ?b)(m_logPacket b \<mapsto> with_crc crc q),
        device := vt_flush vt (fold (vt_writeByte vt) (frame_bytes crc (m_command q) (contents q)) (device ?b)),
        logged := logged ?b @ log\<rparr>))"
    using writePacket_frame[OF at q(1), of crc vt hs] by metis
  have run: "do_log crc vt hs level chars b = Some (Inr (?b\<lparr>m_encoder := e',
        packets := (packets ?b)(m_logPacket b \<mapsto> with_crc crc q),
        device := vt_flush vt (fold (vt_writeByte vt) (frame_bytes crc (m_command q) (contents q)) (device ?b)),
        logged := logged ?b @ log\<rparr>))"
  proof -
    have "getLogPacket b = m_logPacket b" "m_logPacket b \<noteq> nullptr"
      using assms(1) by (simp_all add: getLogPacket_def deref_ok)
    with assms(1) fill w show ?thesis by (simp add: do_log_def)
  qed
  show thesis
    by (rule that[OF q(1,3) run]) (use q(2,3) deref_store[OF at] in simp_all)
qed

lemma log_chars_full:
  assumes "m_maxDataLen p \<le> m_dataLen p"
  shows "log_chars chars \<lparr>lp_pkt = p, bytes_written = n\<rparr> \<in>
    {Inl Assert_Failed, Inr \<lparr>lp_pkt = p, bytes_written = n\<rparr>}"
proof (induction chars)
  case Nil
  then show ?case by (simp add: log_chars_def)
next
  case (Cons ch chars)
  then show ?case
    using appendByte_full[OF assms, of ch]
    by (auto simp: log_chars_def log_char_to_packet_def)
qed

lemma do_log_aborts:
  assumes "deref (packets b) (m_logPacket b) = Inr p" "packet_wf p" "m_maxDataLen p < 3"
  shows "do_log crc vt hs level chars b = Some (Inl Assert_Failed)"
proof -
  let ?p0 = "(setCommand LOG p)\<lparr>m_dataLen := 0\<rparr>"
  have at: "deref (packets b) (getLogPacket b) = Inr p" "getLogPacket b \<noteq> nullptr"
    using assms(1) by (auto simp: getLogPacket_def deref_ok)
  show ?thesis
  proof (cases "m_maxDataLen p = 0")
    case True
    then have "appendByte level ?p0 = Inl Assert_Failed" by (intro appendByte_full) simp
    with at show ?thesis by (simp add: do_log_def fill_log_def setData_empty)
  next
    case False
    let ?p1 = "put [level] ?p0"
    let ?q = "?p1\<lparr>m_dataLen := 2\<rparr>"
    have "appendByte level ?p0 = Inr ?p1"
      using assms(2) False by (intro appendByte_put) simp_all
    moreover have "getWriteData 1 ?p1 = (1, ?q)"
      by (simp add: getWriteData_def size_add_def size_range_def)
    moreover have full: "m_maxDataLen ?q \<le> m_dataLen ?q" using assms(3) by simp
    moreover have "appendByte 0 ?q = Inl Assert_Failed" by (rule appendByte_full[OF full])
    ultimately show ?thesis
      using at log_chars_full[OF full, of chars 0] by (auto simp: do_log_def fill_log_def setData_empty)
  qed
qed

section \<open>Logging with debugging on\<close>

lemma live_log_Some:
  "live_log crc vt hs logger n calls b = Some r \<Longrightarrow> passes_infos logger \<Longrightarrow> e_debug (m_encoder b) \<Longrightarrow>
     deref (packets b) (m_logPacket b) = Inr p \<Longrightarrow> packet_wf p \<Longrightarrow> 3 \<le> m_maxDataLen p \<Longrightarrow> calls = []"
proof (induction crc vt hs logger n calls b r arbitrary: p
    rule: live_log.raw_induct[rotated, consumes 1, case_names step])
  case (step live_log crc vt hs logger n calls b r)
  show ?case
  proof (cases calls)
    case Nil
    then show ?thesis by simp
  next
    case (Cons lc later)
    obtain level chars where lc: "lc = (level, chars)" by (cases lc)
    have at: "getLogPacket b = m_logPacket b" "m_logPacket b \<noteq> nullptr"
      using step.prems(3) by (simp_all add: getLogPacket_def deref_ok)
    obtain q where q: "fill_log level chars p = Inr q" "packet_wf q" "m_maxDataLen q = m_maxDataLen p"
      by (rule fill_log_ok[OF step.prems(4,5)])
    let ?h = "(packets b)(m_logPacket b \<mapsto> q)"
    let ?h' = "?h(m_logPacket b \<mapsto> with_crc crc q)"
    let ?e = "(m_encoder b)\<lparr>e_packet := m_logPacket b, e_state := E_IDLE\<rparr>"
    let ?b1 = "b\<lparr>m_encoder := ?e\<lparr>e_state := e_state (m_encoder b)\<rparr>, packets := ?h'\<rparr>"
    have "deref ?h (m_logPacket b) = Inr q"
      using step.prems(3) by (simp add: deref_store)
    then obtain nested where start:
      "encodeStart crc (Some (bus_as_str hs)) (m_logPacket b) (m_encoder b) ?h = Inr (?e, ?h', nested)"
      using encodeStart_wf[OF _ q(2), of ?h "m_logPacket b" crc "Some (bus_as_str hs)" "m_encoder b"]
      by metis
    have "\<exists>fmt args rest. nested = Log_info fmt args # rest"
      using start step.prems(2) q(2)
      by (auto simp: encodeStart_def bind_res_eq_Inr Let_def debug_dump_def dump_def)
    then have logged: "concat (map (logger (Suc n)) nested) \<noteq> []"
      using step.prems(1) by (auto simp: passes_infos_def)
    from step.hyps step.prems(3) q(1) start at Cons lc
    obtain r1 where run: "live_log crc vt hs logger (Suc n) (concat (map (logger (Suc n)) nested)) ?b1 = Some r1"
      by (auto simp: bind_eq_Some_conv)
    have at1: "deref (packets ?b1) (m_logPacket ?b1) = Inr (with_crc crc q)"
      using step.prems(3) by (simp add: deref_ok)
    have "concat (map (logger (Suc n)) nested) = []"
      by (rule step.IH[OF run _ _ at1]) (use step.prems(1,2,5) q(2,3) in \<open>simp_all add: with_crc_def\<close>)
    with logged show ?thesis by simp
  qed
qed

text \<open>Without nested calls \<open>live_log\<close> is \<open>do_log\<close>, but for what is recorded.\<close>

lemma live_log_guarded:
  assumes "\<forall>ev. logger (Suc n) ev = []" "deref (packets b) (m_logPacket b) = Inr p" "packet_wf p" "3 \<le> m_maxDataLen p"
  shows "\<exists>b'. live_log crc vt hs logger n [(level, chars)] b = Some (Inr b') \<and>
    device b' = vt_flush vt (fold (vt_writeByte vt)
      (frame_bytes crc LOG (log_data (m_maxDataLen p) level chars)) (device b))"
proof -
  obtain q where q: "fill_log level chars p = Inr q" "packet_wf q" "m_command q = LOG"
    "contents q = log_data (m_maxDataLen p) level chars"
    by (rule fill_log_ok[OF assms(3,4)])
  let ?h = "(packets b)(m_logPacket b \<mapsto> q)"
  have at: "deref (packets b) (getLogPacket b) = Inr p" "getLogPacket b = m_logPacket b" "m_logPacket b \<noteq> nullptr"
    using assms(2) by (simp_all add: getLogPacket_def deref_ok)
  have "deref ?h (m_logPacket b) = Inr q"
    using assms(2) by (simp add: deref_store)
  then obtain e h nested where start:
    "encodeStart crc (Some (bus_as_str hs)) (m_logPacket b) (m_encoder b) ?h = Inr (e, h, nested)"
    "encoder_at h e (with_crc crc q)" "owed crc (with_crc crc q) e = frame_bytes crc LOG (contents q)" "e_state e = E_IDLE"
    using encodeStart_wf[OF _ q(2), of ?h "m_logPacket b" crc "Some (bus_as_str hs)" "m_encoder b"] q(3)
    by fastforce
  have none: "live_log crc vt hs logger (Suc n) (concat (map (logger (Suc n)) nested)) b1 = Some (Inr b1)" for b1
  proof -
    have "concat (map (logger (Suc n)) nested) = []" using assms(1) by simp
    then show ?thesis by (simp only: live_log.simps[of _ _ _ _ _ "[]"] list.case)
  qed
  have idle: "e\<lparr>e_state := e_state (m_encoder b)\<rparr>\<lparr>e_state := E_IDLE\<rparr> = e"
    using start(4) by simp
  obtain e' where "write_loop crc vt h e None (device b) = Some (Inr (NONE, e',
      fold (vt_writeByte vt) (frame_bytes crc LOG (contents q)) (device b)))"
    using write_loop_owed[OF start(2), of crc vt None "device b"] start(3) by auto
  with at q(1,4) start(1) idle show ?thesis
    by (simp add: none live_log.simps[of _ _ _ _ n "[(level, chars)]"] live_log.simps[of _ _ _ _ _ "[]"])
qed

section \<open>A logging bus for examples\<close>

definition log_bus_with :: "nat \<Rightarrow> test_device bus" where
  "log_bus_with cap =
     new_bus 10 20 30 nullptr [30 \<mapsto> blank_packet cap]
       \<lparr>m_decodeIdx = 0, m_dataToDecode = [], m_encodedData = []\<rparr> 0"

lemma log_bus_with_fields [simp]:
  "m_logPacket (log_bus_with cap) = 30" "m_encodedData (device (log_bus_with cap)) = []"
  "deref (packets (log_bus_with cap)) 30 = Inr (blank_packet cap)"
  by (simp_all add: log_bus_with_def new_bus_def deref_ok nullptr_def)

definition hello :: "u8 list" where
  "hello = [0x68, 0x65, 0x6c, 0x6c, 0x6f]"

section \<open>Properties\<close>

text \<open>C36: A log message becomes one frame: with a log packet of capacity \<open>n\<close>, at least 3,
  \<open>do_log\<close> returns after writing exactly one \<open>LOG\<close> frame with the level, a length byte, the
  first \<open>n - 3\<close> characters of the message and a terminator, whatever the length of the
  message. With a smaller log packet it aborts, and with none it does nothing.\<close>

theorem log_message_is_one_frame:
  assumes "m_logPacket b = nullptr \<or> (deref (packets b) (m_logPacket b) = Inr p \<and> packet_wf p)"
  shows "if m_logPacket b = nullptr then do_log crc vt hs level chars b = Some (Inr b)
    else if m_maxDataLen p < 3 then do_log crc vt hs level chars b = Some (Inl Assert_Failed)
    else \<exists>b'. do_log crc vt hs level chars b = Some (Inr b') \<and>
      device b' = vt_flush vt (fold (vt_writeByte vt)
        (let kept = take (m_maxDataLen p - 3) chars in
         frame_bytes crc LOG (level # word_of_nat (length kept + 1) # kept @ [0])) (device b))"
proof (cases "m_logPacket b = nullptr \<or> m_maxDataLen p < 3")
  case True
  with assms do_log_aborts[of b p] show ?thesis
    by (auto simp: do_log_def getLogPacket_def)
next
  case False
  with assms have at: "deref (packets b) (m_logPacket b) = Inr p" "packet_wf p" "3 \<le> m_maxDataLen p"
    by auto
  obtain b' where "do_log crc vt hs level chars b = Some (Inr b')"
    "device b' = vt_flush vt (fold (vt_writeByte vt)
      (frame_bytes crc LOG (log_data (m_maxDataLen p) level chars)) (device b))"
    by (rule do_log_writes[OF at])
  with False show ?thesis by (simp add: log_data_def Let_def)
qed

theorem log_message_is_one_frame_witness:
  "(\<exists>b'. do_log crc8_poly07 test_vt [] 4 hello (log_bus_with 6) = Some (Inr b') \<and>
     m_encodedData (device b') = frame_bytes crc8_poly07 LOG [4, 4, 0x68, 0x65, 0x6c, 0]) \<and>
   do_log crc8_poly07 test_vt [] 4 hello (log_bus_with 2) = Some (Inl Assert_Failed)"
proof -
  have wf: "packet_wf (blank_packet 6)" "packet_wf (blank_packet 2)"
    by (simp_all add: blank_packet_wf size_range_def)
  have kept: "take 3 hello = [0x68, 0x65, 0x6c]" by (simp add: hello_def numeral_eq_Suc)
  from log_message_is_one_frame[of "log_bus_with 6" "blank_packet 6" crc8_poly07 test_vt "[]" 4 hello]
    log_message_is_one_frame[of "log_bus_with 2" "blank_packet 2" crc8_poly07 test_vt "[]" 4 hello] wf
  show ?thesis
    by (auto simp: kept nullptr_def default_flush_def tb.writes_all_sent[simplified])
qed

text \<open>What a peer makes of a log frame: a packet with the data of a log message unpacks
  to the level and the characters that were kept, provided fewer than 255 were kept and
  none of them is a null byte.\<close>

theorem log_message_unpacks:
  assumes "deref (packets b) (m_logPacket b) = Inr p" "packet_wf p" "3 \<le> m_maxDataLen p"
    and "do_log crc vt hs level chars b = Some (Inr b')"
    and "0 \<notin> set (take (m_maxDataLen p - 3) chars)" "length (take (m_maxDataLen p - 3) chars) < 255"
  shows "\<exists>log u. deref (packets b') (m_logPacket b) = Inr log \<and>
    unpack_items [K8, KStr] (new_unpacker log)
      = Inr (Some [U8 level, Str (take (m_maxDataLen p - 3) chars)], u) \<and> u_dataRemaining u = 0"
proof -
  let ?kept = "take (m_maxDataLen p - 3) chars"
  let ?xs = "[U8 level, Str ?kept]"
  obtain q b2 where q: "packet_wf q" "contents q = log_data (m_maxDataLen p) level chars"
    "do_log crc vt hs level chars b = Some (Inr b2)"
    "deref (packets b2) (m_logPacket b) = Inr (with_crc crc q)"
    by (rule do_log_writes[OF assms(1-3)])
  with assms(4) have stored: "deref (packets b') (m_logPacket b) = Inr (with_crc crc q)" by simp
  have bytes: "contents q = items_bytes ?xs"
    using q(2) by (simp add: log_data_def string_bytes_def Let_def)
  have wf: "packet_wf (with_crc crc q)" and data: "contents (with_crc crc q) = items_bytes ?xs"
    using q(1) bytes by (simp_all add: with_crc_def)
  have "list_all item_ok ?xs" using assms(5,6) by simp
  from unpack_items_bytes[OF this unpacker_at_contents(1)[OF wf, unfolded data]]
  obtain u where "unpack_items (map kind_of ?xs) (new_unpacker (with_crc crc q)) = Inr (Some ?xs, u)"
    "u_dataRemaining u = u_dataRemaining (new_unpacker (with_crc crc q)) - length (items_bytes ?xs)"
    by blast
  moreover have "u_dataRemaining (new_unpacker (with_crc crc q)) = length (items_bytes ?xs)"
    unfolding data[symmetric] by (rule unpacker_at_contents(2)[OF wf])
  ultimately show ?thesis using stored by auto
qed

theorem log_message_unpacks_witness:
  "\<exists>b' log u. do_log crc8_poly07 test_vt [] 4 hello (log_bus_with 6) = Some (Inr b') \<and>
    deref (packets b') 30 = Inr log \<and>
    unpack_items [K8, KStr] (new_unpacker log) = Inr (Some [U8 4, Str [0x68, 0x65, 0x6c]], u)"
proof -
  have wf: "packet_wf (blank_packet 6)"
    by (simp add: blank_packet_wf size_range_def)
  have at: "deref (packets (log_bus_with 6)) (m_logPacket (log_bus_with 6)) = Inr (blank_packet 6)"
    "3 \<le> m_maxDataLen (blank_packet 6)"
    by simp_all
  have kept: "take (m_maxDataLen (blank_packet 6) - 3) hello = [0x68, 0x65, 0x6c]"
    by (simp add: hello_def numeral_eq_Suc)
  obtain b' where b': "do_log crc8_poly07 test_vt [] 4 hello (log_bus_with 6) = Some (Inr b')"
    using do_log_writes[OF at(1) wf at(2)] by metis
  from log_message_unpacks[OF at(1) wf at(2) b'] b' kept show ?thesis
    by (fastforce simp: hello_def simp del: unpack_items.simps)
qed

text \<open>C35: Debugging and a \<open>BusLog\<close> do not go together. Let the program's logger be the \<open>BusLog\<close>
  of a bus whose debugging is on (a \<open>DEBUG\<close> command from the peer is enough, see
  \<open>debug_sets_both_flags\<close>). If the logging library hands informational messages to the logger,
  also those logged while a message is being logged, then logging anything never returns:
  writing the log packet makes the encoder log its dump, which writes a log packet, without
  end. If the library drops what is logged while a message is being logged, then logging
  returns after writing the one \<open>LOG\<close> frame of the message.\<close>

theorem debug_logging_never_returns:
  assumes "e_debug (m_encoder b)" "deref (packets b) (m_logPacket b) = Inr p" "packet_wf p"
    and "3 \<le> m_maxDataLen p"
  shows "(passes_infos logger \<longrightarrow> live_log crc vt hs logger n ((level, chars) # later) b = None) \<and>
    ((\<forall>ev. logger (Suc n) ev = []) \<longrightarrow>
      (\<exists>b'. live_log crc vt hs logger n [(level, chars)] b = Some (Inr b') \<and>
        device b' = vt_flush vt (fold (vt_writeByte vt)
          (let kept = take (m_maxDataLen p - 3) chars in
           frame_bytes crc LOG (level # word_of_nat (length kept + 1) # kept @ [0])) (device b))))"
proof (intro conjI impI)
  assume "passes_infos logger"
  from live_log_Some[OF _ this assms, of crc vt hs n "(level, chars) # later"]
  show "live_log crc vt hs logger n ((level, chars) # later) b = None"
    by (cases "live_log crc vt hs logger n ((level, chars) # later) b") auto
next
  assume "\<forall>ev. logger (Suc n) ev = []"
  from live_log_guarded[where n = n and logger = logger, OF this assms(2-4), of crc vt hs level chars]
  show "\<exists>b'. live_log crc vt hs logger n [(level, chars)] b = Some (Inr b') \<and>
      device b' = vt_flush vt (fold (vt_writeByte vt)
        (let kept = take (m_maxDataLen p - 3) chars in
         frame_bytes crc LOG (level # word_of_nat (length kept + 1) # kept @ [0])) (device b))"
    by (simp add: log_data_def Let_def)
qed

text \<open>A logger that logs everything as ``hello'' at level 4, and one with a guard against re-entrance.\<close>

definition hello_logger :: "bool \<Rightarrow> log_dispatch" where
  "hello_logger guarded n ev = (if guarded \<and> 0 < n then [] else [(4, hello)])"

theorem debug_logging_never_returns_witness:
  "live_log crc8_poly07 test_vt [] (hello_logger False) 0 [(4, hello)] (setDebug True (log_bus_with 6)) = None \<and>
   (\<exists>b'. live_log crc8_poly07 test_vt [] (hello_logger True) 0 [(4, hello)] (setDebug True (log_bus_with 6)) = Some (Inr b') \<and>
     m_encodedData (device b') = frame_bytes crc8_poly07 LOG [4, 4, 0x68, 0x65, 0x6c, 0])"
proof -
  let ?b = "setDebug True (log_bus_with 6)"
  have at: "e_debug (m_encoder ?b)" "deref (packets ?b) (m_logPacket ?b) = Inr (blank_packet 6)"
    "packet_wf (blank_packet 6)" "3 \<le> m_maxDataLen (blank_packet 6)"
    by (simp_all add: setDebug_def encoder_setDebug_def blank_packet_wf size_range_def)
  have loggers: "passes_infos (hello_logger False)" "\<forall>ev. hello_logger True (Suc 0) ev = []"
    by (simp_all add: passes_infos_def hello_logger_def)
  have kept: "take (m_maxDataLen (blank_packet 6) - 3) hello = [0x68, 0x65, 0x6c]"
    by (simp add: hello_def numeral_eq_Suc)
  have sent: "m_encodedData (device ?b) = []" by (simp add: setDebug_def)
  note never = debug_logging_never_returns[OF at, of "hello_logger False" crc8_poly07 test_vt "[]" 0 4 hello "[]"]
  note once = debug_logging_never_returns[OF at, of "hello_logger True" crc8_poly07 test_vt "[]" 0 4 hello "[]", unfolded kept]
  from never once loggers sent show ?thesis
    by (auto simp: default_flush_def tb.writes_all_sent[simplified] Let_def)
qed

end
