(* ===== verification/Bus_System.thy ===== *)
theory Bus_System
  imports Bus_Log
begin

text \<open>
  The bus as a transition system: bytes arrive, packets are handled, messages are logged,
  the application fills and writes packets, debugging is switched, and the device changes
  on its own, in any order. The invariant of the bus holds in every reachable state, and
  with it the operations do not fault.
\<close>

section \<open>Steps\<close>

text \<open>
  The application may fill any packet of the store, and write it. A step stands for an
  operation that ended; what can go wrong in one is the subject of the properties.
\<close>

inductive bus_step :: "crc_fns \<Rightarrow> 's bus_vt \<Rightarrow> 's handler list \<Rightarrow> 's bus \<Rightarrow> 's bus \<Rightarrow> bool"
  for crc vt hs where
  receive_byte: "processByte crc vt hs b = Inr (err, b') \<Longrightarrow> bus_step crc vt hs b b'"
| handle_packet: "handlePacket crc vt hs b = Some (Inr (ok, b')) \<Longrightarrow> bus_step crc vt hs b b'"
| log_message: "do_log crc vt hs level chars b = Some (Inr b') \<Longrightarrow> bus_step crc vt hs b b'"
| fill_packet: "packets b a = Some q \<Longrightarrow> packet_wf p \<Longrightarrow> m_maxDataLen p = m_maxDataLen q \<Longrightarrow>
    bus_step crc vt hs b (store_packet a p b)"
| write_packet: "writePacket crc vt hs a b = Some (Inr (err, b')) \<Longrightarrow> bus_step crc vt hs b b'"
| switch_debug: "bus_step crc vt hs b (setDebug dbg b)"
| device_moves: "bus_step crc vt hs b (b\<lparr>device := s\<rparr>)"

inductive_cases bus_stepE: "bus_step crc vt hs b b'"

section \<open>The invariant\<close>

definition same_pointers :: "'s bus \<Rightarrow> 's bus \<Rightarrow> bool" where
  "same_pointers b b' \<longleftrightarrow> m_cmdPacket b' = m_cmdPacket b \<and> m_rspPacket b' = m_rspPacket b \<and>
     m_logPacket b' = m_logPacket b \<and> m_evtPacket b' = m_evtPacket b"

text \<open>The invariant, on the bus \<open>b\<close> that started as \<open>b0\<close>.\<close>

definition bus_inv :: "'s bus \<Rightarrow> 's bus \<Rightarrow> bool" where
  "bus_inv b0 b \<longleftrightarrow> bus_ok b \<and> same_pointers b0 b \<and>
     (\<forall>a. map_option m_maxDataLen (packets b a) = map_option m_maxDataLen (packets b0 a)) \<and>
     (\<forall>a p. packets b a = Some p \<longrightarrow> packet_wf p)"

text \<open>A change of packets that keeps their capacities.\<close>

definition packets_kept :: "packet_store \<Rightarrow> packet_store \<Rightarrow> bool" where
  "packets_kept h h' \<longleftrightarrow> (\<forall>a. h' a = h a \<or>
     (\<exists>p q. h a = Some q \<and> h' a = Some p \<and> packet_wf p \<and> m_maxDataLen p = m_maxDataLen q))"

lemma packets_kept_refl [simp]: "packets_kept h h"
  by (simp add: packets_kept_def)

lemma packets_kept_store:
  "h a = Some q \<Longrightarrow> packet_wf p \<Longrightarrow> m_maxDataLen p = m_maxDataLen q \<Longrightarrow> packets_kept h (h(a \<mapsto> p))"
  by (simp add: packets_kept_def)

lemma packets_kept_trans:
  assumes "packets_kept h h'" "packets_kept h' h''"
  shows "packets_kept h h''"
  unfolding packets_kept_def
proof
  fix a
  show "h'' a = h a \<or> (\<exists>p q. h a = Some q \<and> h'' a = Some p \<and> packet_wf p \<and> m_maxDataLen p = m_maxDataLen q)"
    using assms[unfolded packets_kept_def, THEN spec[of _ a]] by (elim disjE) auto
qed

lemma bus_inv_step:
  assumes "bus_inv b0 b" "same_pointers b b'" "decoder_ok (m_decoder b')"
    "packets_kept (packets b) (packets b')"
  shows "bus_inv b0 b'"
proof -
  have kept: "packets b' a = packets b a \<or>
      (\<exists>p q. packets b a = Some q \<and> packets b' a = Some p \<and> packet_wf p \<and> m_maxDataLen p = m_maxDataLen q)" for a
    using assms(4) by (simp add: packets_kept_def)
  have wf: "packet_wf p" if "packets b' a = Some p" for a p
    using kept[of a] that assms(1) by (auto simp: bus_inv_def)
  have "\<exists>p. deref (packets b') a = Inr p \<and> packet_wf p" if "deref (packets b) a = Inr q" for a q
    using that kept[of a] wf[of a] by (auto simp: deref_ok)
  then have "bus_ok b'"
    using assms(1-3) unfolding bus_inv_def bus_ok_def same_pointers_def by metis
  moreover have "map_option m_maxDataLen (packets b' a) = map_option m_maxDataLen (packets b a)" for a
    using kept[of a] by auto
  ultimately show ?thesis
    using assms(1,2) wf by (auto simp: bus_inv_def same_pointers_def)
qed

lemma bus_invD:
  assumes "bus_inv b0 b"
  shows "bus_ok b" "decoder_ok (m_decoder b)" "packets b a = Some p \<Longrightarrow> packet_wf p"
  using assms by (auto simp: bus_inv_def bus_ok_def)

lemma store_packet_inv:
  assumes "bus_inv b0 b" "packets b a = Some q" "packet_wf p" "m_maxDataLen p = m_maxDataLen q"
  shows "bus_inv b0 (store_packet a p b)"
  using assms(2-4) bus_invD(2)[OF assms(1)]
  by (intro bus_inv_step[OF assms(1)])
    (auto simp: same_pointers_def store_packet_def intro!: packets_kept_store)

section \<open>Every step keeps it\<close>

lemma processByte_inv:
  assumes "bus_inv b0 b" "processByte crc vt hs b = Inr (err, b')"
  shows "bus_inv b0 b'"
proof (cases "vt_readByte vt (device b)")
  case (Pair r s)
  show ?thesis
  proof (cases r)
    case None
    with Pair assms(2) have "b' = b\<lparr>device := s\<rparr>" by (simp add: processByte_def)
    then show ?thesis
      using assms(1) bus_invD(2)[OF assms(1)]
      by (intro bus_inv_step[OF assms(1)]) (simp_all add: same_pointers_def)
  next
    case (Some x)
    obtain p where p: "deref (packets b) (m_cmdPacket b) = Inr p" "packet_wf p"
      using bus_invD(1)[OF assms(1)] by (auto simp: bus_ok_def)
    obtain e d' p' log where step: "decodeByte crc (Some (bus_as_str hs)) x (m_decoder b) p = Inr (e, d', p', log)"
      "step_frame (m_decoder b) p d' p'"
      using decode_step_refines[OF p(2) bus_invD(2)[OF assms(1)], of crc "Some (bus_as_str hs)" x] by metis
    have "b' = received s d' p' log b"
      using assms(2) Pair Some p(1) step(1) by (simp add: processByte_def received_def)
    then show ?thesis
      using p(1) step(2)
      by (intro bus_inv_step[OF assms(1)])
        (auto simp: same_pointers_def step_frame_def deref_ok received_def log_bus_def store_packet_def
          intro!: packets_kept_store)
  qed
qed

lemma writePacket_inv:
  assumes "bus_inv b0 b" "writePacket crc vt hs a b = Some (Inr (err, b'))"
  shows "bus_inv b0 b'"
proof (cases "deref (packets b) a")
  case (Inl f)
  with assms(2) show ?thesis by (simp add: writePacket_def encodeStart_def)
next
  case (Inr p)
  then have wf: "packet_wf p" using bus_invD(3)[OF assms(1)] by (auto simp: deref_ok)
  obtain e' log where "writePacket crc vt hs a b = Some (Inr (NONE,
       b\<lparr>m_encoder := e', packets := (packets b)(a \<mapsto> with_crc crc p),
         device := vt_flush vt (fold (vt_writeByte vt)
           (frame_bytes crc (m_command p) (contents p)) (device b)),
         logged := logged b @ log\<rparr>))"
    using writePacket_frame[OF Inr wf, of crc vt hs] by metis
  with assms(2) show ?thesis
    using Inr wf bus_invD(2)[OF assms(1)]
    by (intro bus_inv_step[OF assms(1)])
      (auto simp: same_pointers_def deref_ok with_crc_def intro!: packets_kept_store)
qed


text \<open>Handlers, by the contract each of them meets.\<close>

definition contract_handlers :: "'s handler list \<Rightarrow> bool" where
  "contract_handlers hs \<longleftrightarrow> (\<forall>h \<in> set hs. \<exists>accepts. packet_handler h accepts)"

lemma handler_call:
  assumes "packet_handler h accepts" "bus_ok b"
    and "ph_handlePacket h known (m_cmdPacket b) (m_rspPacket b) b = Inr (ok, b')"
  shows "(\<not> ok \<and> b' = b) \<or> (ok \<and> bus_ok b' \<and> handler_frame b b')"
proof -
  obtain c where c: "deref (packets b) (m_cmdPacket b) = Inr c"
    using assms(2) by (auto simp: bus_ok_def)
  show ?thesis
  proof (cases "accepts (getCommand c)")
    case True
    from packet_handler.takes[OF assms(1,2) c True assms(3)] show ?thesis by blast
  next
    case False
    from packet_handler.declines[OF assms(1) c False, of known "m_rspPacket b"] assms(3)
    show ?thesis by simp
  qed
qed

lemma handler_frame_inv:
  assumes "bus_inv b0 b" "bus_ok b'" "handler_frame b b'"
  shows "bus_inv b0 b'"
proof -
  have other: "packets b' a = packets b a" if "a \<noteq> m_rspPacket b" for a
    using assms(3) that by (simp add: handler_frame_def)
  have rsp: "m_rspPacket b' = m_rspPacket b"
    using assms(3) by (simp add: handler_frame_def)
  have "packet_wf p" if "packets b' a = Some p" for a p
  proof (cases "a = m_rspPacket b")
    case True
    with that assms(2) rsp show ?thesis by (auto simp: bus_ok_def deref_ok)
  next
    case False
    with that other[OF False] bus_invD(3)[OF assms(1)] show ?thesis by auto
  qed
  then show ?thesis
    using assms unfolding bus_inv_def handler_frame_def same_pointers_def by auto
qed

lemma send_response_inv:
  assumes "bus_inv b0 b" "send_response crc vt hs b = Some (Inr (ok, b'))"
  shows "bus_inv b0 b'"
proof (cases "deref (packets b) (m_rspPacket b)")
  case (Inl f)
  with assms(2) show ?thesis by (simp add: send_response_def)
next
  case (Inr r)
  have logged: "bus_inv b0 (log_bus es b)" for es
    using bus_invD(2)[OF assms(1)]
    by (intro bus_inv_step[OF assms(1)]) (simp_all add: same_pointers_def log_bus_def)
  show ?thesis
  proof (cases "getCommand r \<noteq> 0")
    case True
    with Inr assms(2) obtain w where "writePacket crc vt hs (m_rspPacket b) b = Some w"
      "bind_res w (\<lambda>(err, b). Inr (True, b)) = Inr (ok, b')"
      by (auto simp: send_response_def)
    then obtain err where "writePacket crc vt hs (m_rspPacket b) b = Some (Inr (err, b'))"
      by (auto simp: bind_res_eq_Inr)
    from writePacket_inv[OF assms(1) this] show ?thesis .
  next
    case False
    with Inr assms logged show ?thesis
      by (auto simp: send_response_def split: if_splits)
  qed
qed

lemma dispatch_inv:
  assumes "contract_handlers todo" "bus_inv b0 b" "dispatch crc vt hs todo b = Some (Inr (ok, b'))"
  shows "bus_inv b0 b'"
  using assms
proof (induction todo arbitrary: b)
  case Nil
  have "bus_inv b0 (log_bus es b)" for es
    using bus_invD(2)[OF Nil.prems(2)]
    by (intro bus_inv_step[OF Nil.prems(2)]) (simp_all add: same_pointers_def log_bus_def)
  with Nil.prems(3) show ?case by (auto split: sum.splits)
next
  case (Cons h todo)
  obtain accepts where h: "packet_handler h accepts"
    using Cons.prems(1) by (auto simp: contract_handlers_def)
  obtain handled b1 where call: "ph_handlePacket h (ph_bus_set h) (m_cmdPacket b) (m_rspPacket b) b = Inr (handled, b1)"
    using Cons.prems(3) by (auto split: sum.splits)
  from handler_call[OF h bus_invD(1)[OF Cons.prems(2)] call] show ?case
  proof
    assume "\<not> handled \<and> b1 = b"
    with call Cons show ?thesis by (auto simp: contract_handlers_def)
  next
    assume taken: "handled \<and> bus_ok b1 \<and> handler_frame b b1"
    then have "bus_inv b0 b1" using handler_frame_inv[OF Cons.prems(2)] by blast
    moreover have "send_response crc vt hs b1 = Some (Inr (ok, b'))"
      using call Cons.prems(3) taken by simp
    ultimately show ?thesis by (rule send_response_inv)
  qed
qed

lemma emptied_inv:
  assumes "bus_inv b0 b" "deref (packets b) (m_rspPacket b) = Inr r"
  shows "bus_inv b0 (store_packet (m_rspPacket b) (emptied r) b)"
proof -
  have "packet_wf r" using assms bus_invD(3)[OF assms(1)] by (auto simp: deref_ok)
  with assms(2) show ?thesis
    by (intro store_packet_inv[OF assms(1)]) (simp_all add: deref_ok)
qed

lemma handlePacket_inv:
  assumes "contract_handlers hs" "bus_inv b0 b" "handlePacket crc vt hs b = Some (Inr (ok, b'))"
  shows "bus_inv b0 b'"
proof -
  obtain r where r: "deref (packets b) (m_rspPacket b) = Inr r"
    using bus_invD(1)[OF assms(2)] by (auto simp: bus_ok_def)
  show ?thesis
    using dispatch_inv[OF assms(1) emptied_inv[OF assms(2) r]] assms(3)
    by (simp add: handlePacket_starts_dispatch[OF r])
qed

lemma do_log_inv:
  assumes "bus_inv b0 b" "do_log crc vt hs level chars b = Some (Inr b')"
  shows "bus_inv b0 b'"
proof (cases "m_logPacket b = nullptr")
  case True
  with assms show ?thesis by (simp add: do_log_def getLogPacket_def)
next
  case False
  show ?thesis
  proof (cases "deref (packets b) (m_logPacket b)")
    case (Inl f)
    with False assms(2) show ?thesis by (simp add: do_log_def getLogPacket_def)
  next
    case (Inr p)
    then have p: "packets b (m_logPacket b) = Some p" "packet_wf p"
      using bus_invD(3)[OF assms(1)] by (auto simp: deref_ok)
    have "3 \<le> m_maxDataLen p"
      using do_log_aborts[OF Inr p(2), of crc vt hs level chars] assms(2) by fastforce
    then obtain q where q: "fill_log level chars p = Inr q" "packet_wf q" "m_maxDataLen q = m_maxDataLen p"
      using fill_log_ok[OF p(2), of level chars] by metis
    let ?b = "store_packet (m_logPacket b) q b"
    obtain r where "writePacket crc vt hs (m_logPacket b) ?b = Some r"
      "bind_res r (\<lambda>(err, b). Inr b) = Inr b'"
      using assms(2) False Inr q(1) by (auto simp: do_log_def getLogPacket_def)
    then obtain err where "writePacket crc vt hs (m_logPacket b) ?b = Some (Inr (err, b'))"
      by (auto simp: bind_res_eq_Inr)
    from writePacket_inv[OF store_packet_inv[OF assms(1) p(1) q(2,3)] this] show ?thesis .
  qed
qed

lemma setDebug_inv:
  assumes "bus_inv b0 b"
  shows "bus_inv b0 (setDebug dbg b)"
  using bus_invD(2)[OF assms]
  by (intro bus_inv_step[OF assms])
    (simp_all add: same_pointers_def setDebug_def decoder_setDebug_def decoder_ok_def)

lemma device_inv:
  assumes "bus_inv b0 b"
  shows "bus_inv b0 (b\<lparr>device := s\<rparr>)"
  using bus_invD(2)[OF assms]
  by (intro bus_inv_step[OF assms]) (simp_all add: same_pointers_def)

lemmas step_invs = processByte_inv do_log_inv store_packet_inv writePacket_inv

lemma bus_step_inv:
  assumes "bus_step crc vt hs b b'" "contract_handlers hs" "bus_inv b0 b"
  shows "bus_inv b0 b'"
  using assms(1)
  by (rule bus_stepE)
    (use assms(3) in \<open>simp_all add: step_invs[OF assms(3)] handlePacket_inv[OF assms(2,3)]
      setDebug_inv device_inv\<close>)

lemma reachable_inv:
  assumes "(bus_step crc vt hs)\<^sup>*\<^sup>* b0 b" "contract_handlers hs" "bus_inv b0 b0"
  shows "bus_inv b0 b"
  using assms(1)
  by (induction rule: rtranclp_induct) (auto intro: assms(3) bus_step_inv[OF _ assms(2)])

section \<open>The handlers of the library\<close>

lemma setBus_contract: "packet_handler h accepts \<Longrightarrow> packet_handler (setBus h) accepts"
proof -
  have "ph_handlePacket (setBus h) = ph_handlePacket h" by (simp add: setBus_def)
  then show "packet_handler h accepts \<Longrightarrow> packet_handler (setBus h) accepts"
    unfolding packet_handler_def by (simp only:)
qed

lemma core_contract: "contract_handlers [setBus (core_handler m)]"
  using setBus_contract[OF core.packet_handler_axioms] by (auto simp: contract_handlers_def)

lemma initial_inv:
  "bus_ok b \<Longrightarrow> (\<And>a p. packets b a = Some p \<Longrightarrow> packet_wf p) \<Longrightarrow> bus_inv b b"
  by (auto simp: bus_inv_def same_pointers_def)

lemma test_bus_inv: "bus_inv (test_bus data) (test_bus data)"
  by (intro initial_inv test_bus_ok)
    (auto simp: test_bus_def new_bus_def blank_packet_wf size_range_def split: if_splits)

lemma processByte_total:
  assumes "bus_inv b0 b"
  shows "\<exists>err b'. processByte crc vt hs b = Inr (err, b') \<and>
    err \<in> {NONE, NOT_DONE, CRC, TOO_MUCH_DATA, TOO_SMALL}"
proof (cases "vt_readByte vt (device b)")
  case (Pair r s)
  show ?thesis
  proof (cases r)
    case None
    with Pair show ?thesis by (simp add: processByte_def)
  next
    case (Some x)
    obtain p where p: "deref (packets b) (m_cmdPacket b) = Inr p" "packet_wf p"
      using bus_invD(1)[OF assms] by (auto simp: bus_ok_def)
    obtain out d' p' log where "decodeByte crc (Some (bus_as_str hs)) x (m_decoder b) p
        = Inr (outcome_error out, d', p', log)"
      using decode_step_refines[OF p(2) bus_invD(2)[OF assms], of crc "Some (bus_as_str hs)" x] by metis
    moreover have "outcome_error out \<in> {NONE, NOT_DONE, CRC, TOO_MUCH_DATA, TOO_SMALL}"
      by (cases out) simp_all
    ultimately show ?thesis
      using Pair Some p(1) by (simp add: processByte_def)
  qed
qed

lemma core_handlePacket_total:
  assumes "bus_inv b0 b" "deref (packets b) (m_cmdPacket b) = Inr c" "deref (packets b) (m_rspPacket b) = Inr r"
    and "m_maxDataLen c \<le> m_maxDataLen r" "20 \<le> m_maxDataLen r"
    and "\<not> (getCommand c = DEBUG \<and> length (contents c) < 4)"
  shows "\<exists>ok b'. handlePacket crc vt [setBus (core_handler m)] b = Some (Inr (ok, b'))"
proof -
  have wf: "packet_wf c" "packet_wf r" "m_cmdPacket b \<noteq> m_rspPacket b"
    using assms(2,3) bus_invD(1,3)[OF assms(1)] by (auto simp: deref_ok bus_ok_def)
  consider (ping) "getCommand c = PING" | (debug) "getCommand c = DEBUG"
    | (stack) "getCommand c = STACK_INFO" | (heap) "getCommand c = HEAP_INFO"
    | (other) "getCommand c \<notin> {PING, DEBUG, STACK_INFO, HEAP_INFO}"
    by blast
  then show ?thesis
  proof cases
    case ping
    have "m_dataLen c \<le> m_maxDataLen r" using packet_wf_bounds(1)[OF wf(1)] assms(4) by simp
    then show ?thesis
      by (metis ping_answer[OF assms(2) wf(1) ping assms(3) wf(2,3)])
  next
    case debug
    then have "4 \<le> m_dataLen c" "4 \<le> m_maxDataLen r" using assms(5,6) wf(1) by simp_all
    then show ?thesis
      by (metis debug_answer[OF assms(2) wf(1) debug assms(3) wf(2,3)])
  next
    case stack
    show ?thesis
      using stack_response_ok[OF assms(2) stack assms(3) wf(2,3), of crc vt m "[]"] assms(5) by auto
  next
    case heap
    show ?thesis
      using heap_response_ok[OF assms(2) heap assms(3) wf(2,3), of crc vt m "[]"] assms(5) by auto
  next
    case other
    show ?thesis
      using unknown_command_ok[OF assms(2,3) wf(3) other, of crc vt m] by (auto simp: add_def)
  qed
qed

section \<open>Properties\<close>

text \<open>C10: No peer and no order of events can break the bus: in every state that is reachable
  from a well-formed one by receiving bytes, handling packets (with any handlers that meet
  their contract), logging, filling and writing packets, switching debugging and changes of
  the device, the bus is still well formed, every packet has its capacity, \<open>processByte\<close>
  returns one of its documented codes without a fault, and \<open>writePacket\<close> returns \<open>NONE\<close> for
  every packet of the store.\<close>

theorem reachable_bus_never_faults:
  assumes "bus_ok b0" "\<forall>a p. packets b0 a = Some p \<longrightarrow> packet_wf p" "contract_handlers hs"
    and "(bus_step crc vt hs)\<^sup>*\<^sup>* b0 b"
  shows "bus_ok b \<and>
    (\<forall>a. map_option getMaxDataLength (packets b a) = map_option getMaxDataLength (packets b0 a)) \<and>
    (\<exists>err b'. processByte crc vt hs b = Inr (err, b') \<and>
       err \<in> {NONE, NOT_DONE, CRC, TOO_MUCH_DATA, TOO_SMALL}) \<and>
    (\<forall>a p. deref (packets b) a = Inr p \<longrightarrow>
       (\<exists>b'. writePacket crc vt hs a b = Some (Inr (NONE, b'))))"
proof -
  have inv: "bus_inv b0 b"
    using reachable_inv[OF assms(4,3) initial_inv[OF assms(1)]] assms(2) by blast
  have "\<exists>b'. writePacket crc vt hs a b = Some (Inr (NONE, b'))" if "deref (packets b) a = Inr p" for a p
  proof -
    have "packet_wf p" using that bus_invD(3)[OF inv] by (auto simp: deref_ok)
    then show ?thesis
      using writePacket_frame[OF that, of crc vt hs] by metis
  qed
  moreover have "getMaxDataLength = m_maxDataLen"
    by (simp add: getMaxDataLength_def fun_eq_iff)
  ultimately show ?thesis
    using processByte_total[OF inv, of crc vt hs] inv by (auto simp: bus_inv_def)
qed

text \<open>An \<open>END\<close> arrives on the bus of the tests, then debugging is switched on.\<close>

lemma test_bus_run:
  "\<exists>b. (bus_step crc8_poly07 test_vt [setBus (core_handler host_monitor)])\<^sup>*\<^sup>* (test_bus [0xC0]) b \<and>
     d_state (m_decoder b) = D_COMMAND \<and> d_debug (m_decoder b)"
proof -
  let ?hs = "[setBus (core_handler host_monitor)] :: test_device handler list"
  have read: "test_readByte (device (test_bus [0xC0]))
      = (Some END, (device (test_bus [0xC0]))\<lparr>m_decodeIdx := 1\<rparr>)"
    by (simp add: test_readByte_def test_isDataAvailable_def END_def)
  have "decodeByte crc8_poly07 (Some (bus_as_str ?hs)) END new_decoder (blank_packet 15)
      = Inr (NOT_DONE, new_decoder\<lparr>d_state := D_COMMAND\<rparr>, blank_packet 15, [])"
    by (simp add: decodeByte_def decode_idle_def new_decoder_def)
  with read obtain b1 where b1: "processByte crc8_poly07 test_vt ?hs (test_bus [0xC0]) = Inr (NOT_DONE, b1)"
    "d_state (m_decoder b1) = D_COMMAND"
    by (simp add: processByte_def log_bus_def new_decoder_def)
  then have "(bus_step crc8_poly07 test_vt ?hs)\<^sup>*\<^sup>* (test_bus [0xC0]) (setDebug True b1)"
    using receive_byte switch_debug by (metis (no_types) rtranclp.simps)
  with b1(2) show ?thesis
    by (auto simp: setDebug_def decoder_setDebug_def)
qed

theorem reachable_bus_never_faults_witness:
  "\<exists>b err b'. (bus_step crc8_poly07 test_vt [setBus (core_handler host_monitor)])\<^sup>*\<^sup>* (test_bus [0xC0]) b \<and>
     d_state (m_decoder b) = D_COMMAND \<and> bus_ok b \<and>
     processByte crc8_poly07 test_vt [setBus (core_handler host_monitor)] b = Inr (err, b')"
proof -
  obtain b where b: "(bus_step crc8_poly07 test_vt [setBus (core_handler host_monitor)])\<^sup>*\<^sup>* (test_bus [0xC0]) b"
    "d_state (m_decoder b) = D_COMMAND"
    using test_bus_run by blast
  have "\<forall>a p. packets (test_bus [0xC0]) a = Some p \<longrightarrow> packet_wf p"
    using bus_invD(3)[OF test_bus_inv] by blast
  from reachable_bus_never_faults[OF test_bus_ok this core_contract b(1)] b show ?thesis by blast
qed

text \<open>C11: With the core handler and a response packet of at least 20 bytes that is not smaller
  than the command packet, there is exactly one way in which \<open>handlePacket\<close> can go wrong in
  a reachable state, a \<open>DEBUG\<close> with fewer than four bytes of data; otherwise it returns.\<close>

theorem only_short_debug_faults:
  assumes "bus_ok b0" "\<forall>a p. packets b0 a = Some p \<longrightarrow> packet_wf p"
    and "(bus_step crc vt [setBus (core_handler m)])\<^sup>*\<^sup>* b0 b"
    and "deref (packets b0) (m_cmdPacket b0) = Inr c0" "deref (packets b0) (m_rspPacket b0) = Inr r0"
    and "getMaxDataLength c0 \<le> getMaxDataLength r0" "20 \<le> getMaxDataLength r0"
  shows "\<exists>c. deref (packets b) (m_cmdPacket b) = Inr c \<and>
    (if getCommand c = DEBUG \<and> length (contents c) < 4
     then handlePacket crc vt [setBus (core_handler m)] b = Some (Inl Indeterminate)
     else \<exists>ok b'. handlePacket crc vt [setBus (core_handler m)] b = Some (Inr (ok, b')))"
proof -
  have inv: "bus_inv b0 b"
    using reachable_inv[OF assms(3) core_contract initial_inv[OF assms(1)]] assms(2) by blast
  obtain c r where cr: "deref (packets b) (m_cmdPacket b) = Inr c" "packet_wf c"
    "deref (packets b) (m_rspPacket b) = Inr r" "m_cmdPacket b \<noteq> m_rspPacket b"
    using bus_invD(1)[OF inv] by (auto simp: bus_ok_def)
  have "map_option m_maxDataLen (packets b a) = map_option m_maxDataLen (packets b0 a)" for a
    using inv by (simp add: bus_inv_def)
  from this[of "m_cmdPacket b"] this[of "m_rspPacket b"] inv cr assms(4,5)
  have caps: "m_maxDataLen c = m_maxDataLen c0" "m_maxDataLen r = m_maxDataLen r0"
    by (auto simp: bus_inv_def same_pointers_def deref_ok)
  show ?thesis
  proof (cases "getCommand c = DEBUG \<and> length (contents c) < 4")
    case True
    then show ?thesis
      using short_debug_indeterminate[OF cr(1,2) _ cr(3,4), of crc vt m "[]"] cr(1) by simp
  next
    case False
    then show ?thesis
      using core_handlePacket_total[OF inv cr(1,3) _ _ False, of crc vt m] cr(1) caps assms(6,7)
      by (auto simp: getMaxDataLength_def)
  qed
qed

theorem only_short_debug_faults_witness:
  "handlePacket crc8_poly07 test_vt [setBus (core_handler host_monitor)] (asked_bus DEBUG [1] 20)
     = Some (Inl Indeterminate)"
proof -
  have ok: "bus_ok (asked_bus DEBUG [1] 20)"
    using asked_packet(1)[of "[1]" DEBUG]
    by (simp add: bus_ok_def asked_bus_def new_bus_def deref_ok nullptr_def blank_packet_wf size_range_def)
  have wf: "\<forall>a p. packets (asked_bus DEBUG [1] 20) a = Some p \<longrightarrow> packet_wf p"
    using asked_packet(1)[of "[1]" DEBUG]
    by (auto simp: asked_bus_def new_bus_def blank_packet_wf size_range_def)
  from only_short_debug_faults[OF ok wf rtranclp.rtrancl_refl, of "put [1] (setCommand DEBUG (blank_packet 15))"
      "blank_packet 20" crc8_poly07 test_vt host_monitor] asked_packet(2,3)[of "[1]" DEBUG]
  show ?thesis
    by (simp add: getMaxDataLength_def)
qed

end
