(* ===== verification/Driver.thy ===== *)
theory Driver
  imports Prelude
begin

text \<open>
  The code outside the repository that the buses call (drivers, the operating system) as a
  parameter: what a call returns is a function of the call and of the calls before it.
\<close>

section \<open>Calls of a driver\<close>

text \<open>
  The drivers are not part of the repository. A driver is a parameter: a function from the
  calls made so far, the latest first, and the next call to what that call returns. The
  state of a device is the calls it has made.
\<close>

type_synonym ('c, 'r) driver = "'c list \<Rightarrow> 'c \<Rightarrow> 'r"

definition call :: "('c, 'r) driver \<Rightarrow> 'c \<Rightarrow> 'c list \<Rightarrow> 'r \<times> 'c list" where
  "call w c cs = (w cs c, c # cs)"

text \<open>The bytes a driver has taken: \<open>bytes c r\<close> are those of a call \<open>c\<close> that returned \<open>r\<close>.\<close>

fun taken :: "('c, 'r) driver \<Rightarrow> ('c \<Rightarrow> 'r \<Rightarrow> u8 list) \<Rightarrow> 'c list \<Rightarrow> u8 list" where
  "taken w bytes [] = []"
| "taken w bytes (c # cs) = taken w bytes cs @ bytes c (w cs c)"

end
