(* ===== verification/Serial_Buses.thy ===== *)
theory Serial_Buses
  imports Driver Test_Bus
begin

text \<open>
  The two buses of the microcontroller side: \<open>ArduinoSerialBus\<close>
  (\<^verbatim>\<open>src/ArduinoSerialBus.cpp\<close>) and \<open>PicoUsbBus\<close> (\<^verbatim>\<open>src/PicoUsbBus.cpp\<close>), on the driver
  calls they make. Both are shown to be devices in the sense of \<open>byte_device\<close>, and lossless
  while the driver takes every byte and, for USB, the host has the port open.
\<close>

section \<open>ArduinoSerialBus\<close>

text \<open>The methods of \<open>HardwareSerial\<close> that are called; they return \<^verbatim>\<open>int\<close> or \<^verbatim>\<open>size_t\<close>.\<close>

datatype serial_call = S_available | S_read | S_availableForWrite | S_write u8

type_synonym serial = "(serial_call, int) driver"

definition arduino_isDataAvailable :: "serial \<Rightarrow> serial_call list \<Rightarrow> bool \<times> serial_call list" where
  "arduino_isDataAvailable w s = (let (n, s) = call w S_available s in (n > 0, s))"

definition arduino_readByte :: "serial \<Rightarrow> serial_call list \<Rightarrow> u8 option \<times> serial_call list" where
  "arduino_readByte w s =
     (let (byteRead, s) = call w S_read s in
      if byteRead < 0 then (None, s) else (Some (word_of_int byteRead), s))"

definition arduino_isSpaceAvailable :: "serial \<Rightarrow> serial_call list \<Rightarrow> bool \<times> serial_call list" where
  "arduino_isSpaceAvailable w s = (let (n, s) = call w S_availableForWrite s in (n > 0, s))"

definition arduino_writeByte :: "serial \<Rightarrow> u8 \<Rightarrow> serial_call list \<Rightarrow> serial_call list" where
  "arduino_writeByte w byte s = snd (call w (S_write byte) s)"

definition arduino_vt :: "serial \<Rightarrow> serial_call list bus_vt" where
  "arduino_vt w =
     \<lparr>vt_isDataAvailable = arduino_isDataAvailable w, vt_readByte = arduino_readByte w,
      vt_isSpaceAvailable = arduino_isSpaceAvailable w, vt_writeByte = arduino_writeByte w,
      vt_flush = default_flush, vt_isConnected = default_isConnected\<rparr>"

text \<open>\<open>HardwareSerial::write\<close> returns the number of bytes it took.\<close>

fun serial_bytes :: "serial_call \<Rightarrow> int \<Rightarrow> u8 list" where
  "serial_bytes (S_write b) n = (if n \<ge> 1 then [b] else [])"
| "serial_bytes c n = []"

definition serial_takes_all :: "serial \<Rightarrow> bool" where
  "serial_takes_all w \<longleftrightarrow> (\<forall>s b. w s (S_write b) \<ge> 1)"

interpretation arduino: lossless_device "arduino_vt w" "taken w serial_bytes" "\<lambda>s. serial_takes_all w"
  for w
  by unfold_locales
    (auto simp: arduino_vt_def arduino_writeByte_def arduino_readByte_def default_flush_def
      call_def Let_def serial_takes_all_def)

section \<open>PicoUsbBus\<close>

text \<open>
  The functions of TinyUSB that are called, each on an interface. They return a count;
  a read also fills in the byte. \<open>g_isConnected\<close> is the static array of the file.
\<close>

datatype usb_call =
    U_available u8 | U_read u8 | U_write_available u8 | U_write u8 u8 | U_write_flush u8

type_synonym usb = "(usb_call, u32 \<times> u8) driver"

record pico =
  m_intf :: u8
  g_isConnected :: "bool list"
  usb_calls :: "usb_call list"

definition new_pico :: "u8 \<Rightarrow> pico" where
  "new_pico intf = \<lparr>m_intf = intf, g_isConnected = replicate 4 False, usb_calls = []\<rparr>"

definition pico_call :: "usb \<Rightarrow> usb_call \<Rightarrow> pico \<Rightarrow> (u32 \<times> u8) \<times> pico" where
  "pico_call w c s = (let (r, cs) = call w c (usb_calls s) in (r, s\<lparr>usb_calls := cs\<rparr>))"

definition pico_isConnected :: "pico \<Rightarrow> bool" where
  "pico_isConnected s =
     (if unat (m_intf s) < length (g_isConnected s) then g_isConnected s ! unat (m_intf s) else False)"

definition pico_isDataAvailable :: "usb \<Rightarrow> pico \<Rightarrow> bool \<times> pico" where
  "pico_isDataAvailable w s =
     (let ((count, _), s) = pico_call w (U_available (m_intf s)) s in (count > 0, s))"

definition pico_readByte :: "usb \<Rightarrow> pico \<Rightarrow> u8 option \<times> pico" where
  "pico_readByte w s =
     (let ((count, byte), s) = pico_call w (U_read (m_intf s)) s in
      (if count \<ge> 1 then Some byte else None, s))"

definition pico_isSpaceAvailable :: "usb \<Rightarrow> pico \<Rightarrow> bool \<times> pico" where
  "pico_isSpaceAvailable w s =
     (let ((count, _), s) = pico_call w (U_write_available (m_intf s)) s in (count > 0, s))"

definition pico_writeByte :: "usb \<Rightarrow> u8 \<Rightarrow> pico \<Rightarrow> pico" where
  "pico_writeByte w byte s =
     (if pico_isConnected s then snd (pico_call w (U_write (m_intf s) byte) s) else s)"

definition pico_flush :: "usb \<Rightarrow> pico \<Rightarrow> pico" where
  "pico_flush w s =
     (if pico_isConnected s then snd (pico_call w (U_write_flush (m_intf s)) s) else s)"

definition tud_cdc_line_state_cb :: "u8 \<Rightarrow> bool \<Rightarrow> bool \<Rightarrow> pico \<Rightarrow> pico" where
  "tud_cdc_line_state_cb intf dtr rts s =
     (if unat intf \<ge> length (g_isConnected s) then s
      else s\<lparr>g_isConnected := (g_isConnected s)[unat intf := dtr]\<rparr>)"

definition pico_vt :: "usb \<Rightarrow> pico bus_vt" where
  "pico_vt w =
     \<lparr>vt_isDataAvailable = pico_isDataAvailable w, vt_readByte = pico_readByte w,
      vt_isSpaceAvailable = pico_isSpaceAvailable w, vt_writeByte = pico_writeByte w,
      vt_flush = pico_flush w, vt_isConnected = pico_isConnected\<rparr>"

fun usb_bytes :: "usb_call \<Rightarrow> u32 \<times> u8 \<Rightarrow> u8 list" where
  "usb_bytes (U_write i b) r = (if fst r \<ge> 1 then [b] else [])"
| "usb_bytes c r = []"

definition usb_takes_all :: "usb \<Rightarrow> bool" where
  "usb_takes_all w \<longleftrightarrow> (\<forall>cs i b. fst (w cs (U_write i b)) \<ge> 1)"

lemma pico_call_fields [simp]:
  "m_intf (snd (pico_call w c s)) = m_intf s"
  "g_isConnected (snd (pico_call w c s)) = g_isConnected s"
  "usb_calls (snd (pico_call w c s)) = c # usb_calls s"
  "fst (pico_call w c s) = w (usb_calls s) c"
  "pico_isConnected (snd (pico_call w c s)) = pico_isConnected s"
  by (simp_all add: pico_call_def call_def pico_isConnected_def)

interpretation pico: lossless_device "pico_vt w" "\<lambda>s. taken w usb_bytes (usb_calls s)"
    "\<lambda>s. pico_isConnected s \<and> usb_takes_all w" for w
  by unfold_locales
    (auto simp: pico_vt_def pico_writeByte_def pico_flush_def pico_readByte_def usb_takes_all_def
      Let_def case_prod_beta)


section \<open>Connection tracking\<close>

text \<open>A sequence of SET_CONTROL_LINE_STATE messages from the host, the first one first.\<close>

definition line_states :: "(u8 \<times> bool \<times> bool) list \<Rightarrow> pico \<Rightarrow> pico" where
  "line_states evs s = fold (\<lambda>(intf, dtr, rts). tud_cdc_line_state_cb intf dtr rts) evs s"

lemma line_state_fields [simp]:
  "m_intf (tud_cdc_line_state_cb i dtr rts s) = m_intf s"
  "usb_calls (tud_cdc_line_state_cb i dtr rts s) = usb_calls s"
  "length (g_isConnected (tud_cdc_line_state_cb i dtr rts s)) = length (g_isConnected s)"
  by (simp_all add: tud_cdc_line_state_cb_def)

lemma line_state_connected:
  "pico_isConnected (tud_cdc_line_state_cb i dtr rts s) \<longleftrightarrow>
     (if i = m_intf s \<and> unat i < length (g_isConnected s) then dtr else pico_isConnected s)"
  by (auto simp: pico_isConnected_def tud_cdc_line_state_cb_def nth_list_update unsigned_word_eqI)

lemma line_states_fields:
  "m_intf (line_states evs s) = m_intf s \<and> usb_calls (line_states evs s) = usb_calls s \<and>
   length (g_isConnected (line_states evs s)) = length (g_isConnected s)"
  unfolding line_states_def by (induction evs arbitrary: s) auto

lemma line_states_snoc:
  "line_states (evs @ [(i, dtr, rts)]) s = tud_cdc_line_state_cb i dtr rts (line_states evs s)"
  by (simp add: line_states_def)

section \<open>Properties\<close>

text \<open>A USB bus is connected exactly when its interface is one of the four that are
  tracked and the last control line message for this interface had DTR set; messages for
  other interfaces, in range or not, and the RTS line never matter.\<close>

theorem pico_connection_follows_dtr:
  "pico_isConnected (line_states evs (new_pico i)) \<longleftrightarrow>
     unat i < 4 \<and>
     (case filter (\<lambda>(intf, dtr, rts). intf = i) (rev evs) of
        [] \<Rightarrow> False
      | (intf, dtr, rts) # earlier \<Rightarrow> dtr)"
proof (induction evs rule: rev_induct)
  case Nil
  then show ?case by (simp add: line_states_def pico_isConnected_def new_pico_def)
next
  case (snoc ev evs)
  obtain j dtr rts where ev: "ev = (j, dtr, rts)" by (cases ev)
  have "m_intf (line_states evs (new_pico i)) = i"
    "length (g_isConnected (line_states evs (new_pico i))) = 4"
    using line_states_fields[of evs "new_pico i"] by (simp_all add: new_pico_def)
  then show ?case
    using snoc.IH by (auto simp: ev line_states_snoc line_state_connected)
qed

text \<open>While the host has the port open and TinyUSB takes every byte, writing a packet
  sends its whole frame, followed by one flush. While the port is closed writing a packet
  makes no USB call at all and sends nothing. The result is \<open>NONE\<close> in both cases.\<close>

theorem pico_sends_only_when_connected:
  assumes "deref (packets b) a = Inr p" "packet_wf p"
    and "pico_isConnected (device b) \<longrightarrow> usb_takes_all w"
  shows "\<exists>b'. writePacket crc (pico_vt w) hs a b = Some (Inr (NONE, b')) \<and>
    (if pico_isConnected (device b)
     then taken w usb_bytes (usb_calls (device b')) =
         taken w usb_bytes (usb_calls (device b)) @ frame_bytes crc (getCommand p) (contents p) \<and>
       hd (usb_calls (device b')) = U_write_flush (m_intf (device b))
     else device b' = device b)"
proof (cases "pico_isConnected (device b)")
  case True
  let ?fr = "frame_bytes crc (m_command p) (contents p)"
  obtain b' where b': "writePacket crc (pico_vt w) hs a b = Some (Inr (NONE, b'))"
    "taken w usb_bytes (usb_calls (device b')) = taken w usb_bytes (usb_calls (device b)) @ ?fr"
    using pico.writePacket_all_sent[OF assms(1,2), of w crc hs] True assms(3) by blast
  obtain e' log where "writePacket crc (pico_vt w) hs a b = Some (Inr (NONE,
       b\<lparr>m_encoder := e', packets := (packets b)(a \<mapsto> with_crc crc p),
         device := vt_flush (pico_vt w) (fold (vt_writeByte (pico_vt w)) ?fr (device b)),
         logged := logged b @ log\<rparr>))"
    using writePacket_frame[OF assms(1,2), of crc "pico_vt w" hs] by metis
  with b'(1) have dev: "device b' = pico_flush w (fold (pico_writeByte w) ?fr (device b))"
    by (auto simp: pico_vt_def)
  have "pico_isConnected (fold (pico_writeByte w) bs s) = pico_isConnected s \<and>
      m_intf (fold (pico_writeByte w) bs s) = m_intf s" for bs s
    by (induction bs arbitrary: s) (auto simp: pico_writeByte_def)
  then have "hd (usb_calls (device b')) = U_write_flush (m_intf (device b))"
    using True by (simp add: dev pico_flush_def)
  with b' True show ?thesis by (auto simp: getCommand_def)
next
  case False
  have "fold (pico_writeByte w) bs (device b) = device b" for bs
    using False by (induction bs) (auto simp: pico_writeByte_def)
  moreover obtain e' log where "writePacket crc (pico_vt w) hs a b = Some (Inr (NONE,
       b\<lparr>m_encoder := e', packets := (packets b)(a \<mapsto> with_crc crc p),
         device := vt_flush (pico_vt w) (fold (vt_writeByte (pico_vt w))
           (frame_bytes crc (m_command p) (contents p)) (device b)),
         logged := logged b @ log\<rparr>))"
    using writePacket_frame[OF assms(1,2), of crc "pico_vt w" hs] by metis
  ultimately show ?thesis
    using False by (simp add: pico_vt_def pico_flush_def)
qed

text \<open>A USB stack that takes every byte.\<close>

definition eager_usb :: usb where
  "eager_usb cs c = (1, 0)"

theorem pico_sends_only_when_connected_witness:
  "\<exists>b'. writePacket crc8_poly07 (pico_vt eager_usb) [] 5
      (new_bus 5 6 0 0 [5 \<mapsto> sample_packet] (line_states [(2, True, False)] (new_pico 2)) 0)
      = Some (Inr (NONE, b')) \<and>
    taken eager_usb usb_bytes (usb_calls (device b')) = [0xC0, 1, 2, 0x1b, 0xC0]"
proof -
  let ?b = "new_bus 5 6 0 0 [5 \<mapsto> sample_packet] (line_states [(2, True, False)] (new_pico 2)) 0"
  have on: "pico_isConnected (device ?b)"
    by (simp add: new_bus_def line_states_def line_state_connected new_pico_def)
  have "usb_calls (device ?b) = []"
    by (simp add: new_bus_def line_states_def new_pico_def)
  moreover have "deref (packets ?b) 5 = Inr sample_packet"
    by (simp add: deref_ok nullptr_def new_bus_def)
  moreover have "usb_takes_all eager_usb"
    by (simp add: usb_takes_all_def eager_usb_def)
  ultimately show ?thesis
    using pico_sends_only_when_connected[of ?b 5 sample_packet eager_usb crc8_poly07 "[]"] on
    by (auto simp: sample_packet_props getCommand_def frame_bytes_def slip_def frame_consts crc8_examples)
qed

text \<open>C40: Lost bytes are never reported: on a serial port \<open>writePacket\<close> returns \<open>NONE\<close>
  whatever the driver does with the bytes it is given; what the driver has taken is some
  subsequence of the frame, and the whole frame if it takes every byte.\<close>

theorem serial_losses_are_silent:
  assumes "deref (packets b) a = Inr p" "packet_wf p"
  shows "\<exists>b' xs. writePacket crc (arduino_vt w) hs a b = Some (Inr (NONE, b')) \<and>
    subseq xs (frame_bytes crc (getCommand p) (contents p)) \<and>
    taken w serial_bytes (device b') = taken w serial_bytes (device b) @ xs \<and>
    (serial_takes_all w \<longrightarrow> xs = frame_bytes crc (getCommand p) (contents p))"
proof -
  obtain b' where b': "writePacket crc (arduino_vt w) hs a b = Some (Inr (NONE, b'))"
    using writePacket_frame[OF assms, of crc "arduino_vt w" hs] by metis
  obtain xs where xs: "subseq xs (frame_bytes crc (getCommand p) (contents p))"
    "taken w serial_bytes (device b') = taken w serial_bytes (device b) @ xs"
    using arduino.writePacket_sent[OF assms b'] by (auto simp: getCommand_def)
  have "xs = frame_bytes crc (getCommand p) (contents p)" if up: "serial_takes_all w"
    using arduino.writePacket_all_sent[OF assms up, of crc hs] b' xs(2)
    by (auto simp: getCommand_def)
  with b' xs show ?thesis by blast
qed

definition deaf_serial :: serial where
  "deaf_serial cs c = 0"

theorem serial_losses_are_silent_witness:
  "\<exists>b'. writePacket crc8_poly07 (arduino_vt deaf_serial) [] 5 (new_bus 5 6 0 0 [5 \<mapsto> sample_packet] [] 0)
      = Some (Inr (NONE, b')) \<and> taken deaf_serial serial_bytes (device b') = []"
proof -
  have none: "taken deaf_serial serial_bytes cs = []" for cs
  proof (induction cs)
    case (Cons c cs)
    then show ?case by (cases c) (simp_all add: deaf_serial_def)
  qed simp
  have "deref (packets (new_bus 5 6 0 0 [5 \<mapsto> sample_packet] ([] :: serial_call list) 0)) 5 = Inr sample_packet"
    by (simp add: deref_ok nullptr_def new_bus_def)
  from serial_losses_are_silent[OF this sample_packet_props(1), of crc8_poly07 deaf_serial "[]"] none
  show ?thesis by auto
qed

end
