(* ===== verification/Os.thy ===== *)
theory Os
  imports Driver "HOL-Library.Multiset"
begin

text \<open>
  The system and library calls of \<^verbatim>\<open>src/LinuxSerialBus.cpp\<close> and \<^verbatim>\<open>src/SocketBus.cpp\<close>, with
  the descriptors and address lists that a sequence of calls leaves open.
\<close>

section \<open>Data that is passed\<close>

text \<open>\<open>struct sockaddr\<close>, either family; the port is in network byte order.\<close>

record sockaddr =
  sin_family :: int
  sin_port :: u16
  sin_addr :: "u8 list"

record addrinfo =
  ai_family :: int
  ai_socktype :: int
  ai_protocol :: int
  ai_addr :: sockaddr

record termios =
  c_iflag :: u32
  c_oflag :: u32
  c_cflag :: u32
  c_lflag :: u32
  c_cc :: "u8 list"
  c_ispeed :: u32
  c_ospeed :: u32

text \<open>The values the headers of Linux give the constants.\<close>

definition AF_UNSPEC :: int where "AF_UNSPEC = 0"
definition AF_INET :: int where "AF_INET = 2"
definition AF_INET6 :: int where "AF_INET6 = 10"
definition SOCK_STREAM :: int where "SOCK_STREAM = 1"
definition O_NONBLOCK :: int where "O_NONBLOCK = 2048"
definition CS8 :: u32 where "CS8 = 0x30"
definition CREAD :: u32 where "CREAD = 0x80"
definition CLOCAL :: u32 where "CLOCAL = 0x800"
definition VTIME :: nat where "VTIME = 5"
definition VMIN :: nat where "VMIN = 6"

section \<open>The calls\<close>

text \<open>
  Output through \<open>printf\<close> and \<open>Log\<close> is part of the sequence. An argument of \<open>Printf\<close> is
  \<open>None\<close> when the code passes a variable that was never written.
\<close>

datatype poll_event = POLLIN | POLLOUT

datatype os_call =
    Open_port string
  | Tcgetattr int
  | Cfsetispeed termios u32
  | Cfsetospeed termios u32
  | Tcsetattr int termios
  | Read int
  | Write int u8
  | Close int
  | Poll int poll_event
  | Printf string "u8 option list"
  | Fflush
  | Log_call log_event
  | Getaddrinfo "string option" string int int
  | Freeaddrinfo
  | Socket int int int
  | Setsockopt_reuseaddr int
  | Bind int sockaddr
  | Connect int sockaddr
  | Listen int int
  | Accept int
  | Fcntl_getfl int
  | Fcntl_setfl int int
  | Inet_ntop int "u8 list"
  | Recv int
  | Send int u8

text \<open>
  What a call returns: its result, the text for \<open>errno\<close> (or for the result of
  \<open>getaddrinfo\<close>), and what it writes through its pointer arguments.
\<close>

record os_reply =
  rc :: int
  err_text :: string
  out_byte :: u8
  out_attr :: termios
  out_infos :: "addrinfo list"
  out_peer :: sockaddr
  out_text :: string

definition newline :: string where
  "newline = [CHR 0x0A]"

type_synonym os = "(os_call, os_reply) driver"

definition log_error :: "os \<Rightarrow> string \<Rightarrow> log_arg list \<Rightarrow> os_call list \<Rightarrow> os_call list" where
  "log_error w fmt args cs = snd (call w (Log_call (Log_error fmt args)) cs)"

definition log_info :: "os \<Rightarrow> string \<Rightarrow> log_arg list \<Rightarrow> os_call list \<Rightarrow> os_call list" where
  "log_info w fmt args cs = snd (call w (Log_call (Log_info fmt args)) cs)"

definition close_fd :: "os \<Rightarrow> int \<Rightarrow> os_call list \<Rightarrow> os_call list" where
  "close_fd w fd cs = snd (call w (Close fd) cs)"

section \<open>What is left open\<close>

fun opens :: "os_call \<Rightarrow> bool" where
  "opens (Open_port n) = True"
| "opens (Socket f t p) = True"
| "opens (Accept fd) = True"
| "opens c = False"

text \<open>The descriptors a sequence of calls leaves open.\<close>

fun fds :: "os \<Rightarrow> os_call list \<Rightarrow> int multiset" where
  "fds w [] = {#}"
| "fds w (c # cs) =
     (if opens c then (if rc (w cs c) \<ge> 0 then add_mset (rc (w cs c)) (fds w cs) else fds w cs)
      else case c of Close fd \<Rightarrow> fds w cs - {#fd#} | _ \<Rightarrow> fds w cs)"

text \<open>How many address lists of \<open>getaddrinfo\<close> it leaves allocated.\<close>

fun infos :: "os \<Rightarrow> os_call list \<Rightarrow> int" where
  "infos w [] = 0"
| "infos w (c # cs) =
     (case c of
        Getaddrinfo node port family socktype \<Rightarrow> (if rc (w cs c) = 0 then infos w cs + 1 else infos w cs)
      | Freeaddrinfo \<Rightarrow> infos w cs - 1
      | _ \<Rightarrow> infos w cs)"

text \<open>How often it closes a descriptor that is not open.\<close>

fun bad_closes :: "os \<Rightarrow> os_call list \<Rightarrow> nat" where
  "bad_closes w [] = 0"
| "bad_closes w (c # cs) =
     (case c of Close fd \<Rightarrow> bad_closes w cs + (if fd \<in># fds w cs then 0 else 1) | _ \<Rightarrow> bad_closes w cs)"

text \<open>The system hands out a descriptor that is not open (POSIX).\<close>

definition os_fresh :: "os \<Rightarrow> bool" where
  "os_fresh w \<longleftrightarrow> (\<forall>cs c. opens c \<longrightarrow> rc (w cs c) \<notin># fds w cs)"

text \<open>\<open>write\<close> and \<open>send\<close> return the number of bytes taken.\<close>

fun os_bytes :: "os_call \<Rightarrow> os_reply \<Rightarrow> u8 list" where
  "os_bytes (Write fd b) r = (if rc r \<ge> 1 then [b] else [])"
| "os_bytes (Send fd b) r = (if rc r \<ge> 1 then [b] else [])"
| "os_bytes c r = []"

definition os_takes_all :: "os \<Rightarrow> bool" where
  "os_takes_all w \<longleftrightarrow> (\<forall>cs fd b. rc (w cs (Write fd b)) \<ge> 1 \<and> rc (w cs (Send fd b)) \<ge> 1)"

lemma call_simps [simp]: "fst (call w c cs) = w cs c" "snd (call w c cs) = c # cs"
  by (simp_all add: call_def)

lemma log_close_simps [simp]:
  "log_error w fmt args cs = Log_call (Log_error fmt args) # cs"
  "log_info w fmt args cs = Log_call (Log_info fmt args) # cs"
  "close_fd w fd cs = Close fd # cs"
  by (simp_all add: log_error_def log_info_def close_fd_def)

section \<open>An example\<close>

text \<open>
  An operating system that numbers its descriptors on, fails exactly the calls \<open>bad\<close>, and
  knows one address.
\<close>

definition example_addr :: sockaddr where
  "example_addr = \<lparr>sin_family = AF_INET6, sin_port = 0xB822, sin_addr = replicate 15 0 @ [1]\<rparr>"

definition example_os :: "(os_call \<Rightarrow> bool) \<Rightarrow> os" where
  "example_os bad cs c =
     \<lparr>rc = (if bad c then -1 else if opens c then 3 + int (length cs) else 0),
      err_text = ''EIO'', out_byte = 0x41,
      out_attr = \<lparr>c_iflag = 0, c_oflag = 0, c_cflag = 0, c_lflag = 0, c_cc = replicate 32 0,
                  c_ispeed = 0, c_ospeed = 0\<rparr>,
      out_infos = [\<lparr>ai_family = AF_INET6, ai_socktype = SOCK_STREAM, ai_protocol = 6, ai_addr = example_addr\<rparr>],
      out_peer = example_addr, out_text = ''::1''\<rparr>"

lemma example_os_below: "fd \<in># fds (example_os bad) cs \<Longrightarrow> fd < 3 + int (length cs)"
proof (induction cs)
  case Nil
  then show ?case by simp
next
  case (Cons c cs)
  then show ?case
    by (cases c) (auto simp: example_os_def split: if_splits dest: in_diffD)
qed

lemma fds_nonneg: "fd \<in># fds w cs \<Longrightarrow> 0 \<le> fd"
proof (induction cs)
  case Nil
  then show ?case by simp
next
  case (Cons c cs)
  then show ?case
    by (cases c) (auto split: if_splits dest: in_diffD)
qed

lemma example_os_fresh: "os_fresh (example_os bad)"
  unfolding os_fresh_def
proof (intro allI impI notI)
  fix cs c
  assume "rc (example_os bad cs c) \<in># fds (example_os bad) cs" "opens c"
  with example_os_below[OF this(1)] fds_nonneg[OF this(1)] show False
    by (auto simp: example_os_def split: if_splits)
qed

end
