(* ===== verification/Linux_Serial.thy ===== *)
theory Linux_Serial
  imports Os Test_Bus
begin

text \<open>
  The class \<open>LinuxSerialBus\<close> of \<^verbatim>\<open>src/LinuxSerialBus.cpp\<close> on the calls of \<open>Os\<close>: opening and
  setting up the port, the byte operations, and the descriptor's life.
\<close>

section \<open>State\<close>

record linux_serial =
  m_portName :: "string option"
  m_serial :: int
  os_calls :: "os_call list"

definition new_linux_serial :: "os_call list \<Rightarrow> linux_serial" where
  "new_linux_serial cs = \<lparr>m_portName = None, m_serial = -1, os_calls = cs\<rparr>"

definition linux_destroy :: "os \<Rightarrow> linux_serial \<Rightarrow> linux_serial" where
  "linux_destroy w s =
     (if m_serial s \<ge> 0 then s\<lparr>os_calls := close_fd w (m_serial s) (os_calls s)\<rparr> else s)"

definition serial_fd :: "linux_serial \<Rightarrow> int" where
  "serial_fd s = m_serial s"

section \<open>Opening the port\<close>

text \<open>The attributes the code asks for, on those it was given.\<close>

definition raw_attr :: "termios \<Rightarrow> termios" where
  "raw_attr attr =
     (let attr = attr\<lparr>c_iflag := 0, c_oflag := 0, c_cflag := or CLOCAL (or CREAD CS8), c_lflag := 0\<rparr>;
          attr = attr\<lparr>c_cc := (c_cc attr)[VTIME := 0]\<rparr> in
      attr\<lparr>c_cc := (c_cc attr)[VMIN := 1]\<rparr>)"

definition linux_open :: "os \<Rightarrow> string \<Rightarrow> u32 \<Rightarrow> linux_serial \<Rightarrow> error \<times> linux_serial" where
  "linux_open w portName baudRate s =
     (let (r, cs) = call w (Open_port portName) (os_calls s);
          s = s\<lparr>m_serial := rc r\<rparr> in
      if rc r < 0 then
        (OS, s\<lparr>os_calls := log_error w ''Unable to open serial port '%s': %s''
                [A_Str portName, A_Str (err_text r)] cs\<rparr>)
      else
        let (r, cs) = call w (Tcgetattr (m_serial s)) cs in
        if rc r < 0 then
          (OS, s\<lparr>os_calls := log_error w (''Call to tcgetattr failed: %s'' @ newline) [A_Str (err_text r)] cs\<rparr>)
        else
          let attr = raw_attr (out_attr r);
              (r, cs) = call w (Cfsetispeed attr baudRate) cs;
              attr = out_attr r;
              (r, cs) = call w (Cfsetospeed attr baudRate) cs;
              attr = out_attr r;
              (r, cs) = call w (Tcsetattr (m_serial s) attr) cs in
          if rc r < 0 then
            (OS, s\<lparr>os_calls := log_error w (''Call to tcsetattr failed: %s'' @ newline) [A_Str (err_text r)] cs\<rparr>)
          else (NONE, s\<lparr>os_calls := cs\<rparr>))"

section \<open>The byte operations\<close>

definition linux_isDataAvailable :: "os \<Rightarrow> linux_serial \<Rightarrow> bool \<times> linux_serial" where
  "linux_isDataAvailable w s =
     (let (r, cs) = call w (Poll (m_serial s) POLLIN) (os_calls s) in (rc r > 0, s\<lparr>os_calls := cs\<rparr>))"

text \<open>
  \<open>byte\<close> is what the caller's variable holds, \<open>None\<close> when it was never written. The method
  returns true when the result is \<open>Some\<close>, and prints the variable in any case.
\<close>

definition linux_readByte :: "os \<Rightarrow> u8 option \<Rightarrow> linux_serial \<Rightarrow> u8 option \<times> linux_serial" where
  "linux_readByte w byte s =
     (let (_, cs) = call w (Printf ''Reading ...'' []) (os_calls s);
          (_, cs) = call w Fflush cs;
          (r, cs) = call w (Read (m_serial s)) cs;
          byte = (if rc r \<ge> 1 then Some (out_byte r) else byte);
          (_, cs) = call w (Printf ('' 0x%02x'' @ newline) [byte]) cs in
      (if rc r = 1 then byte else None, s\<lparr>os_calls := cs\<rparr>))"

definition linux_isSpaceAvailable :: "os \<Rightarrow> linux_serial \<Rightarrow> bool \<times> linux_serial" where
  "linux_isSpaceAvailable w s =
     (let (r, cs) = call w (Poll (m_serial s) POLLOUT) (os_calls s) in (rc r > 0, s\<lparr>os_calls := cs\<rparr>))"

definition linux_writeByte :: "os \<Rightarrow> u8 \<Rightarrow> linux_serial \<Rightarrow> linux_serial" where
  "linux_writeByte w byte s =
     (let (_, cs) = call w (Printf ''Writing 0x%02x ...'' [Some byte]) (os_calls s);
          (_, cs) = call w (Write (m_serial s) byte) cs;
          (_, cs) = call w (Printf newline []) cs in
      s\<lparr>os_calls := cs\<rparr>)"

text \<open>In \<open>processByte\<close> the variable is a fresh local one.\<close>

definition linux_vt :: "os \<Rightarrow> linux_serial bus_vt" where
  "linux_vt w =
     \<lparr>vt_isDataAvailable = linux_isDataAvailable w, vt_readByte = linux_readByte w None,
      vt_isSpaceAvailable = linux_isSpaceAvailable w, vt_writeByte = linux_writeByte w,
      vt_flush = default_flush, vt_isConnected = default_isConnected\<rparr>"

interpretation linux: lossless_device "linux_vt w" "\<lambda>s. taken w os_bytes (os_calls s)"
    "\<lambda>s. os_takes_all w" for w
  by unfold_locales
    (auto simp: linux_vt_def linux_writeByte_def linux_readByte_def default_flush_def
      os_takes_all_def Let_def case_prod_beta)


section \<open>Descriptors\<close>

lemma linux_open_fds:
  "fds w (os_calls (snd (linux_open w name baud s))) =
     (if m_serial (snd (linux_open w name baud s)) \<ge> 0
      then add_mset (m_serial (snd (linux_open w name baud s))) (fds w (os_calls s))
      else fds w (os_calls s))"
  "bad_closes w (os_calls (snd (linux_open w name baud s))) = bad_closes w (os_calls s)"
  "fst (linux_open w name baud s) = NONE \<Longrightarrow> m_serial (snd (linux_open w name baud s)) \<ge> 0"
  by (auto simp: linux_open_def Let_def case_prod_beta)

section \<open>Properties\<close>

text \<open>A serial port object that is opened once, with whatever result, and destroyed leaves
  exactly the descriptors open that were open before, and closes none that was not open: a
  descriptor that survives a failed setup is closed by the destructor.\<close>

theorem linux_open_destroy_balances:
  "let s1 = snd (linux_open w name baud (new_linux_serial cs)); s2 = linux_destroy w s1 in
   fds w (os_calls s2) = fds w cs \<and> bad_closes w (os_calls s2) = bad_closes w cs"
  using linux_open_fds[of w name baud "new_linux_serial cs"]
  by (auto simp: linux_destroy_def Let_def new_linux_serial_def)

text \<open>Opening a port again on the same object leaks the first descriptor: \<open>open\<close>
  overwrites it, so that after the second \<open>open\<close>, whatever its result, and the destructor
  the first descriptor is still open.\<close>

theorem linux_reopen_leaks:
  assumes "s1 = snd (linux_open w name1 baud1 (new_linux_serial cs))" "m_serial s1 \<ge> 0"
    and "s2 = linux_destroy w (snd (linux_open w name2 baud2 s1))"
  shows "fds w (os_calls s2) = add_mset (m_serial s1) (fds w cs)"
  using linux_open_fds(1)[of w name1 baud1 "new_linux_serial cs"]
    linux_open_fds(1)[of w name2 baud2 s1] assms
  by (auto simp: linux_destroy_def new_linux_serial_def add_mset_commute)

theorem linux_reopen_leaks_witness:
  "fds (example_os (\<lambda>c. False)) (os_calls (linux_destroy (example_os (\<lambda>c. False)) (snd (linux_open (example_os (\<lambda>c. False)) ''b'' 9600
     (snd (linux_open (example_os (\<lambda>c. False)) ''a'' 9600 (new_linux_serial []))))))) = {#3#}"
  using linux_reopen_leaks[OF refl _ refl, of "example_os (\<lambda>c. False)" "''a''" 9600 "[]" "''b''" 9600]
  by (simp add: linux_open_def example_os_def new_linux_serial_def Let_def case_prod_beta)

text \<open>When \<open>read\<close> delivers nothing, \<open>processByte\<close> returns \<open>NOT_DONE\<close> and leaves decoder,
  packets and log alone, but \<open>readByte\<close> has already printed a byte that nobody wrote.\<close>

theorem linux_prints_unread_byte:
  assumes "cs = Fflush # Printf ''Reading ...'' [] # os_calls (device b)"
    and "rc (w cs (Read (m_serial (device b)))) < 1"
  shows "processByte crc (linux_vt w) hs b = Inr (NOT_DONE,
    b\<lparr>device := (device b)\<lparr>os_calls :=
      Printf ('' 0x%02x'' @ newline) [None] # Read (m_serial (device b)) # cs\<rparr>\<rparr>)"
  using assms
  by (simp add: processByte_def linux_vt_def linux_readByte_def Let_def case_prod_beta)

theorem linux_prints_unread_byte_witness:
  "\<exists>b'. processByte crc8_poly07 (linux_vt (example_os (\<lambda>c. False))) []
      (new_bus 10 20 nullptr nullptr Map.empty (new_linux_serial []) 0) = Inr (NOT_DONE, b') \<and>
    hd (os_calls (device b')) = Printf ('' 0x%02x'' @ newline) [None]"
  using linux_prints_unread_byte[OF refl, of "example_os (\<lambda>c. False)" "new_bus 10 20 nullptr nullptr Map.empty (new_linux_serial []) 0"
      crc8_poly07 "[]"]
  by (simp add: example_os_def)

end
