(* ===== verification/Socket_Bus.thy ===== *)
theory Socket_Bus
  imports Os Test_Bus
begin

text \<open>
  The class \<open>SocketBus\<close> of \<^verbatim>\<open>src/SocketBus.cpp\<close> on the calls of \<open>Os\<close>: setting up a server,
  connecting to one, the byte operations, and which descriptors and address lists the two
  set-up functions leave behind.
\<close>

section \<open>State\<close>

definition INVALID_SOCKET :: int where "INVALID_SOCKET = -1"

record socket_dev =
  m_socket :: int
  sock_calls :: "os_call list"

definition new_socket_dev :: "os_call list \<Rightarrow> socket_dev" where
  "new_socket_dev cs = \<lparr>m_socket = INVALID_SOCKET, sock_calls = cs\<rparr>"

definition socket_destroy :: "os \<Rightarrow> socket_dev \<Rightarrow> socket_dev" where
  "socket_destroy w s =
     s\<lparr>sock_calls := close_fd w (m_socket s)
         (log_info w ''Closing socket: %d'' [A_Int (m_socket s)] (sock_calls s))\<rparr>"

definition socket_fd :: "socket_dev \<Rightarrow> int" where
  "socket_fd s = m_socket s"

section \<open>Printing addresses\<close>

text \<open>\<open>ntohs\<close> on a little-endian host.\<close>

definition ntohs :: "u16 \<Rightarrow> u16" where
  "ntohs p = or (push_bit 8 p) (drop_bit 8 p)"

definition printAddrInfo_raw ::
    "os \<Rightarrow> string \<Rightarrow> int \<Rightarrow> u8 list \<Rightarrow> int \<Rightarrow> os_call list \<Rightarrow> os_call list" where
  "printAddrInfo_raw w label family addr port cs =
     (let familyStr = (if family = AF_INET6 then ''6'' else ''4'');
          (r, cs) = call w (Inet_ntop family addr) cs in
      log_info w ''%s IPv%s [%s]:%d''
        [A_Str label, A_Str familyStr, A_Str (out_text r), A_Int port] cs)"

definition printAddrInfo_ai :: "os \<Rightarrow> string \<Rightarrow> addrinfo \<Rightarrow> os_call list \<Rightarrow> os_call list" where
  "printAddrInfo_ai w label ai cs =
     (if ai_family ai = AF_INET \<or> ai_family ai = AF_INET6 then
        printAddrInfo_raw w label (ai_family ai) (sin_addr (ai_addr ai))
          (uint (ntohs (sin_port (ai_addr ai)))) cs
      else log_error w (''Unrecognized ai_family: %d'' @ newline) [A_Int (ai_family ai)] cs)"

definition printAddrInfo_addr :: "os \<Rightarrow> string \<Rightarrow> sockaddr \<Rightarrow> os_call list \<Rightarrow> os_call list" where
  "printAddrInfo_addr w label addr cs =
     (if sin_family addr = AF_INET \<or> sin_family addr = AF_INET6 then
        printAddrInfo_raw w label (sin_family addr) (sin_addr addr) (uint (ntohs (sin_port addr))) cs
      else log_error w (''Unrecognized family: %d'' @ newline) [A_Int (sin_family addr)] cs)"

section \<open>Non-blocking mode\<close>

definition makeSocketNonBlocking :: "os \<Rightarrow> int \<Rightarrow> os_call list \<Rightarrow> error \<times> os_call list" where
  "makeSocketNonBlocking w skt cs =
     (let (r, cs) = call w (Fcntl_getfl skt) cs;
          flags = or (rc r) O_NONBLOCK;
          (r, cs) = call w (Fcntl_setfl skt flags) cs in
      if rc r < 0 then
        (OS, log_error w ''Failed to make socket non-blocking: %s'' [A_Str (err_text r)] cs)
      else (NONE, cs))"

section \<open>Setting up a server\<close>

text \<open>
  How the loop over the addresses ends: at an address that could be bound, with an early
  return, or at the end of the list; then the variable for the socket holds what the last
  round left in it, \<open>None\<close> when there was no round.
\<close>

datatype loop_end = Found int | Returned | Exhausted "int option"

fun server_loop ::
    "os \<Rightarrow> addrinfo list \<Rightarrow> int option \<Rightarrow> os_call list \<Rightarrow> loop_end \<times> os_call list" where
  "server_loop w [] listenSocket cs = (Exhausted listenSocket, cs)"
| "server_loop w (info # rest) listenSocket cs =
     (let (r, cs) = call w (Socket (ai_family info) (ai_socktype info) (ai_protocol info)) cs;
          listenSocket = rc r in
      if listenSocket < 0 then
        server_loop w rest (Some listenSocket)
          (log_error w ''Failed to create socket: %s'' [A_Str (err_text r)] cs)
      else
        let (r, cs) = call w (Setsockopt_reuseaddr listenSocket) cs in
        if rc r < 0 then
          (Returned, close_fd w listenSocket
            (log_error w ''Failed to set REUSEADDR socket option: %s'' [A_Str (err_text r)] cs))
        else
          let (r, cs) = call w (Bind listenSocket (ai_addr info)) cs in
          if rc r < 0 then
            server_loop w rest (Some listenSocket) (close_fd w listenSocket
              (log_error w ''bind failed: %s'' [A_Str (err_text r)] cs))
          else (Found listenSocket, cs))"

text \<open>From \<open>listen\<close> on.\<close>

definition serve :: "os \<Rightarrow> string \<Rightarrow> int \<Rightarrow> socket_dev \<Rightarrow> error \<times> socket_dev" where
  "serve w portStr listenSocket s =
     (let cs = log_info w ''Listening on port %s ...'' [A_Str portStr] (sock_calls s);
          (r, cs) = call w (Listen listenSocket 1) cs in
      if rc r < 0 then
        (OS, s\<lparr>sock_calls := close_fd w listenSocket
          (log_error w ''Failed to listen for incoming connection: %s'' [A_Str (err_text r)] cs)\<rparr>)
      else
        let (r, cs) = call w (Accept listenSocket) cs;
            clientSocket = rc r; client = out_peer r in
        if clientSocket < 0 then
          (OS, s\<lparr>sock_calls := close_fd w listenSocket
            (log_error w ''Failed to accept incoming connection: %s'' [A_Str (err_text r)] cs)\<rparr>)
        else
          let (err, cs) = makeSocketNonBlocking w clientSocket cs in
          if err \<noteq> NONE then (err, s\<lparr>sock_calls := cs\<rparr>)
          else
            let cs = close_fd w listenSocket cs;
                cs = printAddrInfo_addr w ''Accepted connection from'' client cs in
            (NONE, s\<lparr>m_socket := clientSocket, sock_calls := cs\<rparr>))"

definition setupServer :: "os \<Rightarrow> string \<Rightarrow> socket_dev \<Rightarrow> (error \<times> socket_dev) res" where
  "setupServer w portStr s =
     (let (r, cs) = call w (Getaddrinfo None portStr AF_INET6 SOCK_STREAM) (sock_calls s) in
      if rc r \<noteq> 0 then
        Inr (OS, s\<lparr>sock_calls := log_error w ''getaddrinfo failed: %s'' [A_Str (err_text r)] cs\<rparr>)
      else
        case server_loop w (out_infos r) None cs of
          (Returned, cs) \<Rightarrow> Inr (OS, s\<lparr>sock_calls := cs\<rparr>)
        | (Exhausted listenSocket, cs) \<Rightarrow>
            let cs = log_error w ''No IP Address found for binding'' [] cs;
                (_, cs) = call w Freeaddrinfo cs in
            (case listenSocket of
               None \<Rightarrow> Inl Indeterminate
             | Some listenSocket \<Rightarrow> Inr (OS, s\<lparr>sock_calls := close_fd w listenSocket cs\<rparr>))
        | (Found listenSocket, cs) \<Rightarrow>
            let (_, cs) = call w Freeaddrinfo cs in
            Inr (serve w portStr listenSocket (s\<lparr>sock_calls := cs\<rparr>)))"

section \<open>Connecting to a server\<close>

text \<open>The loop ends with \<open>Inr\<close> of an address and its socket, or at the end of the list.\<close>

fun connect_loop ::
    "os \<Rightarrow> addrinfo list \<Rightarrow> int option \<Rightarrow> os_call list \<Rightarrow>
     (int option + addrinfo \<times> int) \<times> os_call list" where
  "connect_loop w [] serverSocket cs = (Inl serverSocket, cs)"
| "connect_loop w (info # rest) serverSocket cs =
     (let cs = printAddrInfo_ai w ''Trying'' info cs;
          (r, cs) = call w (Socket (ai_family info) (ai_socktype info) (ai_protocol info)) cs;
          serverSocket = rc r in
      if serverSocket < 0 then
        connect_loop w rest (Some serverSocket)
          (log_error w ''Failed to create socket: %s'' [A_Str (err_text r)] cs)
      else
        let (r, cs) = call w (Connect serverSocket (ai_addr info)) cs in
        if rc r < 0 then
          connect_loop w rest (Some serverSocket) (close_fd w serverSocket
            (log_error w ''connect failed: %s'' [A_Str (err_text r)] cs))
        else (Inr (info, serverSocket), cs))"

definition connectToServer :: "os \<Rightarrow> string \<Rightarrow> string \<Rightarrow> socket_dev \<Rightarrow> (error \<times> socket_dev) res" where
  "connectToServer w server portStr s =
     (let (r, cs) = call w (Getaddrinfo (Some server) portStr AF_UNSPEC SOCK_STREAM) (sock_calls s) in
      if rc r \<noteq> 0 then
        Inr (OS, s\<lparr>sock_calls := log_error w ''getaddrinfo failed: %s'' [A_Str (err_text r)] cs\<rparr>)
      else
        case connect_loop w (out_infos r) None cs of
          (Inr (info, serverSocket), cs) \<Rightarrow>
            let (err, cs) = makeSocketNonBlocking w serverSocket cs in
            if err \<noteq> NONE then Inr (err, s\<lparr>sock_calls := close_fd w serverSocket cs\<rparr>)
            else
              let cs = printAddrInfo_ai w ''Connected to'' info cs;
                  (_, cs) = call w Freeaddrinfo cs in
              Inr (NONE, s\<lparr>m_socket := serverSocket, sock_calls := cs\<rparr>)
        | (Inl serverSocket, cs) \<Rightarrow>
            let cs = log_error w ''No IP Address found for connecting'' [] cs;
                (_, cs) = call w Freeaddrinfo cs in
            (case serverSocket of
               None \<Rightarrow> Inl Indeterminate
             | Some serverSocket \<Rightarrow> Inr (OS, s\<lparr>sock_calls := close_fd w serverSocket cs\<rparr>)))"

section \<open>The byte operations\<close>

definition socket_isDataAvailable :: "os \<Rightarrow> socket_dev \<Rightarrow> bool \<times> socket_dev" where
  "socket_isDataAvailable w s =
     (let (r, cs) = call w (Poll (m_socket s) POLLIN) (sock_calls s) in (rc r > 0, s\<lparr>sock_calls := cs\<rparr>))"

definition socket_readByte :: "os \<Rightarrow> socket_dev \<Rightarrow> u8 option \<times> socket_dev" where
  "socket_readByte w s =
     (let (r, cs) = call w (Recv (m_socket s)) (sock_calls s) in
      (if rc r = 1 then Some (out_byte r) else None, s\<lparr>sock_calls := cs\<rparr>))"

definition socket_isSpaceAvailable :: "os \<Rightarrow> socket_dev \<Rightarrow> bool \<times> socket_dev" where
  "socket_isSpaceAvailable w s =
     (let (r, cs) = call w (Poll (m_socket s) POLLOUT) (sock_calls s) in (rc r > 0, s\<lparr>sock_calls := cs\<rparr>))"

definition socket_writeByte :: "os \<Rightarrow> u8 \<Rightarrow> socket_dev \<Rightarrow> socket_dev" where
  "socket_writeByte w byte s = s\<lparr>sock_calls := snd (call w (Send (m_socket s) byte) (sock_calls s))\<rparr>"

definition socket_vt :: "os \<Rightarrow> socket_dev bus_vt" where
  "socket_vt w =
     \<lparr>vt_isDataAvailable = socket_isDataAvailable w, vt_readByte = socket_readByte w,
      vt_isSpaceAvailable = socket_isSpaceAvailable w, vt_writeByte = socket_writeByte w,
      vt_flush = default_flush, vt_isConnected = default_isConnected\<rparr>"

interpretation socket: lossless_device "socket_vt w" "\<lambda>s. taken w os_bytes (sock_calls s)"
    "\<lambda>s. os_takes_all w" for w
  by unfold_locales
    (auto simp: socket_vt_def socket_writeByte_def socket_readByte_def default_flush_def
      os_takes_all_def Let_def case_prod_beta)


section \<open>What the parts leave open\<close>

text \<open>A sequence of calls that opens and frees nothing.\<close>

definition same_resources :: "os \<Rightarrow> os_call list \<Rightarrow> os_call list \<Rightarrow> bool" where
  "same_resources w cs cs' \<longleftrightarrow>
     fds w cs' = fds w cs \<and> infos w cs' = infos w cs \<and> bad_closes w cs' = bad_closes w cs"

lemma printAddrInfo_resources:
  "same_resources w cs (printAddrInfo_ai w label ai cs)"
  "same_resources w cs (printAddrInfo_addr w label addr cs)"
  by (simp_all add: same_resources_def printAddrInfo_ai_def printAddrInfo_addr_def
      printAddrInfo_raw_def Let_def case_prod_beta)

lemma nonblocking_resources:
  assumes "makeSocketNonBlocking w fd cs = (err, cs')"
  shows "same_resources w cs cs' \<and>
    (err = NONE \<or> err = OS \<and> (\<exists>args rest. cs' = Log_call (Log_error ''Failed to make socket non-blocking: %s'' args) # rest \<and>
       hd rest \<noteq> Freeaddrinfo \<and> (\<forall>e. hd rest \<noteq> Log_call e)))"
  using assms
  by (auto simp: same_resources_def makeSocketNonBlocking_def Let_def case_prod_beta split: if_splits)

text \<open>The loops leave open the socket they found and nothing else.\<close>

lemma server_loop_resources:
  assumes "os_fresh w" "server_loop w ais prev cs = (e, cs')" "\<And>fd. prev = Some fd \<Longrightarrow> fd \<notin># fds w cs"
  shows "case e of
      Found fd \<Rightarrow> fds w cs' = add_mset fd (fds w cs) \<and> infos w cs' = infos w cs \<and> bad_closes w cs' = bad_closes w cs
    | Returned \<Rightarrow> same_resources w cs cs' \<and> (\<exists>fd args rest.
        cs' = Close fd # Log_call (Log_error ''Failed to set REUSEADDR socket option: %s'' args) # rest)
    | Exhausted fd \<Rightarrow> same_resources w cs cs' \<and> (\<forall>x. fd = Some x \<longrightarrow> x \<notin># fds w cs)"
  using assms(2,3)
proof (induction ais arbitrary: prev cs)
  case Nil
  then show ?case by (auto simp: same_resources_def)
next
  case (Cons info ais)
  let ?c = "Socket (ai_family info) (ai_socktype info) (ai_protocol info)"
  let ?fd = "rc (w cs ?c)"
  have fresh: "?fd \<notin># fds w cs"
    using assms(1) by (simp add: os_fresh_def)
  have loop: ?case if "server_loop w ais (Some ?fd) cs1 = (e, cs')" "same_resources w cs cs1" for cs1
  proof -
    have "\<And>x. Some ?fd = Some x \<Longrightarrow> x \<notin># fds w cs1"
      using fresh that(2) by (simp add: same_resources_def)
    from Cons.IH[OF that(1) this] that(2) show ?thesis
      by (auto simp: same_resources_def split: loop_end.splits)
  qed
  show ?case
    using Cons.prems(1) fresh
    by (auto simp: Let_def case_prod_beta same_resources_def split: if_splits intro!: loop)
qed

text \<open>
  The two marks of a failed set-up that keeps something: its calls end with the message of
  \<open>makeSocketNonBlocking\<close>, or they close the socket after the message about \<open>setsockopt\<close>.
  A \<open>freeaddrinfo\<close> just before the last call is the mark of an exhausted list.
\<close>

definition ends_nonblocking_failed :: "os_call list \<Rightarrow> bool" where
  "ends_nonblocking_failed cs \<longleftrightarrow>
     (case cs of
        Log_call (Log_error fmt args) # rest \<Rightarrow> fmt = ''Failed to make socket non-blocking: %s''
      | _ \<Rightarrow> False)"

definition ends_setsockopt_failed :: "os_call list \<Rightarrow> bool" where
  "ends_setsockopt_failed cs \<longleftrightarrow>
     (case cs of
        Close fd # Log_call (Log_error fmt args) # rest \<Rightarrow>
          fmt = ''Failed to set REUSEADDR socket option: %s''
      | _ \<Rightarrow> False)"

definition ends_exhausted :: "os_call list \<Rightarrow> bool" where
  "ends_exhausted cs \<longleftrightarrow> (case cs of Close fd # Freeaddrinfo # rest \<Rightarrow> True | _ \<Rightarrow> False)"

lemmas ends_defs = ends_nonblocking_failed_def ends_setsockopt_failed_def ends_exhausted_def

lemma serve_resources:
  assumes "fds w (sock_calls s) = add_mset l F" "serve w port l s = (err, s')"
  shows "if err = NONE
    then fds w (sock_calls s') = add_mset (m_socket s') F \<and> infos w (sock_calls s') = infos w (sock_calls s) \<and>
      bad_closes w (sock_calls s') = bad_closes w (sock_calls s)
    else err = OS \<and> m_socket s' = m_socket s \<and> infos w (sock_calls s') = infos w (sock_calls s) \<and>
      bad_closes w (sock_calls s') = bad_closes w (sock_calls s) \<and>
      \<not> ends_setsockopt_failed (sock_calls s') \<and> \<not> ends_exhausted (sock_calls s') \<and>
      (if ends_nonblocking_failed (sock_calls s')
       then \<exists>c. fds w (sock_calls s') = add_mset l (add_mset c F)
       else fds w (sock_calls s') = F)"
proof -
  let ?cs1 = "Log_call (Log_info ''Listening on port %s ...'' [A_Str port]) # sock_calls s"
  let ?cs2 = "Listen l 1 # ?cs1"
  let ?r = "w ?cs2 (Accept l)"
  let ?cs3 = "Accept l # ?cs2"
  consider (listen) "rc (w ?cs1 (Listen l 1)) < 0"
    | (accept) "\<not> rc (w ?cs1 (Listen l 1)) < 0" "rc ?r < 0"
    | (accepted) "\<not> rc (w ?cs1 (Listen l 1)) < 0" "\<not> rc ?r < 0"
    by blast
  then show ?thesis
  proof cases
    case listen
    with assms show ?thesis
      by (auto simp: serve_def Let_def case_prod_beta ends_defs)
  next
    case accept
    with assms show ?thesis
      by (auto simp: serve_def Let_def case_prod_beta ends_defs)
  next
    case accepted
    obtain err1 cs4 where nb: "makeSocketNonBlocking w (rc ?r) ?cs3 = (err1, cs4)"
      by (cases "makeSocketNonBlocking w (rc ?r) ?cs3")
    note res = nonblocking_resources[OF nb]
    have open4: "fds w cs4 = add_mset (rc ?r) (add_mset l F)" "infos w cs4 = infos w (sock_calls s)"
      "bad_closes w cs4 = bad_closes w (sock_calls s)"
      using res accepted(2) assms(1) by (auto simp: same_resources_def)
    show ?thesis
    proof (cases "err1 = NONE")
      case True
      let ?cs5 = "printAddrInfo_addr w ''Accepted connection from'' (out_peer ?r) (Close l # cs4)"
      have "(err, s') = (NONE, s\<lparr>m_socket := rc ?r, sock_calls := ?cs5\<rparr>)"
        using assms(2) accepted nb True by (simp add: serve_def Let_def case_prod_beta)
      then show ?thesis
        using open4 printAddrInfo_resources(2)[of w "Close l # cs4" "''Accepted connection from''" "out_peer ?r"]
        by (simp add: same_resources_def)
    next
      case False
      then have "(err, s') = (err1, s\<lparr>sock_calls := cs4\<rparr>)" "err1 = OS"
        using assms(2) accepted nb res by (auto simp add: serve_def Let_def case_prod_beta)
      then show ?thesis
        using False open4 res by (auto simp: ends_defs add_mset_commute)
    qed
  qed
qed

lemma setupServer_resources:
  assumes "os_fresh w" "setupServer w port s = Inr (err, s')"
  shows "if err = NONE
    then fds w (sock_calls s') = add_mset (m_socket s') (fds w (sock_calls s)) \<and>
      infos w (sock_calls s') = infos w (sock_calls s) \<and>
      bad_closes w (sock_calls s') = bad_closes w (sock_calls s)
    else err = OS \<and> m_socket s' = m_socket s \<and>
      (if ends_nonblocking_failed (sock_calls s')
       then \<exists>l c. fds w (sock_calls s') = add_mset l (add_mset c (fds w (sock_calls s)))
       else fds w (sock_calls s') = fds w (sock_calls s)) \<and>
      infos w (sock_calls s') = infos w (sock_calls s) + (if ends_setsockopt_failed (sock_calls s') then 1 else 0) \<and>
      bad_closes w (sock_calls s') = bad_closes w (sock_calls s) + (if ends_exhausted (sock_calls s') then 1 else 0)"
proof -
  let ?c = "Getaddrinfo None port AF_INET6 SOCK_STREAM"
  let ?r = "w (sock_calls s) ?c"
  let ?cs1 = "?c # sock_calls s"
  show ?thesis
  proof (cases "rc ?r = 0")
    case False
    with assms(2) show ?thesis
      by (auto simp: setupServer_def Let_def case_prod_beta ends_defs)
  next
    case True
    have one: "fds w ?cs1 = fds w (sock_calls s)" "infos w ?cs1 = infos w (sock_calls s) + 1"
      "bad_closes w ?cs1 = bad_closes w (sock_calls s)"
      using True by simp_all
    obtain e cs2 where loop: "server_loop w (out_infos ?r) None ?cs1 = (e, cs2)"
      by (cases "server_loop w (out_infos ?r) None ?cs1")
    note res = server_loop_resources[OF assms(1) loop]
    show ?thesis
    proof (cases e)
      case (Found l)
      let ?s = "s\<lparr>sock_calls := Freeaddrinfo # cs2\<rparr>"
      have "serve w port l ?s = (err, s')"
        using assms(2) True loop Found by (simp add: setupServer_def Let_def case_prod_beta)
      moreover have "fds w (sock_calls ?s) = add_mset l (fds w (sock_calls s))"
        "infos w (sock_calls ?s) = infos w (sock_calls s)" "bad_closes w (sock_calls ?s) = bad_closes w (sock_calls s)"
        using res one Found by simp_all
      ultimately show ?thesis
        using serve_resources[of w ?s l "fds w (sock_calls s)" port err s'] by (auto split: if_splits)
    next
      case Returned
      with assms(2) True loop have "(err, s') = (OS, s\<lparr>sock_calls := cs2\<rparr>)"
        by (simp add: setupServer_def Let_def case_prod_beta)
      with res one Returned show ?thesis
        by (auto simp: same_resources_def ends_defs)
    next
      case (Exhausted left)
      then obtain fd where "left = Some fd"
        "(err, s') = (OS, s\<lparr>sock_calls := Close fd # Freeaddrinfo #
           Log_call (Log_error ''No IP Address found for binding'' []) # cs2\<rparr>)"
        using assms(2) True loop
        by (cases left) (simp_all add: setupServer_def Let_def case_prod_beta)
      with res one Exhausted show ?thesis
        by (auto simp: same_resources_def ends_defs)
    qed
  qed
qed

lemma connect_loop_resources:
  assumes "os_fresh w" "connect_loop w ais prev cs = (e, cs')" "\<And>fd. prev = Some fd \<Longrightarrow> fd \<notin># fds w cs"
  shows "case e of
      Inr (info, fd) \<Rightarrow> fds w cs' = add_mset fd (fds w cs) \<and> infos w cs' = infos w cs \<and> bad_closes w cs' = bad_closes w cs
    | Inl fd \<Rightarrow> same_resources w cs cs' \<and> (\<forall>x. fd = Some x \<longrightarrow> x \<notin># fds w cs)"
  using assms(2,3)
proof (induction ais arbitrary: prev cs)
  case Nil
  then show ?case by (auto simp: same_resources_def)
next
  case (Cons info ais)
  let ?cs0 = "printAddrInfo_ai w ''Trying'' info cs"
  let ?c = "Socket (ai_family info) (ai_socktype info) (ai_protocol info)"
  let ?fd = "rc (w ?cs0 ?c)"
  have same: "fds w ?cs0 = fds w cs" "infos w ?cs0 = infos w cs" "bad_closes w ?cs0 = bad_closes w cs"
    using printAddrInfo_resources(1)[of w cs "''Trying''" info] by (simp_all add: same_resources_def)
  have "?fd \<notin># fds w ?cs0"
    using assms(1) by (simp add: os_fresh_def)
  then have fresh: "?fd \<notin># fds w cs" by (simp add: same)
  have loop: ?case if "connect_loop w ais (Some ?fd) cs1 = (e, cs')" "same_resources w cs cs1" for cs1
  proof -
    have "\<And>x. Some ?fd = Some x \<Longrightarrow> x \<notin># fds w cs1"
      using fresh that(2) by (simp add: same_resources_def)
    from Cons.IH[OF that(1) this] that(2) show ?thesis
      by (auto simp: same_resources_def split: sum.splits)
  qed
  show ?case
    using Cons.prems(1) fresh
    by (auto simp: Let_def case_prod_beta same_resources_def same split: if_splits intro!: loop)
qed

lemma connectToServer_resources:
  assumes "os_fresh w" "connectToServer w server port s = Inr (err, s')"
  shows "bad_closes w (sock_calls s') = bad_closes w (sock_calls s) + (if ends_exhausted (sock_calls s') then 1 else 0) \<and>
    (if err = NONE
     then fds w (sock_calls s') = add_mset (m_socket s') (fds w (sock_calls s)) \<and>
       infos w (sock_calls s') = infos w (sock_calls s) \<and> \<not> ends_exhausted (sock_calls s')
     else err = OS \<and> m_socket s' = m_socket s \<and> fds w (sock_calls s') = fds w (sock_calls s) \<and>
       infos w (sock_calls s') = infos w (sock_calls s) +
         (if ends_nonblocking_failed (tl (sock_calls s')) then 1 else 0))"
proof -
  let ?c = "Getaddrinfo (Some server) port AF_UNSPEC SOCK_STREAM"
  let ?r = "w (sock_calls s) ?c"
  let ?cs1 = "?c # sock_calls s"
  show ?thesis
  proof (cases "rc ?r = 0")
    case False
    with assms(2) show ?thesis
      by (auto simp: connectToServer_def Let_def case_prod_beta ends_defs)
  next
    case True
    obtain e cs2 where loop: "connect_loop w (out_infos ?r) None ?cs1 = (e, cs2)"
      by (cases "connect_loop w (out_infos ?r) None ?cs1")
    note res = connect_loop_resources[OF assms(1) loop]
    show ?thesis
    proof (cases e)
      case (Inl left)
      then obtain fd where "left = Some fd"
        "(err, s') = (OS, s\<lparr>sock_calls := Close fd # Freeaddrinfo #
           Log_call (Log_error ''No IP Address found for connecting'' []) # cs2\<rparr>)"
        using assms(2) True loop
        by (cases left) (simp_all add: connectToServer_def Let_def case_prod_beta)
      with res True Inl show ?thesis
        by (auto simp: same_resources_def ends_defs)
    next
      case (Inr found)
      then obtain info fd where found: "e = Inr (info, fd)" by (cases found) simp
      obtain err1 cs3 where nb: "makeSocketNonBlocking w fd cs2 = (err1, cs3)"
        by (cases "makeSocketNonBlocking w fd cs2")
      note res3 = nonblocking_resources[OF nb]
      show ?thesis
      proof (cases "err1 = NONE")
        case ok: True
        let ?cs4 = "printAddrInfo_ai w ''Connected to'' info cs3"
        have "(err, s') = (NONE, s\<lparr>m_socket := fd, sock_calls := Freeaddrinfo # ?cs4\<rparr>)"
          using assms(2) True loop found nb ok by (simp add: connectToServer_def Let_def case_prod_beta)
        then show ?thesis
          using res res3 True found printAddrInfo_resources(1)[of w cs3 "''Connected to''" info]
          by (simp add: same_resources_def ends_defs)
      next
        case False
        then have "(err, s') = (err1, s\<lparr>sock_calls := Close fd # cs3\<rparr>)"
          using assms(2) True loop found nb by (simp add: connectToServer_def Let_def case_prod_beta)
        then show ?thesis
          using False res res3 True found by (auto simp: same_resources_def ends_defs)
      qed
    qed
  qed
qed


section \<open>Properties\<close>

text \<open>C37: A successful \<open>setupServer\<close> or \<open>connectToServer\<close> leaves exactly one descriptor more
  open than there was, the connected socket the object keeps, frees every address list it
  got, and closes nothing that was not open; destroying the object then restores the
  descriptors there were.\<close>

theorem successful_setup_keeps_one_socket:
  assumes "os_fresh w"
    and "setupServer w port s = Inr (NONE, s') \<or> connectToServer w server port s = Inr (NONE, s')"
  shows "fds w (sock_calls s') = add_mset (m_socket s') (fds w (sock_calls s)) \<and>
    infos w (sock_calls s') = infos w (sock_calls s) \<and>
    bad_closes w (sock_calls s') = bad_closes w (sock_calls s) \<and>
    fds w (sock_calls (socket_destroy w s')) = fds w (sock_calls s) \<and>
    bad_closes w (sock_calls (socket_destroy w s')) = bad_closes w (sock_calls s)"
  using setupServer_resources[OF assms(1), of port s NONE s']
    connectToServer_resources[OF assms(1), of server port s NONE s'] assms(2)
  by (auto simp: socket_destroy_def)

lemmas run_socket = setupServer_def connectToServer_def serve_def makeSocketNonBlocking_def
  printAddrInfo_ai_def printAddrInfo_addr_def printAddrInfo_raw_def Let_def call_def example_os_def
  example_addr_def new_socket_dev_def AF_INET_def AF_INET6_def

theorem successful_setup_keeps_one_socket_witness:
  "\<exists>s'. setupServer (example_os (\<lambda>c. False)) ''8888'' (new_socket_dev []) = Inr (NONE, s') \<and>
    fds (example_os (\<lambda>c. False)) (sock_calls s') = {#m_socket s'#} \<and>
    fds (example_os (\<lambda>c. False)) (sock_calls (socket_destroy (example_os (\<lambda>c. False)) s')) = {#}"
proof -
  obtain s' where run: "setupServer (example_os (\<lambda>c. False)) ''8888'' (new_socket_dev []) = Inr (NONE, s')"
    by (simp add: run_socket)
  then have "setupServer (example_os (\<lambda>c. False)) ''8888'' (new_socket_dev []) = Inr (NONE, s') \<or>
      connectToServer (example_os (\<lambda>c. False)) ''h'' ''8888'' (new_socket_dev []) = Inr (NONE, s')"
    by (rule disjI1)
  from successful_setup_keeps_one_socket[OF example_os_fresh this] run show ?thesis
    by (simp add: new_socket_dev_def)
qed

text \<open>C38: What a failed \<open>setupServer\<close> leaves behind, for every failure: both sockets, the
  listening and the accepted one, when the accepted socket cannot be made non-blocking; the
  address list when \<open>setsockopt\<close> fails; nothing otherwise. When no address can be bound it
  closes a descriptor that is not open (the last one a second time, or a negative one).
  The object keeps its old socket and the result is \<open>OS\<close>.\<close>

theorem failed_server_setup_leaks:
  assumes "os_fresh w" "setupServer w port s = Inr (err, s')" "err \<noteq> NONE"
  shows "err = OS \<and> m_socket s' = m_socket s \<and>
    (if ends_nonblocking_failed (sock_calls s')
     then \<exists>l c. fds w (sock_calls s') = add_mset l (add_mset c (fds w (sock_calls s)))
     else fds w (sock_calls s') = fds w (sock_calls s)) \<and>
    infos w (sock_calls s') = infos w (sock_calls s) + (if ends_setsockopt_failed (sock_calls s') then 1 else 0) \<and>
    bad_closes w (sock_calls s') = bad_closes w (sock_calls s) + (if ends_exhausted (sock_calls s') then 1 else 0)"
  using setupServer_resources[OF assms(1,2)] assms(3) by simp

definition fails_fcntl :: "os_call \<Rightarrow> bool" where
  "fails_fcntl c = (case c of Fcntl_setfl fd flags \<Rightarrow> True | _ \<Rightarrow> False)"

definition fails_bind :: "os_call \<Rightarrow> bool" where
  "fails_bind c = (case c of Bind fd addr \<Rightarrow> True | _ \<Rightarrow> False)"

theorem failed_server_setup_leaks_witness:
  "(\<exists>s' l c. setupServer (example_os fails_fcntl) ''8888'' (new_socket_dev []) = Inr (OS, s') \<and>
     fds (example_os fails_fcntl) (sock_calls s') = {#l, c#}) \<and>
   (\<exists>s'. setupServer (example_os fails_bind) ''8888'' (new_socket_dev []) = Inr (OS, s') \<and>
     bad_closes (example_os fails_bind) (sock_calls s') = 1)"
proof -
  obtain s1 where s1: "setupServer (example_os fails_fcntl) ''8888'' (new_socket_dev []) = Inr (OS, s1)"
    "ends_nonblocking_failed (sock_calls s1)"
    by (simp add: run_socket fails_fcntl_def ends_nonblocking_failed_def)
  obtain s2 where s2: "setupServer (example_os fails_bind) ''8888'' (new_socket_dev []) = Inr (OS, s2)"
    "ends_exhausted (sock_calls s2)"
    by (simp add: run_socket fails_bind_def ends_exhausted_def)
  from failed_server_setup_leaks[OF example_os_fresh s1(1)] s1
    failed_server_setup_leaks[OF example_os_fresh s2(1)] s2
  show ?thesis by (auto simp: new_socket_dev_def)
qed

text \<open>What a failed \<open>connectToServer\<close> leaves behind: never a descriptor, but the address
  list when the connected socket cannot be made non-blocking; and when no address can be
  connected to it closes a descriptor that is not open.\<close>

theorem failed_connect_leaks:
  assumes "os_fresh w" "connectToServer w server port s = Inr (err, s')" "err \<noteq> NONE"
  shows "err = OS \<and> m_socket s' = m_socket s \<and> fds w (sock_calls s') = fds w (sock_calls s) \<and>
    infos w (sock_calls s') = infos w (sock_calls s) +
      (if ends_nonblocking_failed (tl (sock_calls s')) then 1 else 0) \<and>
    bad_closes w (sock_calls s') = bad_closes w (sock_calls s) + (if ends_exhausted (sock_calls s') then 1 else 0)"
  using connectToServer_resources[OF assms(1,2)] assms(3) by simp

theorem failed_connect_leaks_witness:
  "\<exists>s'. connectToServer (example_os fails_fcntl) ''h'' ''8888'' (new_socket_dev []) = Inr (OS, s') \<and>
     infos (example_os fails_fcntl) (sock_calls s') = 1"
proof -
  obtain s1 where s1: "connectToServer (example_os fails_fcntl) ''h'' ''8888'' (new_socket_dev []) = Inr (OS, s1)"
    "ends_nonblocking_failed (tl (sock_calls s1))"
    by (simp add: run_socket fails_fcntl_def ends_nonblocking_failed_def)
  from failed_connect_leaks[OF example_os_fresh s1(1)] s1 show ?thesis
    by (auto simp: new_socket_dev_def)
qed

end
