(* ===== verification/Packet_Api.thy ===== *)
theory Packet_Api
  imports Packets
begin

text \<open>
  The public methods of \<open>Packet\<close> that change it, taken together: a client is a sequence of
  calls. Its contract (\<open>call_ok\<close>) is what the documentation of the methods asks for: the
  caller's memory holds the bytes it names, and the write pointer is not moved past the
  storage. Under it a packet is type safe: a sequence of calls keeps the packet well
  formed or stops at an assertion, and never leaves the storage.
\<close>

section \<open>Calls\<close>

datatype packet_call =
    Set_Command u8
  | Set_Data nat "u8 list"
  | Append_Data nat "u8 list"
  | Append_Byte u8
  | Append_Str "u8 list"
  | Append_U8 u8
  | Append_U16 u16
  | Append_U32 u32
  | Get_Write_Data nat
  | Calc_And_Store_Crc
  | Remove_Byte

fun run_call :: "crc_fns \<Rightarrow> packet \<Rightarrow> packet_call \<Rightarrow> packet res" where
  "run_call crc p (Set_Command c) = Inr (setCommand c p)"
| "run_call crc p (Set_Data n data) = setData n data p"
| "run_call crc p (Append_Data n data) = appendData n data p"
| "run_call crc p (Append_Byte b) = appendByte b p"
| "run_call crc p (Append_Str str) = append_str str p"
| "run_call crc p (Append_U8 w) = append_word w p"
| "run_call crc p (Append_U16 w) = append_word w p"
| "run_call crc p (Append_U32 w) = append_word w p"
| "run_call crc p (Get_Write_Data n) = Inr (snd (getWriteData n p))"
| "run_call crc p Calc_And_Store_Crc = calcAndStoreCrc crc p"
| "run_call crc p Remove_Byte = Inr (removeByte p)"

definition run_calls :: "crc_fns \<Rightarrow> packet \<Rightarrow> packet_call list \<Rightarrow> packet res" where
  "run_calls crc = fold_res (run_call crc)"

text \<open>
  The contract. Only \<open>getWriteData\<close>, which the code does not check, needs to look at the
  packet: the bytes must be there. \<open>n + m_maxDataLen\<close> bytes fit into the address space.
\<close>

definition block_ok :: "packet \<Rightarrow> nat \<Rightarrow> u8 list \<Rightarrow> bool" where
  "block_ok p n data \<longleftrightarrow> n \<le> length data \<and> m_maxDataLen p + n < size_range"

fun call_ok :: "packet \<Rightarrow> packet_call \<Rightarrow> bool" where
  "call_ok p (Set_Data n data) \<longleftrightarrow> block_ok p n data"
| "call_ok p (Append_Data n data) \<longleftrightarrow> block_ok p n data"
| "call_ok p (Append_Str str) \<longleftrightarrow> (0 \<in> set str \<or> 256 \<le> length str)"
| "call_ok p (Get_Write_Data n) \<longleftrightarrow> n \<le> getSpaceRemaining p"
| "call_ok p c \<longleftrightarrow> True"

fun calls_ok :: "crc_fns \<Rightarrow> packet \<Rightarrow> packet_call list \<Rightarrow> bool" where
  "calls_ok crc p [] \<longleftrightarrow> True"
| "calls_ok crc p (c # cs) \<longleftrightarrow>
     call_ok p c \<and> (case run_call crc p c of Inl f \<Rightarrow> True | Inr p' \<Rightarrow> calls_ok crc p' cs)"

section \<open>Progress and preservation\<close>

text \<open>What a call may do: keep the packet well formed in its storage, or abort.\<close>

definition same_storage :: "packet \<Rightarrow> packet \<Rightarrow> bool" where
  "same_storage p p' \<longleftrightarrow> packet_wf p' \<and> m_maxDataLen p' = m_maxDataLen p \<and>
     length (m_data p') = length (m_data p)"

definition type_safe :: "packet \<Rightarrow> packet res \<Rightarrow> bool" where
  "type_safe p r \<longleftrightarrow> (case r of Inl f \<Rightarrow> f = Assert_Failed | Inr p' \<Rightarrow> same_storage p p')"

lemma type_safe_simps [simp]:
  "type_safe p (Inl f) \<longleftrightarrow> f = Assert_Failed" "type_safe p (Inr p') \<longleftrightarrow> same_storage p p'"
  by (simp_all add: type_safe_def)

lemma same_storage_refl: "packet_wf p \<Longrightarrow> same_storage p p"
  by (simp add: same_storage_def)

lemma same_storage_trans: "same_storage p q \<Longrightarrow> same_storage q r \<Longrightarrow> same_storage p r"
  by (simp add: same_storage_def)

lemma type_safe_shift: "same_storage p q \<Longrightarrow> type_safe q r \<Longrightarrow> type_safe p r"
  by (cases r) (auto intro: same_storage_trans)

lemma type_safe_bind:
  "type_safe p m \<Longrightarrow> (\<And>q. same_storage p q \<Longrightarrow> type_safe q (f q)) \<Longrightarrow> type_safe p (bind_res m f)"
  by (cases m) (auto intro: type_safe_shift)

lemma put_same_storage:
  "packet_wf p \<Longrightarrow> m_dataLen p + length bs \<le> m_maxDataLen p \<Longrightarrow> same_storage p (put bs p)"
  by (auto simp: same_storage_def put_def packet_wf_def)

lemma appendData_type_safe:
  assumes "packet_wf p" "block_ok p n data"
  shows "type_safe p (appendData n data p)"
proof (cases "m_dataLen p + n \<le> m_maxDataLen p")
  case True
  with assms show ?thesis
    by (simp add: appendData_put block_ok_def put_same_storage)
next
  case False
  moreover have "m_dataLen p + n < size_range"
    using assms packet_wf_bounds(1)[OF assms(1)] by (simp add: block_ok_def)
  ultimately show ?thesis
    by (simp add: appendData_full)
qed

lemma setData_type_safe:
  assumes "packet_wf p" "block_ok p n data"
  shows "type_safe p (setData n data p)"
proof -
  have "same_storage p (p\<lparr>m_dataLen := 0\<rparr>)"
    using assms(1) by (simp add: same_storage_def)
  moreover have "type_safe (p\<lparr>m_dataLen := 0\<rparr>) (appendData n data (p\<lparr>m_dataLen := 0\<rparr>))"
    using assms by (intro appendData_type_safe) (simp_all add: block_ok_def)
  ultimately show ?thesis
    by (simp add: setData_def Let_def type_safe_shift)
qed

lemma append_word_type_safe:
  fixes w :: "'a::len word"
  assumes "packet_wf p" "m_maxDataLen p + sizeof TYPE('a) < size_range"
  shows "type_safe p (append_word w p)"
  using assms unfolding append_word_def by (intro appendData_type_safe) (simp_all add: block_ok_def)

lemma appendByte_type_safe: "packet_wf p \<Longrightarrow> type_safe p (appendByte b p)"
  by (cases "m_dataLen p < m_maxDataLen p")
    (simp_all add: appendByte_put appendByte_full put_same_storage)

text \<open>\<open>strnlen\<close> finds the terminator or reads its 256 bytes.\<close>

lemma strnlen_total:
  assumes "0 \<in> set str \<or> n \<le> length str"
  obtains k where "strnlen str n = Inr k" "k \<le> n" "k < n \<longrightarrow> k < length str" "k \<le> length str"
  using assms
proof (induction str n arbitrary: thesis rule: strnlen.induct)
  case (3 b mem n)
  show ?case
  proof (cases "b = 0")
    case True
    then show ?thesis by (intro "3.prems"(1)[of 0]) auto
  next
    case False
    then have "0 \<in> set mem \<or> n \<le> length mem" using "3.prems"(2) by auto
    with False obtain k where "strnlen mem n = Inr k" "k \<le> n" "k < n \<longrightarrow> k < length mem" "k \<le> length mem"
      using "3.IH" by blast
    with False show ?thesis by (intro "3.prems"(1)[of "Suc k"]) auto
  qed
qed auto

lemma append_str_type_safe:
  assumes "packet_wf p" "m_maxDataLen p + 256 < size_range" "0 \<in> set str \<or> 256 \<le> length str"
  shows "type_safe p (append_str str p)"
proof -
  obtain k where k: "strnlen str 256 = Inr k" "k \<le> 256" "k < 256 \<longrightarrow> k < length str" "k \<le> length str"
    using assms(3) by (rule strnlen_total)
  let ?l = "word_of_nat (k + 1) :: u8"
  have "unat ?l \<le> length str"
  proof (cases "k = 256")
    case True
    then show ?thesis using k(4) by simp
  next
    case False
    have "unat ?l \<le> k + 1" by (metis unat_of_nat mod_less_eq_dividend)
    then show ?thesis using False k(2,3) by simp
  qed
  moreover have "unat ?l < 256"
    using unsigned_less[of ?l] by simp
  ultimately have "block_ok q (unat ?l) str" if "same_storage p q" for q
    using that assms(2) by (simp add: block_ok_def same_storage_def)
  then have "type_safe p (bind_res (append_word ?l p) (appendData (unat ?l) str))"
    using assms(1,2)
    by (intro type_safe_bind append_word_type_safe appendData_type_safe)
      (simp_all add: same_storage_def sizeof_def)
  with k(1) show ?thesis
    by (simp add: append_str_def Let_def)
qed

lemma run_call_type_safe:
  assumes "packet_wf p" "m_maxDataLen p + 256 < size_range" "call_ok p c"
  shows "type_safe p (run_call crc p c)"
proof (cases c)
  case (Get_Write_Data n)
  then have "m_dataLen p + n \<le> m_maxDataLen p"
    using assms packet_wf_bounds(1)[OF assms(1)] by (simp add: getSpaceRemaining_wf)
  with Get_Write_Data assms(1) show ?thesis
    by (auto simp: getWriteData_def size_add_small same_storage_def packet_wf_def)
next
  case Remove_Byte
  then show ?thesis
    using assms(1) by (auto simp: removeByte_def same_storage_def packet_wf_def)
qed (use assms in \<open>auto simp: setCommand_def calcAndStoreCrc_def calcCrc_wf same_storage_def
      sizeof_def intro: setData_type_safe appendData_type_safe appendByte_type_safe append_str_type_safe
      append_word_type_safe\<close>)

lemma run_calls_type_safe:
  assumes "packet_wf p" "m_maxDataLen p + 256 < size_range" "calls_ok crc p cs"
  shows "type_safe p (run_calls crc p cs)"
  using assms
proof (induction cs arbitrary: p)
  case Nil
  then show ?case by (simp add: run_calls_def same_storage_refl)
next
  case (Cons c cs)
  have step: "type_safe p (run_call crc p c)"
    using Cons.prems by (intro run_call_type_safe) simp_all
  show ?case
  proof (cases "run_call crc p c")
    case (Inl f)
    with step show ?thesis by (simp add: run_calls_def)
  next
    case (Inr q)
    with step Cons.prems have "same_storage p q" "type_safe q (run_calls crc q cs)"
      using Cons.IH[of q] by (auto simp: same_storage_def)
    with Inr show ?thesis
      by (auto simp: run_calls_def intro: type_safe_shift)
  qed
qed

section \<open>Properties\<close>

text \<open>C12: The packet is type safe: whatever sequence of its public methods a client calls within
  their contract, either the run ends in a well-formed packet with the same capacity in
  the same storage, or it stops at an assertion; it never reads or writes outside the
  storage and never uses an unwritten value.\<close>

theorem packet_calls_are_type_safe:
  assumes "packet_wf p" "getMaxDataLength p + 256 < size_range" "calls_ok crc p cs"
  shows "run_calls crc p cs = Inl Assert_Failed \<or>
    (\<exists>p'. run_calls crc p cs = Inr p' \<and> packet_wf p' \<and> getMaxDataLength p' = getMaxDataLength p \<and>
      length (getData p') = length (getData p) \<and> getDataLength p' \<le> getMaxDataLength p)"
proof -
  have "type_safe p (run_calls crc p cs)"
    using assms by (intro run_calls_type_safe) (simp_all add: getMaxDataLength_def)
  then show ?thesis
    by (cases "run_calls crc p cs")
      (auto simp: same_storage_def getMaxDataLength_def getData_def getDataLength_def packet_wf_def)
qed

theorem packet_calls_are_type_safe_witness:
  "(run_calls \<lparr>Crc8_byte = xor, Crc8_data = (\<lambda>a xs. a)\<rparr> (blank_packet 3)
      [Set_Command 3, Append_Byte 7, Get_Write_Data 2, Remove_Byte, Calc_And_Store_Crc] \<noteq> Inl Assert_Failed) \<and>
   (\<exists>p'. run_calls \<lparr>Crc8_byte = xor, Crc8_data = (\<lambda>a xs. a)\<rparr> (blank_packet 3)
      [Set_Command 3, Append_Byte 7, Get_Write_Data 2, Remove_Byte, Calc_And_Store_Crc] = Inr p' \<and>
    packet_wf p' \<and> getMaxDataLength p' = 3 \<and> contents p' = [7, 0])"
proof -
  let ?crc = "\<lparr>Crc8_byte = xor, Crc8_data = (\<lambda>a xs. a)\<rparr>"
  let ?cs = "[Set_Command 3, Append_Byte 7, Get_Write_Data 2, Remove_Byte, Calc_And_Store_Crc]"
  let ?p = "\<lparr>m_command = 3, m_maxDataLen = 3, m_dataLen = 2, m_data = [7, 0, 0], m_crc = 3\<rparr>"
  note eval = blank_packet_def new_packet_def setCommand_def appendByte_def write_at_def getWriteData_def
    removeByte_def calcAndStoreCrc_def calcCrc_def read_data_def getDataLength_def getMaxDataLength_def
    getData_def getSpaceRemaining_def
  have sizes: "size_add (Suc 0) 2 = 3" "size_sub 3 (Suc 0) = 2" "replicate 3 (0 :: u8) = [0, 0, 0]"
    by (simp_all add: size_add_def size_sub_def size_range_def) (simp add: numeral_eq_Suc)
  have ok: "calls_ok ?crc (blank_packet 3) ?cs"
    by (simp add: eval sizes)
  have run: "run_calls ?crc (blank_packet 3) ?cs = Inr ?p"
    by (simp add: run_calls_def eval sizes)
  have "packet_wf (blank_packet 3)" "getMaxDataLength (blank_packet 3) + 256 < size_range"
    by (simp_all add: blank_packet_wf size_range_def getMaxDataLength_def)
  from packet_calls_are_type_safe[OF this ok] run show ?thesis
    by (auto simp: getMaxDataLength_def contents_def)
qed

end
