(* ===== verification/Codec_Runs.thy ===== *)
theory Codec_Runs
  imports Framing
begin

text \<open>
  Whole runs of the codec, seen through its abstractions: the decoder refines the abstract
  receiver on every stream, the encoder refines a queue of bytes to hand out, the debug
  flags change nothing but the log, and from every state of the decoder there is a way
  back to waiting for a frame.
\<close>

section \<open>Refinement\<close>

text \<open>Both ways of running the decoder end in the same state.\<close>

lemma deliveries_final:
  "decode_stream crc bus bs d p = Inr (errs, d1, p1, log) \<Longrightarrow>
     deliveries crc bus bs d p = Inr (ms, d2, p2) \<Longrightarrow> (d2, p2) = (d1, p1)"
  by (induction bs arbitrary: d p errs log ms) (auto simp: bind_res_eq_Inr)

text \<open>C4: The decoder refines the abstract receiver: from any legal state and on any byte
  stream, the codes it returns, the messages an application takes from the packet and the
  abstract state it ends in are those of the receiver, which has no storage, no lengths
  and no debug flag; and the state stays legal.\<close>

theorem decoder_refines_receiver:
  assumes "packet_wf p" "decoder_ok d"
    and "receive_all crc (getMaxDataLength p) bs (receiver_of d p) = (outs, r)"
  shows "\<exists>d' p' log. decode_stream crc bus bs d p = Inr (map outcome_error outs, d', p', log) \<and>
    deliveries crc bus bs d p = Inr (messages outs, d', p') \<and>
    receiver_of d' p' = r \<and> packet_wf p' \<and> decoder_ok d' \<and> getMaxDataLength p' = getMaxDataLength p"
proof -
  have rec: "receive_all crc (m_maxDataLen p) bs (receiver_of d p) = (outs, r)"
    using assms(3) by (simp add: getMaxDataLength_def)
  obtain d1 p1 log where codes: "decode_stream crc bus bs d p = Inr (map outcome_error outs, d1, p1, log)"
    "receiver_of d1 p1 = r" "step_frame d p d1 p1"
    using decode_stream_refines[OF assms(1,2), of crc bus bs] by (auto simp: rec)
  obtain d2 p2 where dels: "deliveries crc bus bs d p = Inr (messages outs, d2, p2)"
    using deliveries_refine[OF assms(1,2), of crc bus bs] by (auto simp: rec)
  have "(d2, p2) = (d1, p1)"
    using deliveries_final[OF codes(1) dels] .
  with codes dels step_frameD[OF codes(3)] show ?thesis
    by (auto simp: getMaxDataLength_def)
qed

theorem decoder_refines_receiver_witness:
  "\<exists>d' p' log. decode_stream crc8_poly07 None [0xC0, 1, 0xDB, 0xDC] new_decoder (blank_packet 3)
      = Inr (map outcome_error [Pending, Pending, Pending, Pending], d', p', log) \<and>
    deliveries crc8_poly07 None [0xC0, 1, 0xDB, 0xDC] new_decoder (blank_packet 3) = Inr (messages [Pending, Pending, Pending, Pending], d', p') \<and>
    receiver_of d' p' = R_Data False 1 [0xC0] \<and> packet_wf p' \<and> decoder_ok d' \<and>
    getMaxDataLength p' = getMaxDataLength (blank_packet 3)"
  by (rule decoder_refines_receiver)
    (simp_all add: blank_packet_wf size_range_def getMaxDataLength_def frame_consts unescape_def)

text \<open>The encoder refines a queue of bytes: with a packet in hand, the bytes it still owes
  (\<open>owed\<close>) are never empty; each call of \<open>encodeByte\<close> hands out the first of them, returns
  \<open>NONE\<close> and goes idle exactly when it was the last, and otherwise returns \<open>NOT_DONE\<close> and owes
  the rest.\<close>

theorem encoder_refines_queue:
  assumes "encoder_at h e p"
  shows "\<exists>err e'. encodeByte crc h e byte = Inr (err, e', Some (hd (owed crc p e))) \<and>
    owed crc p e \<noteq> [] \<and> e_packet e' = e_packet e \<and>
    (if tl (owed crc p e) = [] then err = NONE \<and> e_state e' = E_IDLE
     else err = NOT_DONE \<and> encoder_at h e' p \<and> owed crc p e' = tl (owed crc p e))"
proof -
  obtain err e' x rest where "encodeByte crc h e byte = Inr (err, e', Some x)" "owed crc p e = x # rest"
    "e_packet e' = e_packet e"
    "if rest = [] then err = NONE \<and> e_state e' = E_IDLE
     else err = NOT_DONE \<and> encoder_at h e' p \<and> owed crc p e' = rest"
    using encodeByte_owed[OF assms, of crc byte] by blast
  then show ?thesis by simp
qed

theorem encoder_refines_queue_witness:
  "\<exists>err e'. encodeByte crc8_poly07 [5 \<mapsto> sample_packet] ((new_encoder 0)\<lparr>e_packet := 5, e_state := E_DATA\<rparr>) None
      = Inr (err, e', Some 2) \<and> err = NOT_DONE \<and> owed crc8_poly07 sample_packet e' = [0x1b, 0xC0]"
proof -
  let ?e = "(new_encoder 0)\<lparr>e_packet := 5, e_state := E_DATA\<rparr>"
  have at: "encoder_at [5 \<mapsto> sample_packet] ?e sample_packet"
    by (simp add: encoder_at_def deref_ok nullptr_def sample_packet_props)
  have "owed crc8_poly07 sample_packet ?e = [2, 0x1b, 0xC0]"
    by (simp add: owed_def new_encoder_def payload_rest_def sample_packet_props crc8_examples slip_def
        frame_consts)
  with encoder_refines_queue[OF at, of crc8_poly07 None] show ?thesis by auto
qed

section \<open>Debugging\<close>

text \<open>A packet is well formed at every dump, so a dump can only add to the log.\<close>

lemma receiver_of_setDebug [simp]: "receiver_of (decoder_setDebug x d) p = receiver_of d p"
  by (simp add: receiver_of_def decoder_setDebug_def cong: dstate.case_cong)

lemma decoder_ok_setDebug [simp]: "decoder_ok (decoder_setDebug x d) = decoder_ok d"
  by (simp add: decoder_ok_def decoder_setDebug_def)

lemma debug_dump_total: "packet_wf p \<Longrightarrow> \<exists>log. debug_dump x label bus p = Inr log"
  using debug_dump_wf by metis

lemma extractCrc_wf: "packet_wf p \<Longrightarrow> extractCrc p = Inr (c, q) \<Longrightarrow> packet_wf q"
  by (auto simp: extractCrc_def bind_res_eq_Inr assert_res_def Let_def packet_wf_def split: if_splits)

lemma decode_data_debug:
  assumes "packet_wf p" "decode_data crc bus b d p = Inr (err, d', p', log)"
  shows "\<exists>log'. decode_data crc bus b (decoder_setDebug x d) p = Inr (err, decoder_setDebug x d', p', log')"
proof (cases "b = END \<and> \<not> d_escape d")
  case True
  show ?thesis
  proof (cases "getDataLength p = 0")
    case False
    obtain c q e where crc: "extractCrc p = Inr (c, q)" "calcCrc crc q = Inr e"
      using assms(2) True False by (auto simp: decode_data_def bind_res_eq_Inr)
    obtain l1 l2 where "debug_dump x ''Rcvd'' bus q = Inr l1" "debug_dump x ''CRC '' bus q = Inr l2"
      using debug_dump_total[OF extractCrc_wf[OF assms(1) crc(1)]] by metis
    with assms(2) True False crc show ?thesis
      by (auto simp: decode_data_def decoder_setDebug_def bind_res_eq_Inr Let_def split: if_splits)
  qed (use assms(2) True in \<open>auto simp: decode_data_def decoder_setDebug_def\<close>)
next
  case False
  obtain l where "debug_dump x ''2Big'' bus p = Inr l"
    using debug_dump_total[OF assms(1)] by metis
  with assms(2) False show ?thesis
    by (auto simp: decode_data_def decoder_setDebug_def bind_res_eq_Inr Let_def split: if_splits)
qed

lemma decodeByte_debug:
  assumes "packet_wf p" "decodeByte crc bus b d p = Inr (err, d', p', log)"
  shows "\<exists>log'. decodeByte crc bus b (decoder_setDebug x d) p = Inr (err, decoder_setDebug x d', p', log')"
proof (cases "d_state d")
  case D_DATA
  with assms decode_data_debug[OF assms(1), of crc bus _ d err d' p' log x] show ?thesis
    by (auto simp: decodeByte_def decoder_setDebug_def Let_def split: if_splits)
qed (use assms in \<open>auto simp: decodeByte_def decode_idle_def decode_command_def decoder_setDebug_def Let_def
      bind_res_eq_Inr split: if_splits\<close>)

lemma decode_stream_debug:
  assumes "packet_wf p" "decoder_ok d" "decode_stream crc bus bs d p = Inr (errs, d', p', log)"
  shows "\<exists>log'. decode_stream crc bus bs (decoder_setDebug x d) p = Inr (errs, decoder_setDebug x d', p', log')"
  using assms
proof (induction bs arbitrary: d p errs log)
  case Nil
  then show ?case by auto
next
  case (Cons b bs)
  obtain err d1 p1 log1 errs2 log2 where run:
    "decodeByte crc bus b d p = Inr (err, d1, p1, log1)"
    "decode_stream crc bus bs d1 p1 = Inr (errs2, d', p', log2)" "errs = err # errs2"
    using Cons.prems(3) by (auto simp: bind_res_eq_Inr)
  have "step_frame d p d1 p1"
    by (rule decode_step_refines[OF Cons.prems(1,2), of crc bus b]) (use run(1) in auto)
  then obtain l2 where "decode_stream crc bus bs (decoder_setDebug x d1) p1
      = Inr (errs2, decoder_setDebug x d', p', l2)"
    using Cons.IH[OF _ _ run(2)] step_frameD(1,2) by blast
  with decodeByte_debug[OF Cons.prems(1) run(1), of x] run(3) show ?case
    by auto
qed

text \<open>Debugging changes nothing but the log: a decoder with the debug flag set either way
  returns the same codes, leaves the same packet and goes through the same states on every
  stream of bytes, and an encoder writes the same bytes and stores the same CRC.\<close>

theorem debugging_changes_only_the_log:
  assumes "packet_wf p" "decoder_ok d" "deref h a = Inr q" "packet_wf q"
  shows "(\<exists>errs d' p' log log'. decode_stream crc bus bs d p = Inr (errs, d', p', log) \<and>
      decode_stream crc bus bs (decoder_setDebug x d) p = Inr (errs, decoder_setDebug x d', p', log')) \<and>
    (\<exists>e1 e2 h' log log' e1' e2' out. encodeStart crc bus a e h = Inr (e1, h', log) \<and>
      encodeStart crc bus a (encoder_setDebug x e) h = Inr (e2, h', log') \<and>
      encode_loop crc h' e1 None [] = Some (Inr (NONE, e1', out)) \<and>
      encode_loop crc h' e2 None [] = Some (Inr (NONE, e2', out)))"
proof
  obtain errs d' p' log where run: "decode_stream crc bus bs d p = Inr (errs, d', p', log)"
    using decode_stream_refines[OF assms(1,2)] by blast
  with decode_stream_debug[OF assms(1,2) run, of x]
  show "\<exists>errs d' p' log log'. decode_stream crc bus bs d p = Inr (errs, d', p', log) \<and>
      decode_stream crc bus bs (decoder_setDebug x d) p = Inr (errs, decoder_setDebug x d', p', log')"
    by blast
next
  let ?h = "h(a \<mapsto> with_crc crc q)"
  have runs: "\<exists>e1 log e1'. encodeStart crc bus a e h = Inr (e1, ?h, log) \<and>
      encode_loop crc ?h e1 None [] = Some (Inr (NONE, e1', map Some (frame_bytes crc (m_command q) (contents q))))"
    for e
  proof -
    obtain e1 log where start: "encodeStart crc bus a e h = Inr (e1, ?h, log)"
      "encoder_at ?h e1 (with_crc crc q)"
      "owed crc (with_crc crc q) e1 = frame_bytes crc (m_command q) (contents q)"
      using encodeStart_wf[OF assms(3,4), of crc bus e] by metis
    with encode_loop_owed[OF start(2), of crc None "[]"] show ?thesis by auto
  qed
  from runs[of e] runs[of "encoder_setDebug x e"]
  show "\<exists>e1 e2 h' log log' e1' e2' out. encodeStart crc bus a e h = Inr (e1, h', log) \<and>
      encodeStart crc bus a (encoder_setDebug x e) h = Inr (e2, h', log') \<and>
      encode_loop crc h' e1 None [] = Some (Inr (NONE, e1', out)) \<and>
      encode_loop crc h' e2 None [] = Some (Inr (NONE, e2', out))"
    by blast
qed

theorem debugging_changes_only_the_log_witness:
  "(\<exists>errs d' p' log log'. decode_stream crc8_poly07 None [0xC0, 1, 7, 0xC0] new_decoder (blank_packet 3)
      = Inr (errs, d', p', log) \<and>
    decode_stream crc8_poly07 None [0xC0, 1, 7, 0xC0] (decoder_setDebug True new_decoder) (blank_packet 3)
      = Inr (errs, decoder_setDebug True d', p', log')) \<and>
   (\<exists>e1 e2 h' log log' e1' e2' out.
      encodeStart crc8_poly07 None 10 (new_encoder 0) [10 \<mapsto> sample_packet] = Inr (e1, h', log) \<and>
      encodeStart crc8_poly07 None 10 (encoder_setDebug True (new_encoder 0)) [10 \<mapsto> sample_packet] = Inr (e2, h', log') \<and>
      encode_loop crc8_poly07 h' e1 None [] = Some (Inr (NONE, e1', out)) \<and>
      encode_loop crc8_poly07 h' e2 None [] = Some (Inr (NONE, e2', out)))"
  by (rule debugging_changes_only_the_log[where q = sample_packet])
    (simp_all add: blank_packet_wf size_range_def deref_ok nullptr_def sample_packet_props)

section \<open>Recovery\<close>

lemma receive_all_split:
  "snd (receive_all crc cap (xs @ ys) r) = snd (receive_all crc cap ys (snd (receive_all crc cap xs r)))"
  by (simp add: receive_all_append split_beta)

text \<open>\<open>END\<close>s take the collected bytes back one by one; then the CRC of the bare command closes the frame.\<close>

lemma drain_frame:
  assumes "0 < cap"
  shows "\<exists>bs. length bs \<le> length ds + 3 \<and> snd (receive_all crc cap bs (R_Data False c ds)) = R_Idle"
proof (induction ds rule: rev_induct)
  case Nil
  let ?x = "frame_crc crc c []"
  have "snd (receive_all crc cap (slip ?x @ [END]) (R_Data False c [])) = R_Idle"
    using assms unfolding receive_all_split
    by (simp add: receive_slip_data receive_end_def) (simp add: frame_consts)
  moreover have "length (slip ?x @ [END]) \<le> 3"
    using length_slip(2)[of ?x] by simp
  ultimately show ?case by (intro exI[of _ "slip ?x @ [END]"]) simp
next
  case (snoc x ds)
  then obtain bs where bs: "length bs \<le> length ds + 3"
    "snd (receive_all crc cap bs (R_Data False c ds)) = R_Idle"
    by blast
  have step: "snd (receive crc cap END (R_Data False c (ds @ [x])))
      = (if x = frame_crc crc c ds then R_Idle else R_Data False c ds)"
    by (simp add: receive_end_def frame_consts)
  show ?case
  proof (cases "x = frame_crc crc c ds")
    case True
    with step show ?thesis by (intro exI[of _ "[END]"]) (simp add: split_beta)
  next
    case False
    with step bs show ?thesis by (intro exI[of _ "END # bs"]) (simp add: split_beta)
  qed
qed

lemma receiver_recovers:
  assumes "0 < cap"
  shows "\<exists>bs. length bs \<le> (case r of R_Data esc c ds \<Rightarrow> length ds | _ \<Rightarrow> 0) + 5 \<and>
    snd (receive_all crc cap bs r) = R_Idle"
proof (cases r)
  case R_Idle
  then show ?thesis by (intro exI[of _ "[]"]) simp
next
  case (R_Command esc)
  obtain bs where "length bs \<le> 3" "snd (receive_all crc cap bs (R_Data False 1 [])) = R_Idle"
    using drain_frame[OF assms, of "[]" crc 1] by auto
  with R_Command show ?thesis
    by (intro exI[of _ "1 # bs"]) (simp add: split_beta unescape_def frame_consts)
next
  case (R_Data esc c ds)
  let ?r1 = "snd (receive crc cap 0 (R_Data esc c ds))"
  obtain ds1 where ds1: "?r1 = R_Data False c ds1" "length ds1 \<le> length ds + 1"
    by (cases "cap \<le> length ds") (auto simp: frame_consts)
  obtain bs where "length bs \<le> length ds1 + 3" "snd (receive_all crc cap bs (R_Data False c ds1)) = R_Idle"
    using drain_frame[OF assms, of ds1 crc c] by auto
  with ds1 R_Data show ?thesis
    by (intro exI[of _ "0 # bs"]) (simp add: split_beta)
qed

text \<open>C13: The decoder is never stuck for good: from every legal state, of a packet that can hold
  at least the CRC, some sequence of at most five bytes more than the packet holds brings
  it back to waiting for a frame, so that the next frame is delivered. (The frames that a
  peer normally sends need not contain such a sequence, C21.)\<close>

theorem decoder_can_recover:
  assumes "packet_wf p" "decoder_ok d" "0 < getMaxDataLength p"
  shows "\<exists>bs errs d' p' log. length bs \<le> getDataLength p + 5 \<and>
    decode_stream crc bus bs d p = Inr (errs, d', p', log) \<and> d_state d' = D_IDLE \<and> packet_wf p'"
proof -
  have cap: "0 < m_maxDataLen p"
    using assms(3) by (simp add: getMaxDataLength_def)
  obtain bs where bs: "length bs \<le> (case receiver_of d p of R_Data esc c ds \<Rightarrow> length ds | _ \<Rightarrow> 0) + 5"
    "snd (receive_all crc (m_maxDataLen p) bs (receiver_of d p)) = R_Idle"
    using receiver_recovers[OF cap, of "receiver_of d p" crc] by blast
  obtain errs d' p' log where run: "decode_stream crc bus bs d p = Inr (errs, d', p', log)"
    "receiver_of d' p' = R_Idle" "step_frame d p d' p'"
    using decode_stream_refines[OF assms(1,2), of crc bus bs] bs(2) by auto
  have "d_state d' = D_IDLE"
    using run(2) step_frameD(2)[OF run(3)]
    by (cases "d_state d'") (auto simp: receiver_of_def decoder_ok_def)
  moreover have "length bs \<le> getDataLength p + 5"
    using bs(1) assms(1) by (auto simp: receiver_of_def getDataLength_def split: dstate.splits)
  ultimately show ?thesis
    using run step_frameD(1)[OF run(3)] by blast
qed

theorem decoder_can_recover_witness:
  "\<exists>bs errs d' p' log. length bs \<le> getDataLength (blank_packet 3) + 5 \<and>
    decode_stream crc8_poly07 None bs (new_decoder\<lparr>d_state := D_DATA, d_escape := True\<rparr>) (blank_packet 3)
      = Inr (errs, d', p', log) \<and> d_state d' = D_IDLE \<and> packet_wf p'"
  by (rule decoder_can_recover)
    (simp_all add: blank_packet_wf size_range_def decoder_ok_def getMaxDataLength_def)

end
