(* ===== verification/Py_Packet.thy ===== *)
theory Py_Packet
  imports Prelude
begin

text \<open>
  The Python port: what the modules of \<^verbatim>\<open>duino_bus\<close> use of the language, and the module
  \<^verbatim>\<open>duino_bus/packet.py\<close> (\<open>ErrorCode\<close> and \<open>Packet\<close>). Python objects are shared by reference,
  and the port does share them (\<open>Packer\<close> writes into the bytearray of a packet, the
  decoder hands out the one packet it fills again and again), so packets and bytearrays
  live in a heap. Integers are unbounded; a byte of a bytearray is an \<open>8 word\<close>.
\<close>

section \<open>Python values\<close>

text \<open>The exceptions the code can raise. What an operation did before it raised is not kept.\<close>

datatype py_exn = IndexError | ValueError | OverflowError | UnicodeEncodeError | UnicodeDecodeError
  | SerialTimeoutException | SerialException | SocketTimeout | OSError

type_synonym 'a py = "py_exn + 'a"

type_synonym ref = nat

text \<open>\<open>xs[i]\<close> and \<open>xs[i:j]\<close>, with negative indices counting from the end.\<close>

definition py_index :: "'a list \<Rightarrow> int \<Rightarrow> 'a py" where
  "py_index xs i =
     (let n = int (length xs) in
      if 0 \<le> i \<and> i < n then Inr (xs ! nat i)
      else if - n \<le> i \<and> i < 0 then Inr (xs ! nat (n + i))
      else Inl IndexError)"

definition py_bound :: "int \<Rightarrow> int \<Rightarrow> int" where
  "py_bound n i = (if i < 0 then max 0 (n + i) else min i n)"

definition py_slice :: "'a list \<Rightarrow> int \<Rightarrow> int \<Rightarrow> 'a list" where
  "py_slice xs i j =
     (let lo = py_bound (int (length xs)) i; hi = py_bound (int (length xs)) j in
      take (nat (hi - lo)) (drop (nat lo) xs))"

text \<open>An integer as a byte: \<^verbatim>\<open>bytearray.append\<close> raises \<open>ValueError\<close>, \<^verbatim>\<open>int.to_bytes(1, 'little')\<close>
  raises \<open>OverflowError\<close> when it is out of range.\<close>

definition is_byte :: "int \<Rightarrow> bool" where
  "is_byte i \<longleftrightarrow> 0 \<le> i \<and> i < 256"

definition to_bytes_1 :: "int \<Rightarrow> (u8 list) py" where
  "to_bytes_1 i = (if is_byte i then Inr [word_of_int i] else Inl OverflowError)"

definition bytearray_append :: "u8 list \<Rightarrow> int \<Rightarrow> (u8 list) py" where
  "bytearray_append xs i = (if is_byte i then Inr (xs @ [word_of_int i]) else Inl ValueError)"

lemma is_byte_uint [simp]: "is_byte (uint (b :: u8))"
  using uint_lt2p[of b] by (simp add: is_byte_def)

lemma is_byteE:
  assumes "is_byte i"
  obtains b :: u8 where "i = uint b"
proof
  show "i = uint (word_of_int i :: u8)"
    using assms by (simp add: is_byte_def uint_word_of_int)
qed

lemma py_index_nat [simp]: "i < length xs \<Longrightarrow> py_index xs (int i) = Inr (xs ! i)"
  by (simp add: py_index_def)

lemma py_index_last [simp]: "xs \<noteq> [] \<Longrightarrow> py_index xs (- 1) = Inr (last xs)"
  by (cases xs rule: rev_cases) (auto simp: py_index_def nat_add_distrib)

lemma py_slice_butlast [simp]: "py_slice xs 0 (- 1) = butlast xs"
proof (cases xs rule: rev_cases)
  case (snoc ys y)
  then show ?thesis by (simp add: py_slice_def py_bound_def)
qed (simp add: py_slice_def py_bound_def)

lemma py_slice_nat: "py_slice xs (int i) (int i + int k) = take k (drop i xs)"
proof -
  have "nat (min (int i + int k) (int (length xs)) - min (int i) (int (length xs)))
      = min k (length xs - i)"
    by (auto simp: min_def)
  moreover have "drop (nat (min (int i) (int (length xs)))) xs = drop i xs"
    by (auto simp: min_def)
  ultimately show ?thesis
    by (simp add: py_slice_def py_bound_def Let_def min_def)
qed

section \<open>The heap\<close>

text \<open>
  A reference is the position of an object among the objects of its class created so far;
  nothing is ever removed. \<open>Bytes\<close> is an immutable \<^verbatim>\<open>bytes\<close> object.
\<close>

record py_packet =
  pk_cmd :: int
  pk_data :: ref
  pk_crc :: int

record py_heap =
  hp_arrays :: "u8 list list"
  hp_packets :: "py_packet list"

datatype py_bytes = Bytes "u8 list" | ByteArray ref

definition array_at :: "py_heap \<Rightarrow> ref \<Rightarrow> u8 list" where
  "array_at h a = hp_arrays h ! a"

definition packet_at :: "py_heap \<Rightarrow> ref \<Rightarrow> py_packet" where
  "packet_at h r = hp_packets h ! r"

definition write_array :: "ref \<Rightarrow> u8 list \<Rightarrow> py_heap \<Rightarrow> py_heap" where
  "write_array a bs h = h\<lparr>hp_arrays := (hp_arrays h)[a := bs]\<rparr>"

definition write_packet_at :: "ref \<Rightarrow> py_packet \<Rightarrow> py_heap \<Rightarrow> py_heap" where
  "write_packet_at r p h = h\<lparr>hp_packets := (hp_packets h)[r := p]\<rparr>"

definition new_array :: "u8 list \<Rightarrow> py_heap \<Rightarrow> ref \<times> py_heap" where
  "new_array bs h = (length (hp_arrays h), h\<lparr>hp_arrays := hp_arrays h @ [bs]\<rparr>)"

fun bytes_in :: "py_heap \<Rightarrow> py_bytes \<Rightarrow> u8 list" where
  "bytes_in h (Bytes bs) = bs"
| "bytes_in h (ByteArray a) = array_at h a"

text \<open>\<open>self.data\<close> of a packet, read through the reference.\<close>

definition pkt_data :: "py_heap \<Rightarrow> ref \<Rightarrow> u8 list" where
  "pkt_data h r = array_at h (pk_data (packet_at h r))"

section \<open>What is printed and logged\<close>

text \<open>
  Formatted output is kept as its format and its arguments. \<open>Py_dump_mem\<close> is a call of
  \<open>dump_mem\<close>, \<open>Py_log\<close> one of \<open>LOGGER.log\<close> with a message as a list of code points.
\<close>

datatype py_event =
    Py_print string "log_arg list"
  | Py_error string "log_arg list"
  | Py_debug string
  | Py_info string "log_arg list"
  | Py_log int "nat list"
  | Py_dump_mem "u8 list" string

section \<open>ErrorCode\<close>

definition ErrorCode_NONE :: int where "ErrorCode_NONE = 0"
definition ErrorCode_NOT_DONE :: int where "ErrorCode_NOT_DONE = 1"
definition ErrorCode_CRC :: int where "ErrorCode_CRC = 2"
definition ErrorCode_TIMEOUT :: int where "ErrorCode_TIMEOUT = 3"
definition ErrorCode_TOO_MUCH_DATA :: int where "ErrorCode_TOO_MUCH_DATA = 4"
definition ErrorCode_TOO_SMALL :: int where "ErrorCode_TOO_SMALL = 5"
definition ErrorCode_BAD_STATE :: int where "ErrorCode_BAD_STATE = 6"
definition ErrorCode_OS :: int where "ErrorCode_OS = 7"
definition ErrorCode_NO_DEVICE :: int where "ErrorCode_NO_DEVICE = 8"
definition ErrorCode_NOT_OPEN :: int where "ErrorCode_NOT_OPEN = 9"

lemmas py_codes = ErrorCode_NONE_def ErrorCode_NOT_DONE_def ErrorCode_CRC_def ErrorCode_TIMEOUT_def
  ErrorCode_TOO_MUCH_DATA_def ErrorCode_TOO_SMALL_def ErrorCode_BAD_STATE_def ErrorCode_OS_def
  ErrorCode_NO_DEVICE_def ErrorCode_NOT_OPEN_def

definition ERROR_STRS :: "string list" where
  "ERROR_STRS = [''NONE'', ''NOT_DONE'', ''CRC'', ''TIMEOUT'', ''TOO_MUCH_DATA'', ''TOO_SMALL'',
     ''BAD_STATE'', ''OS'', ''NO_DEVICE'', ''NOT_OPEN'']"

definition py_as_str :: "int \<Rightarrow> string py" where
  "py_as_str err =
     (if err < 0 \<or> err > int (length ERROR_STRS) then Inr ''???'' else py_index ERROR_STRS err)"

section \<open>Packet\<close>

definition PY_END :: int where "PY_END = 0xC0"
definition PY_ESC :: int where "PY_ESC = 0xDB"
definition PY_ESC_END :: int where "PY_ESC_END = 0xDC"
definition PY_ESC_ESC :: int where "PY_ESC_ESC = 0xDD"

lemmas py_frame_consts = PY_END_def PY_ESC_def PY_ESC_END_def PY_ESC_ESC_def

definition MAX_DATA_LEN :: nat where "MAX_DATA_LEN = 256"

text \<open>
  \<open>CRC_FN\<close> comes from \<^verbatim>\<open>crcmod\<close>, which is not part of the repository: \<open>crc_fn data crc\<close> goes on
  from the 8-bit value \<open>crc\<close> over the bytes \<open>data\<close>. It is an argument of the definitions.
\<close>

type_synonym crc_fn = "u8 list \<Rightarrow> u8 \<Rightarrow> u8"

text \<open>The constructor; a bytearray is kept, other data is copied into a new one.\<close>

definition py_new_packet :: "int option \<Rightarrow> py_bytes option \<Rightarrow> py_heap \<Rightarrow> ref \<times> py_heap" where
  "py_new_packet cmd data h =
     (let cmd = (case cmd of None \<Rightarrow> 0 | Some c \<Rightarrow> c);
          (a, h) = (case data of
              Some (ByteArray a) \<Rightarrow> (a, h)
            | Some (Bytes bs) \<Rightarrow> new_array bs h
            | None \<Rightarrow> new_array [] h)
      in (length (hp_packets h),
          h\<lparr>hp_packets := hp_packets h @ [\<lparr>pk_cmd = cmd, pk_data = a, pk_crc = 0\<rparr>]\<rparr>))"

definition py_dump :: "string \<Rightarrow> ref \<Rightarrow> py_heap \<Rightarrow> py_event list" where
  "py_dump label r h =
     (let p = packet_at h r; data = pkt_data h r in
      Py_print ''%s Command: 0x%02x (%s) Len: %d CRC: 0x%02x''
        [A_Str label, A_Int (pk_cmd p), A_Int (pk_cmd p), A_Size (length data), A_Int (pk_crc p)]
      # (if length data > 0 then [Py_dump_mem data label] else []))"

definition get_command :: "ref \<Rightarrow> py_heap \<Rightarrow> int" where
  "get_command r h = pk_cmd (packet_at h r)"

definition set_command :: "int \<Rightarrow> ref \<Rightarrow> py_heap \<Rightarrow> py_heap" where
  "set_command cmd r h = write_packet_at r ((packet_at h r)\<lparr>pk_cmd := cmd\<rparr>) h"

definition get_data_len :: "ref \<Rightarrow> py_heap \<Rightarrow> nat" where
  "get_data_len r h = length (pkt_data h r)"

text \<open>\<open>get_data\<close> returns a copy.\<close>

definition get_data :: "ref \<Rightarrow> py_heap \<Rightarrow> ref \<times> py_heap" where
  "get_data r h = new_array (pkt_data h r) h"

definition get_data_byte :: "int \<Rightarrow> ref \<Rightarrow> py_heap \<Rightarrow> int py" where
  "get_data_byte idx r h = bind_res (py_index (pkt_data h r) idx) (\<lambda>b. Inr (uint b))"

definition set_data :: "py_bytes \<Rightarrow> ref \<Rightarrow> py_heap \<Rightarrow> py_heap" where
  "set_data data r h =
     (let (a, h) = (case data of ByteArray a \<Rightarrow> (a, h) | Bytes bs \<Rightarrow> new_array bs h)
      in write_packet_at r ((packet_at h r)\<lparr>pk_data := a\<rparr>) h)"

definition append_byte :: "int \<Rightarrow> ref \<Rightarrow> py_heap \<Rightarrow> py_heap py" where
  "append_byte byte r h =
     bind_res (bytearray_append (pkt_data h r) byte) (\<lambda>bs.
       Inr (write_array (pk_data (packet_at h r)) bs h))"

definition append_data :: "py_bytes \<Rightarrow> ref \<Rightarrow> py_heap \<Rightarrow> py_heap" where
  "append_data data r h =
     write_array (pk_data (packet_at h r)) (pkt_data h r @ bytes_in h data) h"

definition get_crc :: "ref \<Rightarrow> py_heap \<Rightarrow> int" where
  "get_crc r h = pk_crc (packet_at h r)"

definition calc_crc :: "crc_fn \<Rightarrow> ref \<Rightarrow> py_heap \<Rightarrow> int py" where
  "calc_crc crc_fn r h =
     bind_res (to_bytes_1 (pk_cmd (packet_at h r))) (\<lambda>cmd.
       let crc = crc_fn cmd 0 in Inr (uint (crc_fn (pkt_data h r) crc)))"

definition calc_and_store_crc :: "crc_fn \<Rightarrow> ref \<Rightarrow> py_heap \<Rightarrow> py_heap py" where
  "calc_and_store_crc crc_fn r h =
     bind_res (calc_crc crc_fn r h) (\<lambda>c.
       Inr (write_packet_at r ((packet_at h r)\<lparr>pk_crc := c\<rparr>) h))"

definition extract_crc :: "ref \<Rightarrow> py_heap \<Rightarrow> (int \<times> py_heap) py" where
  "extract_crc r h =
     bind_res (py_index (pkt_data h r) (- 1)) (\<lambda>c.
       let h = write_packet_at r ((packet_at h r)\<lparr>pk_crc := uint c\<rparr>) h;
           (a, h) = new_array (py_slice (pkt_data h r) 0 (- 1)) h;
           h = write_packet_at r ((packet_at h r)\<lparr>pk_data := a\<rparr>) h
       in Inr (get_crc r h, h))"

section \<open>Reading the heap after writing it\<close>

text \<open>References that a packet of the heap can have.\<close>

definition heap_ok :: "py_heap \<Rightarrow> bool" where
  "heap_ok h \<longleftrightarrow> (\<forall>p \<in> set (hp_packets h). pk_data p < length (hp_arrays h))"

definition packet_in :: "ref \<Rightarrow> py_heap \<Rightarrow> bool" where
  "packet_in r h \<longleftrightarrow> heap_ok h \<and> r < length (hp_packets h)"

text \<open>Everything but the packet \<open>r\<close> and its array stays as it is; new arrays may appear.\<close>

definition others_kept :: "ref \<Rightarrow> py_heap \<Rightarrow> py_heap \<Rightarrow> bool" where
  "others_kept r h h' \<longleftrightarrow> length (hp_packets h') = length (hp_packets h) \<and>
     (\<forall>q. q \<noteq> r \<longrightarrow> packet_at h' q = packet_at h q) \<and>
     length (hp_arrays h) \<le> length (hp_arrays h') \<and>
     (\<forall>a < length (hp_arrays h). a \<noteq> pk_data (packet_at h r) \<longrightarrow> array_at h' a = array_at h a)"

lemma packet_in_data: "packet_in r h \<Longrightarrow> pk_data (packet_at h r) < length (hp_arrays h)"
  by (simp add: packet_in_def heap_ok_def packet_at_def)

lemma heap_simps [simp]:
  "packet_at (write_array a bs h) r = packet_at h r"
  "array_at (write_packet_at r p h) a = array_at h a"
  "hp_packets (write_array a bs h) = hp_packets h" "hp_arrays (write_packet_at r p h) = hp_arrays h"
  "length (hp_packets (write_packet_at r p h)) = length (hp_packets h)"
  "length (hp_arrays (write_array a bs h)) = length (hp_arrays h)"
  "a < length (hp_arrays h) \<Longrightarrow> array_at (write_array a bs h) a = bs"
  "a \<noteq> a' \<Longrightarrow> array_at (write_array a bs h) a' = array_at h a'"
  "r < length (hp_packets h) \<Longrightarrow> packet_at (write_packet_at r p h) r = p"
  "r \<noteq> r' \<Longrightarrow> packet_at (write_packet_at r p h) r' = packet_at h r'"
  by (simp_all add: write_array_def write_packet_at_def packet_at_def array_at_def)

lemma heap_ok_write:
  "heap_ok h \<Longrightarrow> pk_data p < length (hp_arrays h) \<Longrightarrow> heap_ok (write_packet_at r p h)"
  "heap_ok h \<Longrightarrow> heap_ok (write_array a bs h)"
  by (auto simp: heap_ok_def write_packet_at_def write_array_def dest!: set_update_subset_insert[THEN subsetD])

text \<open>The operations on a packet that lies in the heap.\<close>

lemma append_byte_ok:
  assumes "packet_in r h"
  shows "\<exists>h'. append_byte (uint b) r h = Inr h' \<and> packet_in r h' \<and> pkt_data h' r = pkt_data h r @ [b] \<and>
    get_command r h' = get_command r h \<and> others_kept r h h'"
  using assms packet_in_data[OF assms]
  by (auto simp: append_byte_def bytearray_append_def pkt_data_def packet_in_def get_command_def
      others_kept_def heap_ok_write)

lemma set_command_ok:
  assumes "packet_in r h"
  shows "packet_in r (set_command c r h)" "pkt_data (set_command c r h) r = pkt_data h r"
    "get_command r (set_command c r h) = c" "others_kept r h (set_command c r h)"
    "pk_data (packet_at (set_command c r h) r) = pk_data (packet_at h r)"
  using assms packet_in_data[OF assms]
  by (auto simp: set_command_def pkt_data_def packet_in_def get_command_def others_kept_def heap_ok_write)

lemma new_array_simps [simp]:
  "fst (new_array bs h) = length (hp_arrays h)" "hp_packets (snd (new_array bs h)) = hp_packets h"
  "length (hp_arrays (snd (new_array bs h))) = length (hp_arrays h) + 1"
  "packet_at (snd (new_array bs h)) r = packet_at h r"
  "a < length (hp_arrays h) \<Longrightarrow> array_at (snd (new_array bs h)) a = array_at h a"
  "a = length (hp_arrays h) \<Longrightarrow> array_at (snd (new_array bs h)) a = bs"
  by (simp_all add: new_array_def packet_at_def array_at_def nth_append)

lemma heap_ok_new_array: "heap_ok h \<Longrightarrow> heap_ok (snd (new_array bs h))"
  by (auto simp: heap_ok_def new_array_def)

lemma set_data_fresh:
  assumes "packet_in r h"
  shows "\<exists>h'. (let (a, h1) = new_array bs h in set_data (ByteArray a) r h1) = h' \<and> packet_in r h' \<and>
    pkt_data h' r = bs \<and> get_command r h' = get_command r h \<and> others_kept r h h'"
proof -
  let ?h1 = "snd (new_array bs h)"
  have "heap_ok (write_packet_at r ((packet_at h r)\<lparr>pk_data := length (hp_arrays h)\<rparr>) ?h1)"
    using assms by (intro heap_ok_write heap_ok_new_array) (auto simp: packet_in_def)
  then show ?thesis
    using assms
    by (auto simp: set_data_def split_beta pkt_data_def packet_in_def get_command_def others_kept_def)
qed

lemma calc_crc_ok:
  "get_command r h = uint (c :: u8) \<Longrightarrow>
     calc_crc crc_fn r h = Inr (uint (crc_fn (pkt_data h r) (crc_fn [c] 0)))"
  by (simp add: calc_crc_def to_bytes_1_def get_command_def)

lemma extract_crc_ok:
  assumes "packet_in r h" "pkt_data h r = ds @ [x]"
  shows "\<exists>h'. extract_crc r h = Inr (uint x, h') \<and> packet_in r h' \<and> pkt_data h' r = ds \<and>
    get_command r h' = get_command r h \<and> get_crc r h' = uint x \<and> others_kept r h h'"
proof -
  let ?h1 = "write_packet_at r ((packet_at h r)\<lparr>pk_crc := uint x\<rparr>) h"
  let ?h2 = "snd (new_array ds ?h1)"
  let ?h3 = "write_packet_at r ((packet_at h r)\<lparr>pk_crc := uint x, pk_data := length (hp_arrays h)\<rparr>) ?h2"
  have r: "r < length (hp_packets h)"
    using assms(1) by (simp add: packet_in_def)
  have "heap_ok ?h1"
    using assms(1) packet_in_data[OF assms(1)] by (intro heap_ok_write) (auto simp: packet_in_def)
  then have "heap_ok ?h3"
    using assms(1) packet_in_data[OF assms(1)]
    by (intro heap_ok_write heap_ok_new_array) (auto simp: packet_in_def)
  moreover have "extract_crc r h = Inr (uint x, ?h3)"
    using assms r by (simp add: extract_crc_def split_beta pkt_data_def get_crc_def)
  ultimately show ?thesis
    using r by (auto simp: packet_in_def pkt_data_def get_command_def get_crc_def others_kept_def)
qed

lemma calc_and_store_crc_ok:
  assumes "packet_in r h" "get_command r h = uint (c :: u8)"
  shows "\<exists>h'. calc_and_store_crc crc_fn r h = Inr h' \<and> packet_in r h' \<and> pkt_data h' r = pkt_data h r \<and>
    get_command r h' = get_command r h \<and> get_crc r h' = uint (crc_fn (pkt_data h r) (crc_fn [c] 0)) \<and>
    others_kept r h h'"
  using assms packet_in_data[OF assms(1)]
  by (auto simp: calc_and_store_crc_def calc_crc_ok packet_in_def pkt_data_def get_command_def get_crc_def
      others_kept_def heap_ok_write)

end
