(* ===== verification/Py_Codec.thy ===== *)
theory Py_Codec
  imports Py_Packet
begin

text \<open>
  The Python port of the codec: \<open>PacketDecoder\<close> of \<^verbatim>\<open>duino_bus/packet_decoder.py\<close> and
  \<open>PacketEncoder\<close> of \<^verbatim>\<open>duino_bus/packet_encoder.py\<close>, one definition per method. The states
  are integer constants, so that a state that is none of them can be held. An operation
  returns its code, the object, the heap and what was printed or logged.
\<close>

section \<open>PacketDecoder\<close>

definition PD_IDLE :: int where "PD_IDLE = 0"
definition PD_COMMAND :: int where "PD_COMMAND = 1"
definition PD_DATA :: int where "PD_DATA = 2"

lemmas pd_states = PD_IDLE_def PD_COMMAND_def PD_DATA_def

record py_decoder =
  pd_packet :: ref
  pd_state :: int
  pd_escape :: bool
  pd_debug :: bool

definition py_new_decoder :: "ref \<Rightarrow> py_decoder" where
  "py_new_decoder pkt = \<lparr>pd_packet = pkt, pd_state = PD_IDLE, pd_escape = False, pd_debug = False\<rparr>"

definition py_decoder_set_debug :: "bool \<Rightarrow> py_decoder \<Rightarrow> py_decoder" where
  "py_decoder_set_debug debug d = d\<lparr>pd_debug := debug\<rparr>"

type_synonym py_decode_result = "(int \<times> py_decoder \<times> py_heap \<times> py_event list) py"

definition decode_byte_idle :: "int \<Rightarrow> py_decoder \<Rightarrow> py_heap \<Rightarrow> py_decode_result" where
  "decode_byte_idle byte d h =
     (let d = (if byte = PY_END then d\<lparr>pd_state := PD_COMMAND\<rparr> else d) in
      Inr (ErrorCode_NOT_DONE, d, h, []))"

definition decode_byte_command :: "int \<Rightarrow> py_decoder \<Rightarrow> py_heap \<Rightarrow> py_decode_result" where
  "decode_byte_command byte d h =
     (if byte = PY_END \<and> \<not> pd_escape d then Inr (ErrorCode_NOT_DONE, d, h, [])
      else
        let d = d\<lparr>pd_escape := False\<rparr>;
            h = set_command byte (pd_packet d) h;
            (a, h) = new_array [] h;
            h = set_data (ByteArray a) (pd_packet d) h
        in Inr (ErrorCode_NOT_DONE, d\<lparr>pd_state := PD_DATA\<rparr>, h, []))"

definition decode_byte_data :: "crc_fn \<Rightarrow> int \<Rightarrow> py_decoder \<Rightarrow> py_heap \<Rightarrow> py_decode_result" where
  "decode_byte_data crc_fn byte d h =
     (let pkt = pd_packet d in
      if byte = PY_END \<and> \<not> pd_escape d then
        let d = d\<lparr>pd_state := PD_IDLE\<rparr> in
        if get_data_len pkt h = 0 then
          Inr (ErrorCode_TOO_SMALL, d\<lparr>pd_state := PD_COMMAND\<rparr>, h, [])
        else
          let d = d\<lparr>pd_state := PD_IDLE\<rparr> in
          bind_res (extract_crc pkt h) (\<lambda>(rcvd_crc, h).
          bind_res (calc_crc crc_fn pkt h) (\<lambda>expected_crc.
            if rcvd_crc = expected_crc then
              Inr (ErrorCode_NONE, d, h, if pd_debug d then py_dump ''Rcvd'' pkt h else [])
            else
              Inr (ErrorCode_CRC, d, h,
                Py_error ''CRC Error: Received 0x%02x Expected 0x%02x''
                    [A_Int rcvd_crc, A_Int expected_crc]
                # (if pd_debug d then py_dump ''CRC '' pkt h else []))))
      else
        let d = d\<lparr>pd_escape := False\<rparr> in
        if get_data_len pkt h \<ge> MAX_DATA_LEN then
          Inr (ErrorCode_TOO_MUCH_DATA, d, h,
            (if pd_debug d then py_dump ''2Big'' pkt h else [])
            @ [Py_print ''Returning TOO_MUCH_DATA'' []])
        else
          bind_res (append_byte byte pkt h) (\<lambda>h. Inr (ErrorCode_NOT_DONE, d, h, [])))"

definition decode_byte :: "crc_fn \<Rightarrow> int \<Rightarrow> py_decoder \<Rightarrow> py_heap \<Rightarrow> py_decode_result" where
  "decode_byte crc_fn byte d h =
     (if pd_state d \<noteq> PD_IDLE \<and> \<not> pd_escape d \<and> byte = PY_ESC then
        Inr (ErrorCode_NOT_DONE, d\<lparr>pd_escape := True\<rparr>, h, [])
      else
        let byte =
          (if pd_state d \<noteq> PD_IDLE \<and> pd_escape d
           then (if byte = PY_ESC_END then PY_END else if byte = PY_ESC_ESC then PY_ESC else byte)
           else byte) in
        if pd_state d = PD_IDLE then decode_byte_idle byte d h
        else if pd_state d = PD_COMMAND then decode_byte_command byte d h
        else if pd_state d = PD_DATA then decode_byte_data crc_fn byte d h
        else Inr (ErrorCode_BAD_STATE, d, h, []))"

text \<open>Feeding bytes, as the tests and the receiving thread do.\<close>

fun py_decode_stream ::
    "crc_fn \<Rightarrow> u8 list \<Rightarrow> py_decoder \<Rightarrow> py_heap \<Rightarrow> (int list \<times> py_decoder \<times> py_heap \<times> py_event list) py" where
  "py_decode_stream crc_fn [] d h = Inr ([], d, h, [])"
| "py_decode_stream crc_fn (b # bs) d h =
     bind_res (decode_byte crc_fn (uint b) d h) (\<lambda>(err, d, h, out).
     bind_res (py_decode_stream crc_fn bs d h) (\<lambda>(errs, d, h, out').
       Inr (err # errs, d, h, out @ out')))"

section \<open>PacketEncoder\<close>

definition PE_IDLE :: int where "PE_IDLE = 0"
definition PE_COMMAND :: int where "PE_COMMAND = 1"
definition PE_DATA :: int where "PE_DATA = 2"
definition PE_ESCAPE :: int where "PE_ESCAPE = 3"

lemmas pe_states = PE_IDLE_def PE_COMMAND_def PE_DATA_def PE_ESCAPE_def

record py_encoder =
  pe_packet :: ref
  pe_state :: int
  pe_encode_idx :: nat
  pe_escape_char :: int
  pe_debug :: bool

text \<open>The constructor creates an empty packet of its own.\<close>

definition py_new_encoder :: "py_heap \<Rightarrow> py_encoder \<times> py_heap" where
  "py_new_encoder h =
     (let (r, h) = py_new_packet None None h
      in (\<lparr>pe_packet = r, pe_state = PE_IDLE, pe_encode_idx = 0, pe_escape_char = 0, pe_debug = False\<rparr>, h))"

definition py_encoder_set_debug :: "bool \<Rightarrow> py_encoder \<Rightarrow> py_encoder" where
  "py_encoder_set_debug debug e = e\<lparr>pe_debug := debug\<rparr>"

definition encode_start ::
    "crc_fn \<Rightarrow> ref \<Rightarrow> py_encoder \<Rightarrow> py_heap \<Rightarrow> (py_encoder \<times> py_heap \<times> py_event list) py" where
  "encode_start crc_fn pkt e h =
     (let e = e\<lparr>pe_packet := pkt\<rparr> in
      bind_res (calc_and_store_crc crc_fn (pe_packet e) h) (\<lambda>h.
        Inr (e\<lparr>pe_state := PE_IDLE\<rparr>, h, if pe_debug e then py_dump ''Sent'' (pe_packet e) h else [])))"

definition handle_escape :: "int \<Rightarrow> py_encoder \<Rightarrow> (int \<times> int) \<times> py_encoder" where
  "handle_escape byte e =
     (if byte = PY_END then ((PE_ESCAPE, PY_ESC), e\<lparr>pe_escape_char := PY_ESC_END\<rparr>)
      else if byte = PY_ESC then ((PE_ESCAPE, PY_ESC), e\<lparr>pe_escape_char := PY_ESC_ESC\<rparr>)
      else ((PE_DATA, byte), e))"

type_synonym py_encode_result = "((int \<times> int) \<times> py_encoder) py"

definition encode_byte_idle :: "py_encoder \<Rightarrow> py_encode_result" where
  "encode_byte_idle e = Inr ((ErrorCode_NOT_DONE, PY_END), e\<lparr>pe_state := PE_COMMAND\<rparr>)"

definition encode_byte_command :: "py_heap \<Rightarrow> py_encoder \<Rightarrow> py_encode_result" where
  "encode_byte_command h e =
     (let ((st, byte), e) = handle_escape (get_command (pe_packet e) h) e in
      Inr ((ErrorCode_NOT_DONE, byte), e\<lparr>pe_state := st, pe_encode_idx := 0\<rparr>))"

definition encode_byte_data :: "crc_fn \<Rightarrow> py_heap \<Rightarrow> py_encoder \<Rightarrow> py_encode_result" where
  "encode_byte_data crc_fn h e =
     (if pe_encode_idx e < get_data_len (pe_packet e) h then
        bind_res (get_data_byte (int (pe_encode_idx e)) (pe_packet e) h) (\<lambda>b.
          let ((st, byte), e) = handle_escape b e;
              e = e\<lparr>pe_state := st, pe_encode_idx := pe_encode_idx e + 1\<rparr>
          in Inr ((ErrorCode_NOT_DONE, byte), e))
      else if pe_encode_idx e = get_data_len (pe_packet e) h then
        bind_res (calc_crc crc_fn (pe_packet e) h) (\<lambda>c.
          let ((st, byte), e) = handle_escape c e;
              e = e\<lparr>pe_state := st, pe_encode_idx := pe_encode_idx e + 1\<rparr>
          in Inr ((ErrorCode_NOT_DONE, byte), e))
      else Inr ((ErrorCode_NONE, PY_END), e\<lparr>pe_state := PE_IDLE\<rparr>))"

definition encode_byte_escape :: "py_encoder \<Rightarrow> py_encode_result" where
  "encode_byte_escape e = Inr ((ErrorCode_NOT_DONE, pe_escape_char e), e\<lparr>pe_state := PE_DATA\<rparr>)"

definition encode_byte :: "crc_fn \<Rightarrow> py_heap \<Rightarrow> py_encoder \<Rightarrow> py_encode_result" where
  "encode_byte crc_fn h e =
     (if pe_state e = PE_IDLE then encode_byte_idle e
      else if pe_state e = PE_COMMAND then encode_byte_command h e
      else if pe_state e = PE_DATA then encode_byte_data crc_fn h e
      else if pe_state e = PE_ESCAPE then encode_byte_escape e
      else Inr ((ErrorCode_BAD_STATE, 0), e))"

end
