(* ===== verification/Py_Refines.thy ===== *)
theory Py_Refines
  imports Framing Py_Codec
begin

text \<open>
  The two implementations of the codec side by side. The Python decoder refines a receiver
  of its own, which differs from the C++ one in what it does after an error; the Python
  encoder is simulated step by step by the C++ one. From this follows that each side
  understands what the other one writes, and where they part.
\<close>

section \<open>The same constants\<close>

lemma py_consts:
  "PY_END = uint END" "PY_ESC = uint ESC" "PY_ESC_END = uint ESC_END" "PY_ESC_ESC = uint ESC_ESC"
  by (simp_all add: py_frame_consts frame_consts)

lemma uint_eq [simp]: "uint (a :: u8) = uint b \<longleftrightarrow> a = b"
  by (simp add: word_uint_eq_iff)

definition py_code :: "error \<Rightarrow> int" where
  "py_code e = int (error_value e)"

lemma py_code_simps [simp]:
  "py_code NONE = ErrorCode_NONE" "py_code NOT_DONE = ErrorCode_NOT_DONE" "py_code CRC = ErrorCode_CRC"
  "py_code TOO_MUCH_DATA = ErrorCode_TOO_MUCH_DATA" "py_code TOO_SMALL = ErrorCode_TOO_SMALL"
  "py_code BAD_STATE = ErrorCode_BAD_STATE" "py_code TIMEOUT = ErrorCode_TIMEOUT" "py_code OS = ErrorCode_OS"
  by (simp_all add: py_code_def py_codes)

text \<open>
  Both CRC libraries compute the CRC that the documentation of \<open>Packet\<close> names. This is the
  hypothesis under which the implementations are compared.
\<close>

definition same_crc :: "crc_fns \<Rightarrow> crc_fn \<Rightarrow> bool" where
  "same_crc crc crc_fn \<longleftrightarrow> (\<forall>c ds. crc_fn ds (crc_fn [c] 0) = frame_crc crc c ds)"

lemma same_crcD: "same_crc crc crc_fn \<Longrightarrow> crc_fn ds (crc_fn [c] 0) = frame_crc crc c ds"
  by (simp add: same_crc_def)

definition py_crc8 :: crc_fn where
  "py_crc8 data crc = foldl (Crc8_byte crc8_poly07) crc data"

lemma same_crc_poly07: "same_crc crc8_poly07 py_crc8"
  by (simp add: same_crc_def py_crc8_def frame_crc_foldl[OF crc8_poly07_laws])

section \<open>The Python receiver\<close>

definition py_receive_end :: "crc_fns \<Rightarrow> u8 \<Rightarrow> u8 list \<Rightarrow> outcome \<times> receiver" where
  "py_receive_end crc c ds =
     (if ds = [] then (Too_Small, R_Command False)
      else if last ds = frame_crc crc c (butlast ds)
        then (Delivered c (butlast ds) (last ds), R_Idle)
      else (Bad_Crc, R_Idle))"

definition py_receive :: "crc_fns \<Rightarrow> u8 \<Rightarrow> receiver \<Rightarrow> outcome \<times> receiver" where
  "py_receive crc b r =
     (case r of
        R_Data False c ds \<Rightarrow> if b = END then py_receive_end crc c ds else receive crc MAX_DATA_LEN b r
      | _ \<Rightarrow> receive crc MAX_DATA_LEN b r)"

fun py_receive_all :: "crc_fns \<Rightarrow> u8 list \<Rightarrow> receiver \<Rightarrow> outcome list \<times> receiver" where
  "py_receive_all crc [] r = ([], r)"
| "py_receive_all crc (b # bs) r =
     (let (out, r) = py_receive crc b r; (outs, r) = py_receive_all crc bs r in (out # outs, r))"

lemma py_receive_all_append:
  "py_receive_all crc (xs @ ys) r =
     (let (outs, r) = py_receive_all crc xs r; (outs', r) = py_receive_all crc ys r
      in (outs @ outs', r))"
  by (induction xs arbitrary: r) (auto split: prod.splits)

section \<open>The decoder refines it\<close>

definition py_decoder_ok :: "py_decoder \<Rightarrow> py_heap \<Rightarrow> bool" where
  "py_decoder_ok d h \<longleftrightarrow> pd_state d \<in> {PD_IDLE, PD_COMMAND, PD_DATA} \<and>
     (pd_state d = PD_IDLE \<longrightarrow> \<not> pd_escape d) \<and> packet_in (pd_packet d) h \<and>
     (pd_state d = PD_DATA \<longrightarrow> is_byte (get_command (pd_packet d) h))"

definition py_receiver_of :: "py_decoder \<Rightarrow> py_heap \<Rightarrow> receiver" where
  "py_receiver_of d h =
     (if pd_state d = PD_COMMAND then R_Command (pd_escape d)
      else if pd_state d = PD_DATA
        then R_Data (pd_escape d) (word_of_int (get_command (pd_packet d) h)) (pkt_data h (pd_packet d))
      else R_Idle)"

fun py_delivered_in :: "outcome \<Rightarrow> ref \<Rightarrow> py_heap \<Rightarrow> bool" where
  "py_delivered_in (Delivered c ds x) r h \<longleftrightarrow>
     get_command r h = uint c \<and> pkt_data h r = ds \<and> get_crc r h = uint x"
| "py_delivered_in _ r h \<longleftrightarrow> True"

text \<open>What a step of the decoder keeps: its packet and flag, and all other packets.\<close>

definition py_frame :: "py_decoder \<Rightarrow> py_heap \<Rightarrow> py_decoder \<Rightarrow> py_heap \<Rightarrow> bool" where
  "py_frame d h d' h' \<longleftrightarrow> py_decoder_ok d' h' \<and> pd_packet d' = pd_packet d \<and> pd_debug d' = pd_debug d \<and>
     length (hp_packets h') = length (hp_packets h) \<and>
     (\<forall>q. q \<noteq> pd_packet d \<longrightarrow> packet_at h' q = packet_at h q)"

definition py_step :: "crc_fns \<Rightarrow> crc_fn \<Rightarrow> u8 \<Rightarrow> py_decoder \<Rightarrow> py_heap \<Rightarrow> outcome \<times> receiver \<Rightarrow> bool" where
  "py_step crc crc_fn b d h res \<longleftrightarrow>
     (\<exists>d' h' out. decode_byte crc_fn (uint b) d h = Inr (py_code (outcome_error (fst res)), d', h', out) \<and>
        py_receiver_of d' h' = snd res \<and> py_frame d h d' h' \<and> py_delivered_in (fst res) (pd_packet d) h')"

lemma py_unescape:
  "(if uint (b :: u8) = PY_ESC_END then PY_END else if uint b = PY_ESC_ESC then PY_ESC else uint b)
     = uint (unescape b)"
  by (simp add: py_consts unescape_def)

lemma py_states_distinct [simp]:
  "PD_IDLE \<noteq> PD_COMMAND" "PD_COMMAND \<noteq> PD_IDLE" "PD_IDLE \<noteq> PD_DATA" "PD_DATA \<noteq> PD_IDLE"
  "PD_COMMAND \<noteq> PD_DATA" "PD_DATA \<noteq> PD_COMMAND"
  by (simp_all add: pd_states)

lemma py_idle_step:
  assumes "py_decoder_ok d h" "pd_state d = PD_IDLE"
  shows "py_step crc crc_fn b d h (py_receive crc b (py_receiver_of d h))"
  using assms
  by (auto simp: py_step_def decode_byte_def decode_byte_idle_def py_receiver_of_def py_receive_def
      py_decoder_ok_def py_frame_def py_consts Let_def)

lemma py_command_step:
  assumes "py_decoder_ok d h" "pd_state d = PD_COMMAND"
  shows "py_step crc crc_fn b d h (py_receive crc b (py_receiver_of d h))"
proof -
  let ?r = "pd_packet d"
  have "packet_in ?r h" using assms(1) by (simp add: py_decoder_ok_def)
  note cmd = set_command_ok[OF this]
  show ?thesis
  proof (cases "\<not> pd_escape d \<and> (b = ESC \<or> b = END)")
    case True
    with assms show ?thesis
      by (auto simp: py_step_def decode_byte_def decode_byte_command_def py_receiver_of_def py_receive_def
          py_decoder_ok_def py_frame_def py_consts frame_consts)
  next
    case False
    define x where "x = (if pd_escape d then unescape b else b)"
    have plain: "\<not> (uint x = PY_END \<and> \<not> pd_escape d)"
      using False by (auto simp: py_consts x_def)
    define h' where "h' = (let h1 = set_command (uint x) ?r h; (a, h2) = new_array [] h1
      in set_data (ByteArray a) ?r h2)"
    have h': "packet_in ?r h'" "pkt_data h' ?r = []" "get_command ?r h' = uint x"
      "length (hp_packets h') = length (hp_packets h)" "\<forall>q. q \<noteq> ?r \<longrightarrow> packet_at h' q = packet_at h q"
      using set_data_fresh[OF cmd(1)[of "uint x"], of "[]"] cmd(3)[of "uint x"] cmd(4)[of "uint x"]
      by (auto simp: others_kept_def Let_def h'_def)
    have "decode_byte crc_fn (uint b) d h = decode_byte_command (uint x) d h"
      using assms(2) False by (auto simp: decode_byte_def py_consts unescape_def Let_def x_def)
    also have "\<dots> = Inr (ErrorCode_NOT_DONE, d\<lparr>pd_escape := False, pd_state := PD_DATA\<rparr>, h', [])"
      unfolding decode_byte_command_def if_not_P[OF plain] h'_def by (simp add: Let_def split_beta)
    finally have run: "decode_byte crc_fn (uint b) d h
      = Inr (ErrorCode_NOT_DONE, d\<lparr>pd_escape := False, pd_state := PD_DATA\<rparr>, h', [])" .
    have "py_receive crc b (py_receiver_of d h) = (Pending, R_Data False x [])"
      using assms(2) False by (cases "pd_escape d") (auto simp: py_receive_def py_receiver_of_def x_def)
    with run h' show ?thesis
      by (simp add: py_step_def py_receiver_of_def py_decoder_ok_def py_frame_def)
  qed
qed

lemma py_end_step:
  assumes "py_decoder_ok d h" "pd_state d = PD_DATA" "\<not> pd_escape d" "same_crc crc crc_fn"
  shows "py_step crc crc_fn END d h (py_receive crc END (py_receiver_of d h))"
proof -
  let ?r = "pd_packet d"
  have here: "packet_in ?r h" using assms(1) by (simp add: py_decoder_ok_def)
  obtain c :: u8 where c: "get_command ?r h = uint c"
    using assms(1,2) by (auto simp: py_decoder_ok_def elim: is_byteE)
  show ?thesis
  proof (cases "pkt_data h ?r" rule: rev_cases)
    case Nil
    with assms here c show ?thesis
      by (auto simp: py_step_def decode_byte_def decode_byte_data_def py_receiver_of_def py_receive_def
          py_receive_end_def py_decoder_ok_def py_frame_def Let_def py_consts get_data_len_def frame_consts)
  next
    case (snoc ds x)
    obtain h' where h': "extract_crc ?r h = Inr (uint x, h')" "packet_in ?r h'" "pkt_data h' ?r = ds"
      "get_command ?r h' = uint c" "get_crc ?r h' = uint x" "others_kept ?r h h'"
      using extract_crc_ok[OF here snoc] c by auto
    have "calc_crc crc_fn ?r h' = Inr (uint (frame_crc crc c ds))"
      using h'(3,4) assms(4) by (simp add: calc_crc_ok same_crcD)
    with assms snoc c h' show ?thesis
      by (auto simp: py_step_def decode_byte_def decode_byte_data_def py_receiver_of_def py_receive_def
          py_receive_end_def py_decoder_ok_def py_frame_def others_kept_def Let_def py_consts
          get_data_len_def frame_consts)
  qed
qed

lemma decode_byte_data_plain:
  assumes "\<not> (byte = PY_END \<and> \<not> pd_escape d)"
  shows "decode_byte_data crc_fn byte d h =
    (if get_data_len (pd_packet d) h \<ge> MAX_DATA_LEN then
       Inr (ErrorCode_TOO_MUCH_DATA, d\<lparr>pd_escape := False\<rparr>, h,
         (if pd_debug d then py_dump ''2Big'' (pd_packet d) h else [])
         @ [Py_print ''Returning TOO_MUCH_DATA'' []])
     else bind_res (append_byte byte (pd_packet d) h) (\<lambda>h. Inr (ErrorCode_NOT_DONE, d\<lparr>pd_escape := False\<rparr>, h, [])))"
  unfolding decode_byte_data_def Let_def if_not_P[OF assms] by simp

lemma py_data_step:
  assumes "py_decoder_ok d h" "pd_state d = PD_DATA" "pd_escape d \<or> b \<noteq> END"
  shows "py_step crc crc_fn b d h (py_receive crc b (py_receiver_of d h))"
proof -
  let ?r = "pd_packet d"
  have here: "packet_in ?r h" using assms(1) by (simp add: py_decoder_ok_def)
  show ?thesis
  proof (cases "\<not> pd_escape d \<and> b = ESC")
    case True
    with assms show ?thesis
      by (auto simp: py_step_def decode_byte_def py_receiver_of_def py_receive_def py_decoder_ok_def
          py_frame_def py_consts frame_consts)
  next
    case False
    define x where "x = (if pd_escape d then unescape b else b)"
    have plain: "\<not> (uint x = PY_END \<and> \<not> pd_escape d)"
      using assms(3) by (auto simp: py_consts x_def)
    have x: "decode_byte crc_fn (uint b) d h = decode_byte_data crc_fn (uint x) d h"
      using assms(2) False by (auto simp: decode_byte_def py_consts unescape_def Let_def x_def)
    have rec: "py_receive crc b (py_receiver_of d h) =
        (if MAX_DATA_LEN \<le> length (pkt_data h ?r)
         then (Overflow, R_Data False (word_of_int (get_command ?r h)) (pkt_data h ?r))
         else (Pending, R_Data False (word_of_int (get_command ?r h)) (pkt_data h ?r @ [x])))"
      using assms(2,3) False by (cases "pd_escape d") (auto simp: py_receive_def py_receiver_of_def x_def)
    obtain h' where h': "append_byte (uint x) ?r h = Inr h'" "packet_in ?r h'"
      "pkt_data h' ?r = pkt_data h ?r @ [x]" "get_command ?r h' = get_command ?r h" "others_kept ?r h h'"
      using append_byte_ok[OF here] by blast
    note step = py_step_def rec x decode_byte_data_plain[OF plain]
    show ?thesis
    proof (cases "MAX_DATA_LEN \<le> length (pkt_data h ?r)")
      case True
      with assms(1,2) show ?thesis
        unfolding step by (simp add: get_data_len_def py_receiver_of_def py_decoder_ok_def py_frame_def)
    next
      case False
      with assms(1,2) h' show ?thesis
        unfolding step
        by (simp add: get_data_len_def py_receiver_of_def py_decoder_ok_def py_frame_def others_kept_def)
    qed
  qed
qed

lemma py_decode_step:
  assumes "py_decoder_ok d h" "same_crc crc crc_fn"
  shows "py_step crc crc_fn b d h (py_receive crc b (py_receiver_of d h))"
proof -
  consider "pd_state d = PD_IDLE" | "pd_state d = PD_COMMAND" | "pd_state d = PD_DATA" "pd_escape d \<or> b \<noteq> END"
    | "pd_state d = PD_DATA" "\<not> pd_escape d" "b = END"
    using assms(1) by (auto simp: py_decoder_ok_def)
  then show ?thesis
    using assms py_idle_step py_command_step py_data_step py_end_step by cases auto
qed

lemma py_decode_stream_append:
  "py_decode_stream crc_fn (xs @ ys) d h =
     bind_res (py_decode_stream crc_fn xs d h) (\<lambda>(errs, d, h, out).
     bind_res (py_decode_stream crc_fn ys d h) (\<lambda>(errs', d, h, out').
       Inr (errs @ errs', d, h, out @ out')))"
  by (induction xs arbitrary: d h) (auto simp: bind_res_def split: sum.splits)

lemma py_decode_stream_refines:
  assumes "py_decoder_ok d h" "same_crc crc crc_fn"
  shows "\<exists>d' h' out. py_decode_stream crc_fn bs d h
      = Inr (map (py_code \<circ> outcome_error) (fst (py_receive_all crc bs (py_receiver_of d h))), d', h', out) \<and>
    py_receiver_of d' h' = snd (py_receive_all crc bs (py_receiver_of d h)) \<and> py_decoder_ok d' h' \<and>
    pd_packet d' = pd_packet d \<and>
    (bs \<noteq> [] \<longrightarrow> py_delivered_in (last (fst (py_receive_all crc bs (py_receiver_of d h)))) (pd_packet d) h')"
  using assms(1)
proof (induction bs arbitrary: d h)
  case Nil
  then show ?case by auto
next
  case (Cons b bs)
  obtain out1 r1 where rec: "py_receive crc b (py_receiver_of d h) = (out1, r1)" by fastforce
  obtain d1 h1 o1 where step1:
    "decode_byte crc_fn (uint b) d h = Inr (py_code (outcome_error out1), d1, h1, o1)"
    "py_receiver_of d1 h1 = r1" "py_decoder_ok d1 h1" "pd_packet d1 = pd_packet d"
    "py_delivered_in out1 (pd_packet d) h1"
    using py_decode_step[OF Cons.prems assms(2), of b] rec by (auto simp: py_step_def py_frame_def)
  obtain outs r' where recs: "py_receive_all crc bs r1 = (outs, r')" by fastforce
  have ne: "bs = [] \<or> outs \<noteq> []"
    using recs by (cases bs) (auto split: prod.splits)
  from Cons.IH[OF step1(3)] show ?case
    using step1 rec recs ne by (cases "bs = []") auto
qed

section \<open>The encoder\<close>

text \<open>The bytes a Python encoder still owes for the command \<open>c\<close> and the data \<open>ds\<close>.\<close>

definition py_rest :: "crc_fn \<Rightarrow> u8 \<Rightarrow> u8 list \<Rightarrow> nat \<Rightarrow> u8 list" where
  "py_rest crc_fn c ds i = drop i (ds @ [crc_fn ds (crc_fn [c] 0)])"

definition py_owed :: "crc_fn \<Rightarrow> u8 \<Rightarrow> u8 list \<Rightarrow> py_encoder \<Rightarrow> u8 list" where
  "py_owed crc_fn c ds e =
     (if pe_state e = PE_IDLE then END # slips (c # py_rest crc_fn c ds 0) @ [END]
      else if pe_state e = PE_COMMAND then slips (c # py_rest crc_fn c ds 0) @ [END]
      else if pe_state e = PE_DATA then slips (py_rest crc_fn c ds (pe_encode_idx e)) @ [END]
      else word_of_int (pe_escape_char e) # slips (py_rest crc_fn c ds (pe_encode_idx e)) @ [END])"

definition py_encoder_at :: "py_heap \<Rightarrow> u8 \<Rightarrow> u8 list \<Rightarrow> py_encoder \<Rightarrow> bool" where
  "py_encoder_at h c ds e \<longleftrightarrow> get_command (pe_packet e) h = uint c \<and> pkt_data h (pe_packet e) = ds \<and>
     pe_state e \<in> {PE_IDLE, PE_COMMAND, PE_DATA, PE_ESCAPE} \<and>
     (pe_state e = PE_ESCAPE \<longrightarrow> is_byte (pe_escape_char e))"

lemma pe_states_distinct [simp]:
  "PE_IDLE \<noteq> PE_COMMAND" "PE_COMMAND \<noteq> PE_IDLE" "PE_IDLE \<noteq> PE_DATA" "PE_DATA \<noteq> PE_IDLE"
  "PE_IDLE \<noteq> PE_ESCAPE" "PE_ESCAPE \<noteq> PE_IDLE" "PE_COMMAND \<noteq> PE_DATA" "PE_DATA \<noteq> PE_COMMAND"
  "PE_COMMAND \<noteq> PE_ESCAPE" "PE_ESCAPE \<noteq> PE_COMMAND" "PE_DATA \<noteq> PE_ESCAPE" "PE_ESCAPE \<noteq> PE_DATA"
  by (simp_all add: pe_states)

lemma py_rest_simps:
  "i < length ds \<Longrightarrow> py_rest crc_fn c ds i = ds ! i # py_rest crc_fn c ds (Suc i)"
  "py_rest crc_fn c ds (length ds) = [crc_fn ds (crc_fn [c] 0)]"
  "length ds < i \<Longrightarrow> py_rest crc_fn c ds i = []"
  unfolding py_rest_def by (subst Cons_nth_drop_Suc [symmetric]) (auto simp: nth_append)

lemma handle_escape_slip:
  assumes "handle_escape (uint b) e = ((st, x), e')"
  obtains y where "x = uint y" "slip b = y # (if st = PE_ESCAPE then [word_of_int (pe_escape_char e')] else [])"
    "st = PE_DATA \<or> st = PE_ESCAPE" "st = PE_ESCAPE \<longrightarrow> is_byte (pe_escape_char e')"
    "e' = e\<lparr>pe_escape_char := pe_escape_char e'\<rparr>"
proof (cases "b = END \<or> b = ESC")
  case True
  with assms show thesis
    by (intro that[of ESC]) (auto simp: handle_escape_def py_consts slip_def frame_consts is_byte_def)
next
  case False
  with assms show thesis
    by (intro that[of b]) (auto simp: handle_escape_def py_consts slip_def)
qed

text \<open>After \<open>handle_escape\<close> the encoder owes the rest of the escape sequence and the bytes after it.\<close>

lemma py_escape_step:
  assumes "handle_escape (uint b) e = ((st, x), e')" "py_encoder_at h c ds e"
  obtains y where "x = uint y"
    "slip b @ slips (py_rest crc_fn c ds i) @ [END]
      = y # py_owed crc_fn c ds (e'\<lparr>pe_state := st, pe_encode_idx := i\<rparr>)"
    "py_encoder_at h c ds (e'\<lparr>pe_state := st, pe_encode_idx := i\<rparr>)"
    "pe_packet (e'\<lparr>pe_state := st, pe_encode_idx := i\<rparr>) = pe_packet e" "pe_debug e' = pe_debug e"
    "pe_encode_idx e' = pe_encode_idx e"
proof -
  obtain y where y: "x = uint y" "slip b = y # (if st = PE_ESCAPE then [word_of_int (pe_escape_char e')] else [])"
    "st = PE_DATA \<or> st = PE_ESCAPE" "st = PE_ESCAPE \<longrightarrow> is_byte (pe_escape_char e')"
    "e' = e\<lparr>pe_escape_char := pe_escape_char e'\<rparr>"
    using assms(1) by (rule handle_escape_slip)
  have same: "pe_packet e' = pe_packet e" "pe_debug e' = pe_debug e" "pe_encode_idx e' = pe_encode_idx e"
    by (subst y(5), simp)+
  show thesis
    by (rule that[of y]) (use y(1-4) same assms(2) in \<open>auto simp: py_owed_def py_encoder_at_def\<close>)
qed

lemma py_owed_not_Nil [simp]: "py_owed crc_fn c ds e \<noteq> []"
  by (simp add: py_owed_def)

definition py_encode_step :: "crc_fn \<Rightarrow> py_heap \<Rightarrow> u8 \<Rightarrow> u8 list \<Rightarrow> py_encoder \<Rightarrow> bool" where
  "py_encode_step crc_fn h c ds e \<longleftrightarrow>
     (\<exists>err e' x rest. encode_byte crc_fn h e = Inr ((err, uint x), e') \<and> py_owed crc_fn c ds e = x # rest \<and>
        pe_packet e' = pe_packet e \<and> pe_debug e' = pe_debug e \<and>
        (if rest = [] then err = ErrorCode_NONE \<and> pe_state e' = PE_IDLE
         else err = ErrorCode_NOT_DONE \<and> py_encoder_at h c ds e' \<and> py_owed crc_fn c ds e' = rest))"

lemma py_encode_stepI:
  assumes "encode_byte crc_fn h e = Inr ((ErrorCode_NOT_DONE, uint x), e')"
    "py_owed crc_fn c ds e = x # py_owed crc_fn c ds e'" "py_encoder_at h c ds e'"
    "pe_packet e' = pe_packet e" "pe_debug e' = pe_debug e"
  shows "py_encode_step crc_fn h c ds e"
  unfolding py_encode_step_def
  by (intro exI[of _ ErrorCode_NOT_DONE] exI[of _ e'] exI[of _ x] exI[of _ "py_owed crc_fn c ds e'"])
    (use assms in simp)

lemma py_encode_byte_owed:
  assumes "py_encoder_at h c ds e"
  shows "py_encode_step crc_fn h c ds e"
proof -
  note at = assms[unfolded py_encoder_at_def]
  have lens: "get_data_len (pe_packet e) h = length ds" "get_command (pe_packet e) h = uint c"
    "calc_crc crc_fn (pe_packet e) h = Inr (uint (crc_fn ds (crc_fn [c] 0)))"
    using at by (auto simp: get_data_len_def calc_crc_ok)
  from at consider "pe_state e = PE_IDLE" | "pe_state e = PE_COMMAND" | "pe_state e = PE_DATA" | "pe_state e = PE_ESCAPE"
    by blast
  then show ?thesis
  proof cases
    case 1
    then show ?thesis
      using at by (intro py_encode_stepI[where x = END and e' = "e\<lparr>pe_state := PE_COMMAND\<rparr>"])
        (auto simp: encode_byte_def encode_byte_idle_def py_owed_def py_encoder_at_def py_consts)
  next
    case 2
    obtain st x e' where he: "handle_escape (uint c) e = ((st, x), e')" by (metis prod_cases3 prod.collapse)
    obtain y where y: "x = uint y" "slip c @ slips (py_rest crc_fn c ds 0) @ [END]
        = y # py_owed crc_fn c ds (e'\<lparr>pe_state := st, pe_encode_idx := 0\<rparr>)"
      "py_encoder_at h c ds (e'\<lparr>pe_state := st, pe_encode_idx := 0\<rparr>)"
      "pe_packet (e'\<lparr>pe_state := st, pe_encode_idx := 0\<rparr>) = pe_packet e" "pe_debug e' = pe_debug e"
      by (rule py_escape_step[OF he assms])
    show ?thesis
      by (rule py_encode_stepI[OF _ _ y(3,4)])
        (use 2 he y(1,2,5) lens in \<open>simp_all add: encode_byte_def encode_byte_command_def py_owed_def[of _ _ _ e]\<close>)
  next
    case 3
    let ?i = "pe_encode_idx e"
    consider (data) "?i < length ds" | (crc) "?i = length ds" | (finished) "length ds < ?i" by linarith
    then show ?thesis
    proof cases
      case data
      obtain st x e' where he: "handle_escape (uint (ds ! ?i)) e = ((st, x), e')" by (metis prod_cases3 prod.collapse)
      obtain y where y: "x = uint y" "slip (ds ! ?i) @ slips (py_rest crc_fn c ds (?i + 1)) @ [END]
          = y # py_owed crc_fn c ds (e'\<lparr>pe_state := st, pe_encode_idx := ?i + 1\<rparr>)"
        "py_encoder_at h c ds (e'\<lparr>pe_state := st, pe_encode_idx := ?i + 1\<rparr>)"
        "pe_packet (e'\<lparr>pe_state := st, pe_encode_idx := ?i + 1\<rparr>) = pe_packet e" "pe_debug e' = pe_debug e"
        "pe_encode_idx e' = ?i"
        by (rule py_escape_step[OF he assms])
      have "get_data_byte (int ?i) (pe_packet e) h = Inr (uint (ds ! ?i))"
        using data at by (simp add: get_data_byte_def)
      with 3 data he y lens show ?thesis
        by (intro py_encode_stepI[OF _ _ y(3,4)])
          (simp_all add: encode_byte_def encode_byte_data_def py_owed_def[of _ _ _ e] py_rest_simps)
    next
      case crc
      obtain st x e' where he: "handle_escape (uint (crc_fn ds (crc_fn [c] 0))) e = ((st, x), e')"
        by (metis prod_cases3 prod.collapse)
      obtain y where y: "x = uint y" "slip (crc_fn ds (crc_fn [c] 0)) @ slips (py_rest crc_fn c ds (?i + 1)) @ [END]
          = y # py_owed crc_fn c ds (e'\<lparr>pe_state := st, pe_encode_idx := ?i + 1\<rparr>)"
        "py_encoder_at h c ds (e'\<lparr>pe_state := st, pe_encode_idx := ?i + 1\<rparr>)"
        "pe_packet (e'\<lparr>pe_state := st, pe_encode_idx := ?i + 1\<rparr>) = pe_packet e" "pe_debug e' = pe_debug e"
        "pe_encode_idx e' = ?i"
        by (rule py_escape_step[OF he assms])
      with 3 crc he lens show ?thesis
        by (intro py_encode_stepI[OF _ _ y(3,4)])
          (simp_all add: encode_byte_def encode_byte_data_def py_owed_def[of _ _ _ e] py_rest_simps)
    next
      case finished
      with 3 lens show ?thesis
        by (auto simp: py_encode_step_def encode_byte_def encode_byte_data_def py_owed_def[of _ _ _ e] py_rest_simps
            py_consts)
    qed
  next
    case 4
    with at show ?thesis
      by (intro py_encode_stepI[where x = "word_of_int (pe_escape_char e)" and e' = "e\<lparr>pe_state := PE_DATA\<rparr>"])
        (auto simp: encode_byte_def encode_byte_escape_def py_owed_def py_encoder_at_def elim: is_byteE)
  qed
qed

end
