(* ===== verification/Py_Interop.thy ===== *)
theory Py_Interop
  imports Py_Refines Codec_Runs
begin

text \<open>
  The two codecs against each other, under the hypothesis that both CRC libraries compute
  the same CRC: they write the same bytes, each decodes what the other writes, on a stream
  they return the same codes up to the first damaged frame, and there they part: the
  Python decoder waits for the next frame, the C++ decoder does not.
\<close>

section \<open>Encoding\<close>

text \<open>The loop of \<^verbatim>\<open>tests/test_packet_encoder.py\<close>: it ends when \<open>encode_byte\<close> returns \<open>NONE\<close>.\<close>

partial_function (option) py_encode_loop ::
    "crc_fn \<Rightarrow> py_heap \<Rightarrow> py_encoder \<Rightarrow> int list \<Rightarrow> (py_encoder \<times> int list) py option" where
  "py_encode_loop crc_fn h e out =
     (case encode_byte crc_fn h e of
        Inl ex \<Rightarrow> Some (Inl ex)
      | Inr ((err, byte), e) \<Rightarrow>
          if err = ErrorCode_NONE then Some (Inr (e, out @ [byte]))
          else py_encode_loop crc_fn h e (out @ [byte]))"

lemma py_encode_loop_owed:
  assumes "py_encoder_at h c ds e"
  shows "\<exists>e'. py_encode_loop crc_fn h e out = Some (Inr (e', out @ map uint (py_owed crc_fn c ds e))) \<and>
    pe_state e' = PE_IDLE"
  using assms
proof (induction "length (py_owed crc_fn c ds e)" arbitrary: e out rule: less_induct)
  case less
  obtain err e' x rest where step: "encode_byte crc_fn h e = Inr ((err, uint x), e')"
    "py_owed crc_fn c ds e = x # rest"
    "if rest = [] then err = ErrorCode_NONE \<and> pe_state e' = PE_IDLE
     else err = ErrorCode_NOT_DONE \<and> py_encoder_at h c ds e' \<and> py_owed crc_fn c ds e' = rest"
    using py_encode_byte_owed[OF less.prems, of crc_fn] by (auto simp: py_encode_step_def)
  show ?case
  proof (cases "rest = []")
    case True
    with step show ?thesis by (simp add: py_encode_loop.simps)
  next
    case False
    with step have next_step: "err = ErrorCode_NOT_DONE" "py_encoder_at h c ds e'" "py_owed crc_fn c ds e' = rest"
      by auto
    then have "\<exists>e''. py_encode_loop crc_fn h e' (out @ [uint x])
        = Some (Inr (e'', (out @ [uint x]) @ map uint (py_owed crc_fn c ds e'))) \<and> pe_state e'' = PE_IDLE"
      using step(2) by (intro less.hyps) simp_all
    then obtain e'' where "py_encode_loop crc_fn h e' (out @ [uint x])
        = Some (Inr (e'', (out @ [uint x]) @ map uint (py_owed crc_fn c ds e')))" "pe_state e'' = PE_IDLE"
      by blast
    with step next_step show ?thesis
      by (subst py_encode_loop.simps) (simp add: py_codes)
  qed
qed

lemma py_owed_frame:
  assumes "same_crc crc crc_fn" "pe_state e = PE_IDLE"
  shows "py_owed crc_fn c ds e = frame_bytes crc c ds"
  using assms by (simp add: py_owed_def py_rest_def frame_bytes_def same_crcD)

lemma encode_start_ok:
  assumes "packet_in r h" "get_command r h = uint c" "pkt_data h r = ds"
  obtains e' h' out where "encode_start crc_fn r e h = Inr (e', h', out)" "py_encoder_at h' c ds e'"
    "pe_state e' = PE_IDLE" "pe_packet e' = r" "packet_in r h'" "get_crc r h' = uint (crc_fn ds (crc_fn [c] 0))"
    "others_kept r h h'" "pe_debug e' = pe_debug e" "pkt_data h' r = ds" "get_command r h' = uint c"
proof -
  obtain h' where h': "calc_and_store_crc crc_fn r h = Inr h'" "packet_in r h'" "pkt_data h' r = ds"
    "get_command r h' = uint c" "get_crc r h' = uint (crc_fn ds (crc_fn [c] 0))" "others_kept r h h'"
    using calc_and_store_crc_ok[OF assms(1,2), of crc_fn] assms by auto
  show thesis
    by (rule that[of "e\<lparr>pe_packet := r, pe_state := PE_IDLE\<rparr>" h'
          "if pe_debug e then py_dump ''Sent'' r h' else []"])
      (use h' in \<open>simp_all add: encode_start_def Let_def py_encoder_at_def\<close>)
qed

text \<open>The two encoders agree: for packets with the same command and the same data the
  C++ and the Python encoder, whatever they were doing before, hand out the same bytes, one
  by one, until they report \<open>NONE\<close>, and store the same CRC.\<close>

theorem encoders_agree:
  assumes "same_crc crc crc_fn" "deref h a = Inr p" "packet_wf p"
    and "packet_in r hp" "get_command r hp = uint (getCommand p)" "pkt_data hp r = contents p"
  shows "\<exists>e1 h' log e1' bs e2 hp' out e2'.
    encodeStart crc bus a e h = Inr (e1, h', log) \<and>
    encode_loop crc h' e1 None [] = Some (Inr (NONE, e1', map Some bs)) \<and>
    encode_start crc_fn r e_py hp = Inr (e2, hp', out) \<and>
    py_encode_loop crc_fn hp' e2 [] = Some (Inr (e2', map uint bs)) \<and>
    (\<exists>q. deref h' a = Inr q \<and> get_crc r hp' = uint (getCrc q))"
proof -
  let ?bs = "frame_bytes crc (m_command p) (contents p)"
  obtain e1 log where start: "encodeStart crc bus a e h = Inr (e1, h(a \<mapsto> with_crc crc p), log)"
    "encoder_at (h(a \<mapsto> with_crc crc p)) e1 (with_crc crc p)" "owed crc (with_crc crc p) e1 = ?bs"
    using encodeStart_wf[OF assms(2,3), of crc bus e] by metis
  obtain e1' where loop: "encode_loop crc (h(a \<mapsto> with_crc crc p)) e1 None [] = Some (Inr (NONE, e1', map Some ?bs))"
    using encode_loop_owed[OF start(2), of crc None "[]"] start(3) by auto
  have cmd: "get_command r hp = uint (m_command p)"
    using assms(5) by (simp add: getCommand_def)
  obtain e2 hp' out where py: "encode_start crc_fn r e_py hp = Inr (e2, hp', out)"
    "py_encoder_at hp' (m_command p) (contents p) e2" "pe_state e2 = PE_IDLE"
    "get_crc r hp' = uint (crc_fn (contents p) (crc_fn [m_command p] 0))"
    by (rule encode_start_ok[OF assms(4) cmd assms(6), of crc_fn e_py])
  obtain e2' where pyloop: "py_encode_loop crc_fn hp' e2 [] = Some (Inr (e2', map uint ?bs))"
    using py_encode_loop_owed[OF py(2), of crc_fn "[]"] py_owed_frame[OF assms(1) py(3)] by auto
  have "deref (h(a \<mapsto> with_crc crc p)) a = Inr (with_crc crc p)"
    using deref_store[OF assms(2)] .
  moreover have "get_crc r hp' = uint (getCrc (with_crc crc p))"
    using py(4) same_crcD[OF assms(1)] by (simp add: getCrc_def)
  ultimately show ?thesis
    using start(1) loop py(1) pyloop by blast
qed

text \<open>A Python heap with one packet, for examples.\<close>

definition py_sample_heap :: py_heap where
  "py_sample_heap = snd (py_new_packet (Some 1) (Some (Bytes [2])) \<lparr>hp_arrays = [], hp_packets = []\<rparr>)"

lemma py_sample_heap:
  "packet_in 0 py_sample_heap" "get_command 0 py_sample_heap = uint (1 :: u8)" "pkt_data py_sample_heap 0 = [2]"
  by (simp_all add: py_sample_heap_def py_new_packet_def new_array_def packet_in_def heap_ok_def get_command_def
      packet_at_def pkt_data_def array_at_def)

theorem encoders_agree_witness:
  "\<exists>e1 h' log e1' bs e2 hp' out e2'.
    encodeStart crc8_poly07 None 10 (new_encoder 0) [10 \<mapsto> sample_packet] = Inr (e1, h', log) \<and>
    encode_loop crc8_poly07 h' e1 None [] = Some (Inr (NONE, e1', map Some bs)) \<and>
    encode_start py_crc8 0 (fst (py_new_encoder \<lparr>hp_arrays = [], hp_packets = []\<rparr>)) py_sample_heap = Inr (e2, hp', out) \<and>
    py_encode_loop py_crc8 hp' e2 [] = Some (Inr (e2', map uint bs)) \<and>
    (\<exists>q. deref h' 10 = Inr q \<and> get_crc 0 hp' = uint (getCrc q))"
  by (rule encoders_agree[where p = sample_packet])
    (simp_all add: same_crc_poly07 deref_ok nullptr_def sample_packet_props py_sample_heap getCommand_def)

section \<open>Decoding\<close>

text \<open>The receivers differ only in the state they reach after \<open>Too_Small\<close> and \<open>Bad_Crc\<close>.\<close>

abbreviation damaged :: "outcome \<Rightarrow> bool" where
  "damaged out \<equiv> out = Too_Small \<or> out = Bad_Crc"

lemma py_receive_outcome: "fst (py_receive crc b r) = fst (receive crc MAX_DATA_LEN b r)"
  by (cases r) (auto simp: py_receive_def py_receive_end_def receive_end_def frame_consts split: bool.splits)

lemma py_receive_same:
  "\<not> damaged (fst (receive crc MAX_DATA_LEN b r)) \<Longrightarrow> py_receive crc b r = receive crc MAX_DATA_LEN b r"
  by (cases r) (auto simp: py_receive_def py_receive_end_def receive_end_def frame_consts split: bool.splits if_splits)

lemma py_receive_all_same:
  "\<forall>out \<in> set (fst (receive_all crc MAX_DATA_LEN bs r)). \<not> damaged out \<Longrightarrow>
     py_receive_all crc bs r = receive_all crc MAX_DATA_LEN bs r"
  by (induction bs arbitrary: r) (auto simp: split_beta py_receive_same)

lemma py_receive_all_snoc:
  assumes "\<forall>out \<in> set (fst (receive_all crc MAX_DATA_LEN bs r)). \<not> damaged out"
  shows "fst (py_receive_all crc (bs @ [b]) r) = fst (receive_all crc MAX_DATA_LEN (bs @ [b]) r)"
  using py_receive_all_same[OF assms]
  by (simp add: py_receive_all_append receive_all_append split_beta py_receive_outcome)

lemma py_receive_frame:
  assumes "length ds < MAX_DATA_LEN" "r = R_Idle \<or> r = R_Command False"
  shows "py_receive_all crc (frame_bytes crc c ds) r =
    (pendings (butlast (frame_bytes crc c ds)) @ [Delivered c ds (frame_crc crc c ds)], R_Idle)"
proof -
  note idle = receive_frame[OF assms(1), of crc c]
  have same: "receive_all crc MAX_DATA_LEN (frame_bytes crc c ds) r = receive_all crc MAX_DATA_LEN (frame_bytes crc c ds) R_Idle"
    using assms(2) by (auto simp: frame_bytes_def frame_consts)
  show ?thesis
    unfolding idle[symmetric] same[symmetric]
    by (rule py_receive_all_same) (simp add: same idle)
qed

lemma outcome_error_damaged: "damaged out \<longleftrightarrow> outcome_error out \<in> {TOO_SMALL, CRC}"
  by (cases out) auto

text \<open>A whole frame goes through the Python decoder.\<close>

lemma py_decode_frame:
  assumes "py_decoder_ok d h" "same_crc crc crc_fn" "length ds < MAX_DATA_LEN"
    and "py_receiver_of d h = R_Idle \<or> py_receiver_of d h = R_Command False"
  obtains d' h' out where
    "py_decode_stream crc_fn (frame_bytes crc c ds) d h
       = Inr (replicate (length (frame_bytes crc c ds) - 1) ErrorCode_NOT_DONE @ [ErrorCode_NONE], d', h', out)"
    "py_decoder_ok d' h'" "py_receiver_of d' h' = R_Idle" "pd_packet d' = pd_packet d"
    "get_command (pd_packet d) h' = uint c" "pkt_data h' (pd_packet d) = ds"
    "get_crc (pd_packet d) h' = uint (frame_crc crc c ds)"
proof -
  let ?f = "frame_bytes crc c ds"
  have codes: "map (py_code \<circ> outcome_error) (pendings (butlast ?f) @ [Delivered c ds (frame_crc crc c ds)])
      = replicate (length ?f - 1) ErrorCode_NOT_DONE @ [ErrorCode_NONE]"
    by (simp add: comp_def map_replicate_const)
  show thesis
    using py_decode_stream_refines[OF assms(1,2), of ?f, unfolded py_receive_frame[OF assms(3,4)] fst_conv snd_conv codes last_snoc]
      frame_nonempty(1)[of crc c ds] that by auto
qed

text \<open>A frame that is well formed but for its CRC: the packet holds its data when \<open>CRC\<close> is reported.\<close>

lemma py_decode_damaged:
  assumes "py_decoder_ok d h" "same_crc crc crc_fn" "length ds < MAX_DATA_LEN" "py_receiver_of d h = R_Idle"
    and "x \<noteq> frame_crc crc c ds"
  shows "\<exists>d' h' out. py_decode_stream crc_fn ((END # slips (c # ds @ [x])) @ [END]) d h
      = Inr (replicate (length (END # slips (c # ds @ [x]))) ErrorCode_NOT_DONE @ [ErrorCode_CRC], d', h', out) \<and>
    pd_packet d' = pd_packet d \<and> get_command (pd_packet d) h' = uint c \<and> pkt_data h' (pd_packet d) = ds \<and>
    get_crc (pd_packet d) h' = uint x \<and> pd_state d' = PD_IDLE \<and> py_decoder_ok d' h'"
proof -
  let ?body = "END # slips (c # ds @ [x])" and ?r = "pd_packet d"
  have rec: "receive_all crc MAX_DATA_LEN ?body R_Idle = (pendings ?body, R_Data False c (ds @ [x]))"
    using receive_payload[of "ds @ [x]" MAX_DATA_LEN crc c] assms(3) by (simp del: slips_simps)
  have "py_receive_all crc ?body R_Idle = (pendings ?body, R_Data False c (ds @ [x]))"
    unfolding rec[symmetric] by (rule py_receive_all_same) (unfold rec, auto simp del: slips_simps)
  moreover have "map (py_code \<circ> outcome_error) (pendings ?body) = replicate (length ?body) ErrorCode_NOT_DONE"
    by (simp add: comp_def map_replicate_const)
  ultimately obtain d1 h1 out1 where first: "py_decode_stream crc_fn ?body d h
      = Inr (replicate (length ?body) ErrorCode_NOT_DONE, d1, h1, out1)"
    "py_receiver_of d1 h1 = R_Data False c (ds @ [x])" "py_decoder_ok d1 h1" "pd_packet d1 = ?r"
    using py_decode_stream_refines[OF assms(1,2), of ?body] unfolding assms(4) by (auto simp del: slips_simps)
  have st: "pd_state d1 = PD_DATA" "\<not> pd_escape d1" "pkt_data h1 ?r = ds @ [x]"
    "word_of_int (get_command ?r h1) = c" "is_byte (get_command ?r h1)" "packet_in ?r h1"
    using first(2,3,4) by (auto simp: py_receiver_of_def py_decoder_ok_def split: if_splits)
  then have cmd: "get_command ?r h1 = uint c"
    by (auto elim: is_byteE)
  obtain h2 where h2: "extract_crc ?r h1 = Inr (uint x, h2)" "packet_in ?r h2" "pkt_data h2 ?r = ds"
    "get_command ?r h2 = uint c" "get_crc ?r h2 = uint x"
    using extract_crc_ok[OF st(6,3)] cmd by auto
  have "calc_crc crc_fn ?r h2 = Inr (uint (frame_crc crc c ds))"
    using h2(3,4) assms(2) by (simp add: calc_crc_ok same_crcD)
  then obtain out2 where "decode_byte crc_fn (uint END) d1 h1 = Inr (ErrorCode_CRC, d1\<lparr>pd_state := PD_IDLE\<rparr>, h2, out2)"
    using st first(4) h2(1) assms(5)
    by (auto simp: decode_byte_def decode_byte_data_def Let_def py_consts get_data_len_def frame_consts)
  then have "py_decode_stream crc_fn (?body @ [END]) d h
      = Inr (replicate (length ?body) ErrorCode_NOT_DONE @ [ErrorCode_CRC], d1\<lparr>pd_state := PD_IDLE\<rparr>, h2, out1 @ out2)"
    using first(1) by (simp add: py_decode_stream_append del: py_decode_stream.simps(2) slips_simps append_Cons)
      (simp del: slips_simps)
  with h2 first(4) st(2) show ?thesis
    by (auto simp: py_decoder_ok_def simp del: slips_simps append_Cons)
qed

text \<open>C6: The two implementations understand each other: for every command and every data
  that fit the receiver (255 bytes on the Python side, the capacity less the CRC on the C++
  side), a frame written by the C++ encoder leaves an idle Python decoder with that command,
  data and CRC, and a frame written by the Python encoder an idle C++ decoder, each with
  \<open>NOT_DONE\<close> for every byte but the last and \<open>NONE\<close> for the last.\<close>

theorem implementations_interoperate:
  assumes "same_crc crc crc_fn"
    and "deref h a = Inr p" "packet_wf p" "packet_in r hp" "get_command r hp = uint cmd"
    and "py_decoder_ok dp hpd" "pd_state dp = PD_IDLE" "getDataLength p < MAX_DATA_LEN"
    and "packet_wf q" "decoder_ok d" "d_state d = D_IDLE" "get_data_len r hp < getMaxDataLength q"
  shows "(\<exists>e1 h1 log e1' bs d' h' out. encodeStart crc bus a e h = Inr (e1, h1, log) \<and>
      encode_loop crc h1 e1 None [] = Some (Inr (NONE, e1', map Some bs)) \<and>
      py_decode_stream crc_fn bs dp hpd
        = Inr (replicate (length bs - 1) ErrorCode_NOT_DONE @ [ErrorCode_NONE], d', h', out) \<and>
      get_command (pd_packet dp) h' = uint (getCommand p) \<and> pkt_data h' (pd_packet dp) = contents p) \<and>
    (\<exists>e2 h2 out e2' bs d' q' log. encode_start crc_fn r ep hp = Inr (e2, h2, out) \<and>
      py_encode_loop crc_fn h2 e2 [] = Some (Inr (e2', map uint bs)) \<and>
      decode_stream crc bus bs d q = Inr (replicate (length bs - 1) NOT_DONE @ [NONE], d', q', log) \<and>
      getCommand q' = cmd \<and> contents q' = pkt_data hp r)"
proof
  let ?bs = "frame_bytes crc (m_command p) (contents p)"
  obtain e1 log where start: "encodeStart crc bus a e h = Inr (e1, h(a \<mapsto> with_crc crc p), log)"
    "encoder_at (h(a \<mapsto> with_crc crc p)) e1 (with_crc crc p)" "owed crc (with_crc crc p) e1 = ?bs"
    using encodeStart_wf[OF assms(2,3), of crc bus e] by metis
  obtain e1' where loop: "encode_loop crc (h(a \<mapsto> with_crc crc p)) e1 None [] = Some (Inr (NONE, e1', map Some ?bs))"
    using encode_loop_owed[OF start(2), of crc None "[]"] start(3) by auto
  have len: "length (contents p) < MAX_DATA_LEN"
    using assms(3,8) by (simp add: getDataLength_def)
  have idle: "py_receiver_of dp hpd = R_Idle \<or> py_receiver_of dp hpd = R_Command False"
    using assms(7) by (simp add: py_receiver_of_def)
  obtain d' h' out where "py_decode_stream crc_fn ?bs dp hpd
      = Inr (replicate (length ?bs - 1) ErrorCode_NOT_DONE @ [ErrorCode_NONE], d', h', out)"
    "get_command (pd_packet dp) h' = uint (m_command p)" "pkt_data h' (pd_packet dp) = contents p"
    using py_decode_frame[OF assms(6,1) len idle, of "m_command p"] by metis
  with start(1) loop show "\<exists>e1 h1 log e1' bs d' h' out. encodeStart crc bus a e h = Inr (e1, h1, log) \<and>
      encode_loop crc h1 e1 None [] = Some (Inr (NONE, e1', map Some bs)) \<and>
      py_decode_stream crc_fn bs dp hpd
        = Inr (replicate (length bs - 1) ErrorCode_NOT_DONE @ [ErrorCode_NONE], d', h', out) \<and>
      get_command (pd_packet dp) h' = uint (getCommand p) \<and> pkt_data h' (pd_packet dp) = contents p"
    unfolding getCommand_def by blast
next
  let ?bs = "frame_bytes crc cmd (pkt_data hp r)"
  obtain e2 h2 out where py: "encode_start crc_fn r ep hp = Inr (e2, h2, out)"
    "py_encoder_at h2 cmd (pkt_data hp r) e2" "pe_state e2 = PE_IDLE"
    by (rule encode_start_ok[OF assms(4,5) refl, of crc_fn ep])
  obtain e2' where loop: "py_encode_loop crc_fn h2 e2 [] = Some (Inr (e2', map uint ?bs))"
    using py_encode_loop_owed[OF py(2), of crc_fn "[]"] py_owed_frame[OF assms(1) py(3)] by auto
  have len: "length (pkt_data hp r) < m_maxDataLen q"
    using assms(12) by (simp add: get_data_len_def getMaxDataLength_def)
  obtain d' q' log where "decode_stream crc bus ?bs d q
      = Inr (replicate (length ?bs - 1) NOT_DONE @ [NONE], d', q', log)" "m_command q' = cmd"
    "contents q' = pkt_data hp r"
    using decode_frame[OF assms(9-11) len, of crc bus cmd] by metis
  with py(1) loop show "\<exists>e2 h2 out e2' bs d' q' log. encode_start crc_fn r ep hp = Inr (e2, h2, out) \<and>
      py_encode_loop crc_fn h2 e2 [] = Some (Inr (e2', map uint bs)) \<and>
      decode_stream crc bus bs d q = Inr (replicate (length bs - 1) NOT_DONE @ [NONE], d', q', log) \<and>
      getCommand q' = cmd \<and> contents q' = pkt_data hp r"
    unfolding getCommand_def by blast
qed

lemma py_new_decoder_ok:
  "packet_in r h \<Longrightarrow> py_decoder_ok (py_new_decoder r) h" "pd_state (py_new_decoder r) = PD_IDLE"
  "pd_packet (py_new_decoder r) = r" "py_receiver_of (py_new_decoder r) h = R_Idle"
  by (simp_all add: py_decoder_ok_def py_new_decoder_def py_receiver_of_def)

theorem implementations_interoperate_witness:
  "(\<exists>e1 h1 log e1' bs d' h' out. encodeStart crc8_poly07 None 10 (new_encoder 0) [10 \<mapsto> sample_packet] = Inr (e1, h1, log) \<and>
      encode_loop crc8_poly07 h1 e1 None [] = Some (Inr (NONE, e1', map Some bs)) \<and>
      py_decode_stream py_crc8 bs (py_new_decoder 0) py_sample_heap
        = Inr (replicate (length bs - 1) ErrorCode_NOT_DONE @ [ErrorCode_NONE], d', h', out) \<and>
      get_command (pd_packet (py_new_decoder 0)) h' = uint (getCommand sample_packet) \<and>
      pkt_data h' (pd_packet (py_new_decoder 0)) = contents sample_packet) \<and>
    (\<exists>e2 h2 out e2' bs d' q' log.
      encode_start py_crc8 0 (fst (py_new_encoder \<lparr>hp_arrays = [], hp_packets = []\<rparr>)) py_sample_heap = Inr (e2, h2, out) \<and>
      py_encode_loop py_crc8 h2 e2 [] = Some (Inr (e2', map uint bs)) \<and>
      decode_stream crc8_poly07 None bs new_decoder (blank_packet 2) = Inr (replicate (length bs - 1) NOT_DONE @ [NONE], d', q', log) \<and>
      getCommand q' = 1 \<and> contents q' = pkt_data py_sample_heap 0)"
  by (rule implementations_interoperate)
    (simp_all add: same_crc_poly07 deref_ok nullptr_def sample_packet_props py_sample_heap py_new_decoder_ok
      blank_packet_wf size_range_def getDataLength_def getMaxDataLength_def get_data_len_def MAX_DATA_LEN_def
      new_decoder_def decoder_ok_def)

section \<open>The Python decoder on any input\<close>

text \<open>C23: The Python decoder refines its receiver and never raises: on every byte stream, from
  every legal state, it returns the codes of the abstract receiver (so only \<open>NONE\<close>,
  \<open>NOT_DONE\<close>, \<open>CRC\<close>, \<open>TOO_MUCH_DATA\<close> and \<open>TOO_SMALL\<close>), ends in the receiver's state, which is
  legal again, and what it delivered last is in its packet.\<close>

theorem python_decoder_refines_receiver:
  assumes "py_decoder_ok d h" "same_crc crc crc_fn"
    and "py_receive_all crc bs (py_receiver_of d h) = (outs, r)"
  shows "\<exists>d' h' out. py_decode_stream crc_fn bs d h = Inr (map (py_code \<circ> outcome_error) outs, d', h', out) \<and>
    py_receiver_of d' h' = r \<and> py_decoder_ok d' h' \<and> pd_packet d' = pd_packet d \<and>
    set (map (py_code \<circ> outcome_error) outs) \<subseteq>
      {ErrorCode_NONE, ErrorCode_NOT_DONE, ErrorCode_CRC, ErrorCode_TOO_MUCH_DATA, ErrorCode_TOO_SMALL} \<and>
    (bs = [] \<or> py_delivered_in (last outs) (pd_packet d) h')"
proof -
  have "set (map (py_code \<circ> outcome_error) outs) \<subseteq>
      {ErrorCode_NONE, ErrorCode_NOT_DONE, ErrorCode_CRC, ErrorCode_TOO_MUCH_DATA, ErrorCode_TOO_SMALL}"
    using outcome_error_range[of outs] by auto
  moreover obtain d' h' out where "py_decode_stream crc_fn bs d h = Inr (map (py_code \<circ> outcome_error) outs, d', h', out)"
    "py_receiver_of d' h' = r" "py_decoder_ok d' h'" "pd_packet d' = pd_packet d"
    "bs = [] \<or> py_delivered_in (last outs) (pd_packet d) h'"
    using py_decode_stream_refines[OF assms(1,2), of bs] unfolding assms(3) by auto
  ultimately show ?thesis by blast
qed

theorem python_decoder_refines_receiver_witness:
  "\<exists>d' h' out. py_decode_stream py_crc8 [0xC0, 1, 0xC0] (py_new_decoder 0) py_sample_heap
      = Inr (map (py_code \<circ> outcome_error) [Pending, Pending, Too_Small], d', h', out) \<and>
    py_receiver_of d' h' = R_Command False \<and> py_decoder_ok d' h' \<and> pd_packet d' = pd_packet (py_new_decoder 0) \<and>
    set (map (py_code \<circ> outcome_error) [Pending, Pending, Too_Small]) \<subseteq>
      {ErrorCode_NONE, ErrorCode_NOT_DONE, ErrorCode_CRC, ErrorCode_TOO_MUCH_DATA, ErrorCode_TOO_SMALL} \<and>
    ([0xC0, 1, 0xC0 :: u8] = [] \<or> py_delivered_in (last [Pending, Pending, Too_Small]) (pd_packet (py_new_decoder 0)) h')"
  by (rule python_decoder_refines_receiver[OF _ same_crc_poly07])
    (simp_all add: py_new_decoder_ok py_sample_heap py_receive_def py_receive_end_def frame_consts)

text \<open>C24: Up to the first damaged frame the decoders cannot be told apart: started in
  corresponding states, with a C++ packet of the capacity of the Python one, they return
  the same code for every byte as long as the C++ decoder has reported neither \<open>CRC\<close> nor
  \<open>TOO_SMALL\<close>, the byte that brings the first such report included.\<close>

theorem decoders_agree_until_damage:
  assumes "same_crc crc crc_fn" "packet_wf p" "decoder_ok d" "getMaxDataLength p = MAX_DATA_LEN"
    and "py_decoder_ok dp h" "py_receiver_of dp h = receiver_of d p"
    and "decode_stream crc bus bs d p = Inr (errs, d1, p1, log1)" "CRC \<notin> set errs" "TOO_SMALL \<notin> set errs"
  shows "\<exists>codes d' p' log dp' h' out. decode_stream crc bus (bs @ [b]) d p = Inr (codes, d', p', log) \<and>
    py_decode_stream crc_fn (bs @ [b]) dp h = Inr (map py_code codes, dp', h', out)"
proof -
  have cap: "m_maxDataLen p = MAX_DATA_LEN"
    using assms(4) by (simp add: getMaxDataLength_def)
  let ?r = "receiver_of d p"
  let ?outs = "fst (receive_all crc MAX_DATA_LEN bs ?r)"
  have "errs = map outcome_error ?outs"
    using decode_stream_refines[OF assms(2,3), of crc bus bs] assms(7) by (auto simp: cap)
  with assms(8,9) have "\<forall>out \<in> set ?outs. \<not> damaged out"
    by force
  note same = py_receive_all_snoc[OF this, of b]
  let ?outs' = "fst (receive_all crc MAX_DATA_LEN (bs @ [b]) ?r)"
  obtain d' p' log where "decode_stream crc bus (bs @ [b]) d p = Inr (map outcome_error ?outs', d', p', log)"
    using decode_stream_refines[OF assms(2,3), of crc bus "bs @ [b]"] by (auto simp: cap)
  moreover obtain dp' h' out where
    "py_decode_stream crc_fn (bs @ [b]) dp h = Inr (map py_code (map outcome_error ?outs'), dp', h', out)"
    using py_decode_stream_refines[OF assms(5,1), of "bs @ [b]"] by (auto simp: assms(6) same)
  ultimately show ?thesis by blast
qed

theorem decoders_agree_until_damage_witness:
  "\<exists>codes d' p' log dp' h' out. decode_stream crc8_poly07 None ([0xC0, 1] @ [0xC0]) new_decoder (blank_packet 256)
      = Inr (codes, d', p', log) \<and>
    py_decode_stream py_crc8 ([0xC0, 1] @ [0xC0]) (py_new_decoder 0) py_sample_heap
      = Inr (map py_code codes, dp', h', out)"
proof -
  have wf: "packet_wf (blank_packet 256)" by (simp add: blank_packet_wf size_range_def)
  obtain d1 p1 log1 where run: "decode_stream crc8_poly07 None [0xC0, 1] new_decoder (blank_packet 256)
      = Inr ([NOT_DONE, NOT_DONE], d1, p1, log1)"
    using decode_stream_refines[OF wf new_decoder_ok, of crc8_poly07 None "[0xC0, 1]"]
    by (auto simp: frame_consts)
  show ?thesis
    by (rule decoders_agree_until_damage[OF same_crc_poly07 wf new_decoder_ok _ _ _ run])
      (simp_all add: getMaxDataLength_def MAX_DATA_LEN_def py_new_decoder_ok py_sample_heap)
qed

text \<open>C22: After a damaged frame the Python decoder is ready for the next one and the C++
  decoder is not. When the Python decoder has just reported \<open>CRC\<close> or \<open>TOO_SMALL\<close>, whatever came
  before, the next frame is delivered intact. When the C++ decoder has reported \<open>CRC\<close> or
  \<open>TOO_SMALL\<close> at the end of the same bytes, it delivers at most one message while it reads that
  frame, and such a message has the command of the damaged frame, not that of the next one.\<close>

theorem python_resynchronises:
  assumes "same_crc crc crc_fn" "py_decoder_ok d h" "length ds < MAX_DATA_LEN"
    and "py_decode_stream crc_fn bs d h = Inr (errs @ [err], d', h', out)"
    and "err \<in> {ErrorCode_CRC, ErrorCode_TOO_SMALL}"
  shows "(\<exists>d'' h'' out'. py_decode_stream crc_fn (frame_bytes crc c ds) d' h'
      = Inr (replicate (length (frame_bytes crc c ds) - 1) ErrorCode_NOT_DONE @ [ErrorCode_NONE], d'', h'', out') \<and>
    get_command (pd_packet d) h'' = uint c \<and> pkt_data h'' (pd_packet d) = ds) \<and>
    (\<forall>bus e p codes code e' p' log. packet_wf p \<and> decoder_ok e \<and>
        decode_stream crc bus bs e p = Inr (codes @ [code], e', p', log) \<and> code \<in> {CRC, TOO_SMALL} \<longrightarrow>
      (\<exists>ms e'' p''. deliveries crc bus (frame_bytes crc c ds) e' p' = Inr (ms, e'', p'') \<and>
        length ms \<le> 1 \<and> (\<forall>m \<in> set ms. fst m = getCommand p') \<and>
        (getCommand p' \<noteq> c \<longrightarrow> (c, ds) \<notin> set ms)))"
proof (intro conjI allI impI)
  obtain outs r where rec: "py_receive_all crc bs (py_receiver_of d h) = (outs, r)" by fastforce
  have run: "errs @ [err] = map (py_code \<circ> outcome_error) outs" "py_receiver_of d' h' = r" "py_decoder_ok d' h'"
    "pd_packet d' = pd_packet d"
    using py_decode_stream_refines[OF assms(2,1), of bs] assms(4) by (auto simp: rec)
  then obtain outs' last_out where outs: "outs = outs' @ [last_out]" "err = py_code (outcome_error last_out)"
    by (cases outs rule: rev_cases) auto
  then have dam: "damaged last_out"
    using assms(5) by (cases last_out) (auto simp: py_codes)
  obtain bs' b where bs: "bs = bs' @ [b]"
    using rec outs by (cases bs rule: rev_cases) auto
  then have "last_out = fst (py_receive crc b (snd (py_receive_all crc bs' (py_receiver_of d h))))"
    "r = snd (py_receive crc b (snd (py_receive_all crc bs' (py_receiver_of d h))))"
    using rec outs by (auto simp: py_receive_all_append split_beta)
  moreover have "snd (py_receive crc b r0) = R_Idle \<or> snd (py_receive crc b r0) = R_Command False"
    if "damaged (fst (py_receive crc b r0))" for r0
    using that
    by (cases r0) (auto simp: py_receive_def py_receive_end_def split: bool.splits if_splits)
  ultimately have "r = R_Idle \<or> r = R_Command False"
    using dam by simp
  then have "py_receiver_of d' h' = R_Idle \<or> py_receiver_of d' h' = R_Command False"
    using run(2) by simp
  from py_decode_frame[OF run(3) assms(1,3) this, of c]
  show "\<exists>d'' h'' out'. py_decode_stream crc_fn (frame_bytes crc c ds) d' h'
      = Inr (replicate (length (frame_bytes crc c ds) - 1) ErrorCode_NOT_DONE @ [ErrorCode_NONE], d'', h'', out') \<and>
    get_command (pd_packet d) h'' = uint c \<and> pkt_data h'' (pd_packet d) = ds"
    unfolding run(4) by metis
next
  fix bus e p codes code e' p' log
  assume cpp: "packet_wf p \<and> decoder_ok e \<and>
    decode_stream crc bus bs e p = Inr (codes @ [code], e', p', log) \<and> code \<in> {CRC, TOO_SMALL}"
  then have "packet_wf p' \<and> d_state e' = D_DATA"
    using error_leaves_data[of p e crc bus bs codes code e' p' log] by blast
  then obtain ms e'' p'' where "deliveries crc bus (frame_bytes crc c ds) e' p' = Inr (ms, e'', p'')"
    "length ms \<le> 1" "\<forall>m \<in> set ms. fst m = getCommand p'"
    using frame_after_error_is_lost by metis
  then show "\<exists>ms e'' p''. deliveries crc bus (frame_bytes crc c ds) e' p' = Inr (ms, e'', p'') \<and>
      length ms \<le> 1 \<and> (\<forall>m \<in> set ms. fst m = getCommand p') \<and> (getCommand p' \<noteq> c \<longrightarrow> (c, ds) \<notin> set ms)"
    by fastforce
qed

text \<open>A \<open>PING\<close> with a wrong CRC, then a frame with command 2, read by both decoders.\<close>

theorem python_resynchronises_witness:
  "\<exists>d' h' out d'' h'' out' e' p' log ms e'' p''.
    py_decode_stream py_crc8 [0xC0, 1, 8, 0xC0] (py_new_decoder 0) py_sample_heap
      = Inr ([ErrorCode_NOT_DONE, ErrorCode_NOT_DONE, ErrorCode_NOT_DONE] @ [ErrorCode_CRC], d', h', out) \<and>
    py_decode_stream py_crc8 (frame_bytes crc8_poly07 2 [3]) d' h'
      = Inr (replicate (length (frame_bytes crc8_poly07 2 [3]) - 1) ErrorCode_NOT_DONE @ [ErrorCode_NONE], d'', h'', out') \<and>
    get_command 0 h'' = uint (2 :: u8) \<and> pkt_data h'' 0 = [3] \<and>
    decode_stream crc8_poly07 None [0xC0, 1, 8, 0xC0] new_decoder (blank_packet 15)
      = Inr ([NOT_DONE, NOT_DONE, NOT_DONE] @ [CRC], e', p', log) \<and>
    deliveries crc8_poly07 None (frame_bytes crc8_poly07 2 [3]) e' p' = Inr (ms, e'', p'') \<and> (2, [3]) \<notin> set ms"
proof -
  have ok: "py_decoder_ok (py_new_decoder 0) py_sample_heap"
    using py_new_decoder_ok py_sample_heap by simp
  have rec: "py_receive_all crc8_poly07 [0xC0, 1, 8, 0xC0] R_Idle = ([Pending, Pending, Pending, Bad_Crc], R_Idle)"
    by (simp add: py_receive_def py_receive_end_def frame_consts crc8_examples MAX_DATA_LEN_def)
  obtain d' h' out where run: "py_decode_stream py_crc8 [0xC0, 1, 8, 0xC0] (py_new_decoder 0) py_sample_heap
      = Inr ([ErrorCode_NOT_DONE, ErrorCode_NOT_DONE, ErrorCode_NOT_DONE] @ [ErrorCode_CRC], d', h', out)"
    using py_decode_stream_refines[OF ok same_crc_poly07, of "[0xC0, 1, 8, 0xC0]"]
    unfolding py_new_decoder_ok(4) rec by auto
  have wf: "packet_wf (blank_packet 15)" by (simp add: blank_packet_wf size_range_def)
  obtain e' p' log where cpp: "decode_stream crc8_poly07 None [0xC0, 1, 8, 0xC0] new_decoder (blank_packet 15)
      = Inr ([NOT_DONE, NOT_DONE, NOT_DONE] @ [CRC], e', p', log)" "receiver_of e' p' = R_Data False 1 []"
    using decode_stream_refines[OF wf new_decoder_ok, of crc8_poly07 None "[0xC0, 1, 8, 0xC0]"] receive_damaged_ping
    by auto
  then have other: "getCommand p' \<noteq> 2"
    by (auto simp: receiver_of_def getCommand_def split: dstate.splits)
  have len: "length [3 :: u8] < MAX_DATA_LEN" "ErrorCode_CRC \<in> {ErrorCode_CRC, ErrorCode_TOO_SMALL}"
    by (simp_all add: MAX_DATA_LEN_def)
  note both = python_resynchronises[OF same_crc_poly07 ok len(1) run len(2), of 2, unfolded py_new_decoder_ok]
  obtain ms e'' p'' where "deliveries crc8_poly07 None (frame_bytes crc8_poly07 2 [3]) e' p' = Inr (ms, e'', p'')"
    "(2, [3]) \<notin> set ms"
    using conjunct2[OF both, rule_format, of "blank_packet 15" new_decoder None "[NOT_DONE, NOT_DONE, NOT_DONE]" CRC e' p' log]
      wf cpp(1) other by auto
  with conjunct1[OF both] run cpp(1) show ?thesis by blast
qed

section \<open>Error codes\<close>

text \<open>The error codes mean the same on both sides: for every C++ error code the Python
  \<open>as_str\<close> of its number is the C++ \<open>as_str\<close>; and the Python \<open>as_str\<close> raises on exactly one
  integer, 10, because it compares with \<open>>\<close> where it means \<open>>=\<close>.\<close>

theorem error_names_agree:
  "map (\<lambda>e. py_as_str (int (error_value e))) [NONE, NOT_DONE, CRC, TIMEOUT, TOO_MUCH_DATA, TOO_SMALL, BAD_STATE, OS]
     = map (\<lambda>e. Inr (as_str e)) [NONE, NOT_DONE, CRC, TIMEOUT, TOO_MUCH_DATA, TOO_SMALL, BAD_STATE, OS] \<and>
   (\<forall>err ex. py_as_str err = Inl ex \<longleftrightarrow> err = 10 \<and> ex = IndexError)"
proof
  show "map (\<lambda>e. py_as_str (int (error_value e))) [NONE, NOT_DONE, CRC, TIMEOUT, TOO_MUCH_DATA, TOO_SMALL, BAD_STATE, OS]
     = map (\<lambda>e. Inr (as_str e)) [NONE, NOT_DONE, CRC, TIMEOUT, TOO_MUCH_DATA, TOO_SMALL, BAD_STATE, OS]"
    by (simp add: py_as_str_def py_index_def ERROR_STRS_def)
  have "py_as_str err = Inl ex \<longleftrightarrow> err = 10 \<and> ex = IndexError" for err ex
    by (auto simp: py_as_str_def py_index_def ERROR_STRS_def)
  then show "\<forall>err ex. py_as_str err = Inl ex \<longleftrightarrow> err = 10 \<and> ex = IndexError" by blast
qed

end
