(* ===== verification/Py_Packing.thy ===== *)
theory Py_Packing
  imports Py_Packet
begin

text \<open>
  The Python port of packing: \<^verbatim>\<open>duino_bus/packer.py\<close> and \<^verbatim>\<open>duino_bus/unpacker.py\<close>, with the
  UTF-8 codec that they use for strings (a Python string is the list of its code points).
  A packer holds a reference to a bytearray, that of its packet if it has one.
\<close>

section \<open>UTF-8\<close>

text \<open>\<^verbatim>\<open>bytes(s, 'utf-8')\<close>: surrogates cannot be encoded.\<close>

definition utf8_char :: "nat \<Rightarrow> u8 list option" where
  "utf8_char c =
     (if c < 0x80 then Some [word_of_nat c]
      else if c < 0x800 then Some [word_of_nat (0xC0 + c div 64), word_of_nat (0x80 + c mod 64)]
      else if 0xD800 \<le> c \<and> c < 0xE000 then None
      else if c < 0x10000 then
        Some [word_of_nat (0xE0 + c div 4096), word_of_nat (0x80 + c div 64 mod 64), word_of_nat (0x80 + c mod 64)]
      else if c < 0x110000 then
        Some [word_of_nat (0xF0 + c div 262144), word_of_nat (0x80 + c div 4096 mod 64),
          word_of_nat (0x80 + c div 64 mod 64), word_of_nat (0x80 + c mod 64)]
      else None)"

fun utf8_encode :: "nat list \<Rightarrow> u8 list option" where
  "utf8_encode [] = Some []"
| "utf8_encode (c # cs) =
     (case utf8_char c of None \<Rightarrow> None | Some bs \<Rightarrow> map_option ((@) bs) (utf8_encode cs))"

text \<open>\<open>k\<close> continuation bytes, six bits each.\<close>

fun utf8_tail :: "nat \<Rightarrow> nat \<Rightarrow> u8 list \<Rightarrow> (nat \<times> u8 list) option" where
  "utf8_tail 0 c bs = Some (c, bs)"
| "utf8_tail (Suc k) c [] = None"
| "utf8_tail (Suc k) c (b # bs) =
     (if 0x80 \<le> unat b \<and> unat b < 0xC0 then utf8_tail k (c * 64 + (unat b - 0x80)) bs else None)"

lemma utf8_tail_length: "utf8_tail k c bs = Some (c', bs') \<Longrightarrow> length bs' \<le> length bs"
  by (induction k c bs rule: utf8_tail.induct) (auto split: if_splits)

text \<open>One character: overlong forms, surrogates and values beyond \<^verbatim>\<open>U+10FFFF\<close> are refused.\<close>

definition utf8_next :: "u8 \<Rightarrow> u8 list \<Rightarrow> (nat \<times> u8 list) option" where
  "utf8_next b bs =
     (let n = unat b in
      if n < 0x80 then Some (n, bs)
      else if 0xC2 \<le> n \<and> n < 0xE0 then utf8_tail 1 (n - 0xC0) bs
      else if 0xE0 \<le> n \<and> n < 0xF0 then
        (case utf8_tail 2 (n - 0xE0) bs of
           Some (c, rest) \<Rightarrow> if 0x800 \<le> c \<and> \<not> (0xD800 \<le> c \<and> c < 0xE000) then Some (c, rest) else None
         | None \<Rightarrow> None)
      else if 0xF0 \<le> n \<and> n < 0xF5 then
        (case utf8_tail 3 (n - 0xF0) bs of
           Some (c, rest) \<Rightarrow> if 0x10000 \<le> c \<and> c < 0x110000 then Some (c, rest) else None
         | None \<Rightarrow> None)
      else None)"

lemma utf8_next_length: "utf8_next b bs = Some (c, bs') \<Longrightarrow> length bs' \<le> length bs"
  by (auto simp: utf8_next_def Let_def dest: utf8_tail_length split: if_splits option.splits prod.splits)

text \<open>\<^verbatim>\<open>str(data, 'utf-8')\<close>.\<close>

function utf8_decode :: "u8 list \<Rightarrow> nat list option" where
  "utf8_decode [] = Some []"
| "utf8_decode (b # bs) =
     (case utf8_next b bs of
        None \<Rightarrow> None
      | Some (c, rest) \<Rightarrow> map_option ((#) c) (utf8_decode rest))"
  by pat_completeness auto
termination
  by (relation "measure length") (auto dest: utf8_next_length simp: less_Suc_eq_le)

lemma utf8_lead: "a + n < 256 \<Longrightarrow> unat (word_of_nat (a + n) :: u8) = a + n"
  by (subst unat_of_nat) simp

lemma utf8_tail_cont:
  "x < 64 \<Longrightarrow> utf8_tail (Suc k) c (word_of_nat (0x80 + x) # bs) = utf8_tail k (c * 64 + x) bs"
  using utf8_lead[of "0x80" x] by (simp del: of_nat_add)

lemma utf8_tail_mod:
  "utf8_tail (Suc k) c (word_of_nat (0x80 + x mod 64) # bs) = utf8_tail k (c * 64 + x mod 64) bs"
  by (rule utf8_tail_cont) simp

lemma utf8_digits:
  "(c::nat) div 64 * 64 + c mod 64 = c"
  "c div 4096 * 64 + c div 64 mod 64 = c div 64"
  "c div 262144 * 64 + c div 4096 mod 64 = c div 4096"
  using div_mult_mod_eq[of c 64] div_mult_mod_eq[of "c div 64" 64] div_mult_mod_eq[of "c div 4096" 64]
    div_mult2_eq[of c 64 64] div_mult2_eq[of c 4096 64] by simp_all

lemma utf8_next_char:
  assumes "utf8_char c = Some bs"
  obtains b rest where "bs = b # rest" "utf8_next b (rest @ after) = Some (c, after)"
proof -
  consider (one) "c < 0x80" | (two) "0x80 \<le> c" "c < 0x800"
    | (three) "0x800 \<le> c" "c < 0x10000" "\<not> (0xD800 \<le> c \<and> c < 0xE000)"
    | (four) "0x10000 \<le> c" "c < 0x110000"
    using assms by (auto simp: utf8_char_def split: if_splits)
  then show thesis
  proof cases
    case one
    then have "unat (word_of_nat c :: u8) = c" using utf8_lead[of 0 c] by simp
    with one have "utf8_next (word_of_nat c) ([] @ after) = Some (c, after)" by (simp add: utf8_next_def)
    moreover have "bs = [word_of_nat c]" using assms one by (simp add: utf8_char_def)
    ultimately show thesis using that by blast
  next
    case two
    have digit: "2 \<le> c div 64" "c div 64 < 32" using two by simp_all
    then have lead: "unat (word_of_nat (0xC0 + c div 64) :: u8) = 0xC0 + c div 64"
      by (subst utf8_lead) simp_all
    show thesis
    proof (rule that)
      show "bs = word_of_nat (0xC0 + c div 64) # [word_of_nat (0x80 + c mod 64)]"
        using assms two by (simp add: utf8_char_def)
      show "utf8_next (word_of_nat (0xC0 + c div 64)) ([word_of_nat (0x80 + c mod 64)] @ after) = Some (c, after)"
        unfolding utf8_next_def lead Let_def One_nat_def append_Cons append_Nil
          utf8_tail_mod
        using digit by (simp add: utf8_digits(1))
    qed
  next
    case three
    have digit: "c div 4096 < 16" using three by simp
    then have lead: "unat (word_of_nat (0xE0 + c div 4096) :: u8) = 0xE0 + c div 4096"
      by (subst utf8_lead) simp_all
    show thesis
    proof (rule that)
      show "bs = word_of_nat (0xE0 + c div 4096) # [word_of_nat (0x80 + c div 64 mod 64), word_of_nat (0x80 + c mod 64)]"
        using assms three by (simp add: utf8_char_def)
      show "utf8_next (word_of_nat (0xE0 + c div 4096))
          ([word_of_nat (0x80 + c div 64 mod 64), word_of_nat (0x80 + c mod 64)] @ after) = Some (c, after)"
        unfolding utf8_next_def lead Let_def numeral_2_eq_2 append_Cons append_Nil
          utf8_tail_mod
        using digit three by (simp add: utf8_digits)
    qed
  next
    case four
    have digit: "c div 262144 < 5" using four by simp
    then have lead: "unat (word_of_nat (0xF0 + c div 262144) :: u8) = 0xF0 + c div 262144"
      by (subst utf8_lead) simp_all
    show thesis
    proof (rule that)
      show "bs = word_of_nat (0xF0 + c div 262144) # [word_of_nat (0x80 + c div 4096 mod 64),
          word_of_nat (0x80 + c div 64 mod 64), word_of_nat (0x80 + c mod 64)]"
        using assms four by (simp add: utf8_char_def)
      show "utf8_next (word_of_nat (0xF0 + c div 262144)) ([word_of_nat (0x80 + c div 4096 mod 64),
          word_of_nat (0x80 + c div 64 mod 64), word_of_nat (0x80 + c mod 64)] @ after) = Some (c, after)"
        unfolding utf8_next_def lead Let_def numeral_3_eq_3 append_Cons append_Nil
          utf8_tail_mod
        using digit four by (simp add: utf8_digits)
    qed
  qed
qed

lemma utf8_decode_encode: "utf8_encode cs = Some bs \<Longrightarrow> utf8_decode bs = Some cs"
proof (induction cs arbitrary: bs)
  case (Cons c cs)
  then obtain b1 bs2 where bs: "utf8_char c = Some b1" "utf8_encode cs = Some bs2" "bs = b1 @ bs2"
    by (auto split: option.splits)
  obtain b rest where "b1 = b # rest" "utf8_next b (rest @ bs2) = Some (c, bs2)"
    by (rule utf8_next_char[OF bs(1)])
  with bs Cons.IH[OF bs(2)] show ?case by simp
qed simp

text \<open>ASCII text is its own encoding.\<close>

lemma utf8_ascii: "\<forall>c \<in> set cs. c < 0x80 \<Longrightarrow> utf8_encode cs = Some (map word_of_nat cs)"
  by (induction cs) (auto simp: utf8_char_def)

section \<open>Packer\<close>

text \<open>\<open>self.data\<close>, a reference to a bytearray.\<close>

record py_packer =
  pr_data :: ref

definition py_new_packer :: "ref option \<Rightarrow> py_heap \<Rightarrow> py_packer \<times> py_heap" where
  "py_new_packer pkt h =
     (case pkt of
        None \<Rightarrow> (let (a, h) = new_array [] h in (\<lparr>pr_data = a\<rparr>, h))
      | Some r \<Rightarrow> (\<lparr>pr_data = pk_data (packet_at h r)\<rparr>, h))"

definition py_append :: "int \<Rightarrow> py_packer \<Rightarrow> py_heap \<Rightarrow> py_heap py" where
  "py_append byte pk h =
     bind_res (bytearray_append (array_at h (pr_data pk)) byte) (\<lambda>bs. Inr (write_array (pr_data pk) bs h))"

definition pack_u8 :: "int \<Rightarrow> py_packer \<Rightarrow> py_heap \<Rightarrow> py_heap py" where
  "pack_u8 data pk h = py_append (and data 0xff) pk h"

definition pack_u16 :: "int \<Rightarrow> py_packer \<Rightarrow> py_heap \<Rightarrow> py_heap py" where
  "pack_u16 data pk h =
     bind_res (py_append (and data 0xff) pk h) (\<lambda>h.
       py_append (and (drop_bit 8 data) 0xff) pk h)"

definition pack_u32 :: "int \<Rightarrow> py_packer \<Rightarrow> py_heap \<Rightarrow> py_heap py" where
  "pack_u32 data pk h =
     bind_res (py_append (and data 0xff) pk h) (\<lambda>h.
     bind_res (py_append (and (drop_bit 8 data) 0xff) pk h) (\<lambda>h.
     bind_res (py_append (and (drop_bit 16 data) 0xff) pk h) (\<lambda>h.
       py_append (and (drop_bit 24 data) 0xff) pk h)))"

definition pack_data :: "py_bytes \<Rightarrow> py_packer \<Rightarrow> py_heap \<Rightarrow> py_heap" where
  "pack_data s pk h = write_array (pr_data pk) (array_at h (pr_data pk) @ bytes_in h s) h"

text \<open>The argument of \<open>pack_str\<close>: a \<^verbatim>\<open>str\<close>, or bytes.\<close>

datatype py_text = Text "nat list" | Raw py_bytes

definition py_pack_str :: "py_text \<Rightarrow> py_packer \<Rightarrow> py_heap \<Rightarrow> py_heap py" where
  "py_pack_str s pk h =
     bind_res (case s of
         Text cs \<Rightarrow> (case utf8_encode cs of None \<Rightarrow> Inl UnicodeEncodeError | Some bs \<Rightarrow> Inr (Bytes bs))
       | Raw bs \<Rightarrow> Inr bs) (\<lambda>s.
     bind_res (pack_u8 (int (length (bytes_in h s)) + 1) pk h) (\<lambda>h.
       pack_u8 0 pk (pack_data s pk h)))"

section \<open>Unpacker\<close>

record py_unpacker =
  pu_data :: py_bytes
  pu_idx :: int

definition py_new_unpacker :: "py_bytes \<Rightarrow> py_unpacker" where
  "py_new_unpacker data = \<lparr>pu_data = data, pu_idx = 0\<rparr>"

definition more_data :: "py_heap \<Rightarrow> py_unpacker \<Rightarrow> bool" where
  "more_data h u \<longleftrightarrow> pu_idx u < int (length (bytes_in h (pu_data u)))"

text \<open>\<^verbatim>\<open>int.from_bytes(data, 'little')\<close>.\<close>

fun from_bytes_little :: "u8 list \<Rightarrow> int" where
  "from_bytes_little [] = 0"
| "from_bytes_little (b # bs) = uint b + 256 * from_bytes_little bs"

definition unpack_u8 :: "py_heap \<Rightarrow> py_unpacker \<Rightarrow> (int \<times> py_unpacker) py" where
  "unpack_u8 h u =
     bind_res (py_index (bytes_in h (pu_data u)) (pu_idx u)) (\<lambda>val.
       Inr (uint val, u\<lparr>pu_idx := pu_idx u + 1\<rparr>))"

definition unpack_u16 :: "py_heap \<Rightarrow> py_unpacker \<Rightarrow> int \<times> py_unpacker" where
  "unpack_u16 h u =
     (from_bytes_little (py_slice (bytes_in h (pu_data u)) (pu_idx u) (pu_idx u + 2)),
      u\<lparr>pu_idx := pu_idx u + 2\<rparr>)"

definition unpack_u32 :: "py_heap \<Rightarrow> py_unpacker \<Rightarrow> int \<times> py_unpacker" where
  "unpack_u32 h u =
     (from_bytes_little (py_slice (bytes_in h (pu_data u)) (pu_idx u) (pu_idx u + 4)),
      u\<lparr>pu_idx := pu_idx u + 4\<rparr>)"

definition unpack_data :: "py_heap \<Rightarrow> int \<Rightarrow> py_unpacker \<Rightarrow> u8 list \<times> py_unpacker" where
  "unpack_data h num_bytes u =
     (py_slice (bytes_in h (pu_data u)) (pu_idx u) (pu_idx u + num_bytes),
      u\<lparr>pu_idx := pu_idx u + num_bytes\<rparr>)"

definition py_unpack_str :: "py_heap \<Rightarrow> py_unpacker \<Rightarrow> (nat list \<times> py_unpacker) py" where
  "py_unpack_str h u =
     bind_res (unpack_u8 h u) (\<lambda>(str_len, u).
       let (c_str, u) = unpack_data h str_len u;
           c_str = (if length c_str > 1 then py_slice c_str 0 (- 1) else c_str) in
       case utf8_decode c_str of
         None \<Rightarrow> Inl UnicodeDecodeError
       | Some s \<Rightarrow> Inr (s, u))"

section \<open>Packing appends bytes\<close>

lemma and_ff_byte: "is_byte (and (i :: int) 0xff)" "word_of_int (and i 0xff) = (word_of_int i :: u8)"
proof -
  have "and i 0xff = take_bit 8 i"
    by (simp add: take_bit_eq_mask mask_eq_exp_minus_1)
  then show "is_byte (and i 0xff)" "word_of_int (and i 0xff) = (word_of_int i :: u8)"
    by (simp_all add: is_byte_def take_bit_eq_mod word_of_int_eq_iff)
qed

text \<open>What packing leaves: the array of the packer extended, everything else as it was.\<close>

lemma write_array_write_array [simp]: "write_array a xs (write_array a ys h) = write_array a xs h"
  by (simp add: write_array_def)

definition packed :: "py_packer \<Rightarrow> u8 list \<Rightarrow> py_heap \<Rightarrow> py_heap" where
  "packed pk bs h = write_array (pr_data pk) (array_at h (pr_data pk) @ bs) h"

lemma packed_simps [simp]:
  "pr_data pk < length (hp_arrays h) \<Longrightarrow> array_at (packed pk bs h) (pr_data pk) = array_at h (pr_data pk) @ bs"
  "pr_data pk < length (hp_arrays h) \<Longrightarrow> packed pk ys (packed pk xs h) = packed pk (xs @ ys) h"
  "length (hp_arrays (packed pk bs h)) = length (hp_arrays h)"
  "packet_at (packed pk bs h) r = packet_at h r"
  by (simp_all add: packed_def)

lemma py_append_packed: "py_append (and i 0xff) pk h = Inr (packed pk [word_of_int i] h)"
  by (simp add: py_append_def bytearray_append_def and_ff_byte packed_def)

lemma pack_u8_packed: "pack_u8 i pk h = Inr (packed pk [word_of_int i] h)"
  by (simp add: pack_u8_def py_append_packed)

lemma pack_u16_packed:
  "pr_data pk < length (hp_arrays h) \<Longrightarrow>
     pack_u16 i pk h = Inr (packed pk [word_of_int i, word_of_int (drop_bit 8 i)] h)"
  by (simp add: pack_u16_def py_append_packed)

lemma pack_u32_packed:
  "pr_data pk < length (hp_arrays h) \<Longrightarrow>
     pack_u32 i pk h = Inr (packed pk [word_of_int i, word_of_int (drop_bit 8 i),
       word_of_int (drop_bit 16 i), word_of_int (drop_bit 24 i)] h)"
  by (simp add: pack_u32_def py_append_packed)

lemma pack_data_packed: "pack_data (Bytes bs) pk h = packed pk bs h"
  by (simp add: pack_data_def packed_def)

lemma pack_str_packed:
  assumes "pr_data pk < length (hp_arrays h)"
  shows "py_pack_str (Raw (Bytes bs)) pk h = Inr (packed pk (word_of_nat (length bs + 1) # bs @ [0]) h)"
    "utf8_encode cs = Some bs \<Longrightarrow>
       py_pack_str (Text cs) pk h = Inr (packed pk (word_of_nat (length bs + 1) # bs @ [0]) h)"
  using assms by (simp_all add: py_pack_str_def pack_u8_packed pack_data_packed add.commute)

section \<open>Unpacking takes bytes\<close>

text \<open>The unpacker stands before the bytes \<open>bs\<close>.\<close>

definition unpacks_from :: "py_heap \<Rightarrow> py_unpacker \<Rightarrow> u8 list \<Rightarrow> bool" where
  "unpacks_from h u bs \<longleftrightarrow> (\<exists>i. pu_idx u = int i \<and> i \<le> length (bytes_in h (pu_data u)) \<and>
     drop i (bytes_in h (pu_data u)) = bs)"

lemma unpack_data_at:
  assumes "unpacks_from h u (bs @ rest)"
  shows "\<exists>u'. unpack_data h (int (length bs)) u = (bs, u') \<and> unpacks_from h u' rest"
proof -
  obtain i where i: "pu_idx u = int i" "drop i (bytes_in h (pu_data u)) = bs @ rest" "i \<le> length (bytes_in h (pu_data u))"
    using assms by (auto simp: unpacks_from_def)
  have "drop (i + length bs) (bytes_in h (pu_data u)) = rest"
    using i(2) by (metis add.commute append_eq_conv_conj drop_drop)
  moreover have "i + length bs \<le> length (bytes_in h (pu_data u))"
    using arg_cong[OF i(2), of length] i(3) by simp
  ultimately show ?thesis
    using i by (auto simp: unpack_data_def py_slice_nat unpacks_from_def intro!: exI[of _ "i + length bs"])
qed

lemma unpack_u8_at:
  assumes "unpacks_from h u (b # rest)"
  shows "\<exists>u'. unpack_u8 h u = Inr (uint b, u') \<and> unpacks_from h u' rest"
proof -
  obtain i where i: "pu_idx u = int i" "drop i (bytes_in h (pu_data u)) = b # rest"
    using assms by (auto simp: unpacks_from_def)
  then have "i < length (bytes_in h (pu_data u))" "bytes_in h (pu_data u) ! i = b"
    "drop (Suc i) (bytes_in h (pu_data u)) = rest"
    by (metis drop_all not_less list.distinct(1), metis nth_via_drop, metis drop_Suc drop_tl list.sel(3))
  with i show ?thesis
    by (auto simp: unpack_u8_def unpacks_from_def intro!: exI[of _ "Suc i"])
qed

end
