(* ===== verification/Py_Bus.thy ===== *)
theory Py_Bus
  imports Py_Codec Py_Packing
begin

text \<open>
  The class \<open>IBus\<close> of \<^verbatim>\<open>duino_bus/bus.py\<close>: reading and writing bytes, the thread that
  receives packets, the treatment of log packets, and a command with its response. The
  methods a concrete bus overrides are a record of functions on the state of its device,
  as in the C++ model.
\<close>

section \<open>The methods of a concrete bus\<close>

record 's py_bus_vt =
  pv_is_open :: "'s \<Rightarrow> bool"
  pv_is_data_available :: "'s \<Rightarrow> (bool \<times> 's) py"
  pv_read_byte :: "'s \<Rightarrow> (int option \<times> 's) py"
  pv_write_byte :: "int \<Rightarrow> 's \<Rightarrow> (bool \<times> 's) py"

section \<open>The bus\<close>

text \<open>\<open>ib_queue\<close> is \<open>recv_queue\<close>, a queue of references to packets; \<open>ib_out\<close> what was logged.\<close>

record 's py_bus =
  ib_packet :: ref
  ib_decoder :: py_decoder
  ib_encoder :: py_encoder
  ib_fileno :: int
  ib_queue :: "ref list"
  ib_heap :: py_heap
  ib_device :: 's
  ib_out :: "py_event list"

definition py_new_bus :: "py_heap \<Rightarrow> 's \<Rightarrow> 's py_bus" where
  "py_new_bus h s =
     (let (pkt, h) = py_new_packet None None h; (e, h) = py_new_encoder h
      in \<lparr>ib_packet = pkt, ib_decoder = py_new_decoder pkt, ib_encoder = e, ib_fileno = - 1,
          ib_queue = [], ib_heap = h, ib_device = s, ib_out = []\<rparr>)"

definition py_out :: "py_event list \<Rightarrow> 's py_bus \<Rightarrow> 's py_bus" where
  "py_out evs b = b\<lparr>ib_out := ib_out b @ evs\<rparr>"

definition py_set_debug :: "bool \<Rightarrow> 's py_bus \<Rightarrow> 's py_bus" where
  "py_set_debug debug b =
     b\<lparr>ib_decoder := py_decoder_set_debug debug (ib_decoder b),
       ib_encoder := py_encoder_set_debug debug (ib_encoder b)\<rparr>"

definition process_byte :: "crc_fn \<Rightarrow> 's py_bus_vt \<Rightarrow> 's py_bus \<Rightarrow> (int \<times> 's py_bus) py" where
  "process_byte crc_fn vt b =
     bind_res (pv_is_data_available vt (ib_device b)) (\<lambda>(avail, s).
       if \<not> avail then Inr (ErrorCode_NOT_DONE, b\<lparr>ib_device := s\<rparr>)
       else
         bind_res (pv_read_byte vt s) (\<lambda>(byte, s).
           case byte of
             None \<Rightarrow> Inr (ErrorCode_NOT_DONE, b\<lparr>ib_device := s\<rparr>)
           | Some byte \<Rightarrow>
               bind_res (decode_byte crc_fn byte (ib_decoder b) (ib_heap b)) (\<lambda>(err, d, h, out).
                 Inr (err, py_out out (b\<lparr>ib_device := s, ib_decoder := d, ib_heap := h\<rparr>)))))"

text \<open>The loop of \<open>write_packet\<close>: it returns \<open>OS\<close> as soon as a byte is not taken.\<close>

partial_function (option) py_write_loop ::
    "crc_fn \<Rightarrow> 's py_bus_vt \<Rightarrow> py_heap \<Rightarrow> py_encoder \<Rightarrow> 's \<Rightarrow> (int \<times> py_encoder \<times> 's) py option" where
  "py_write_loop crc_fn vt h e s =
     (case encode_byte crc_fn h e of
        Inl ex \<Rightarrow> Some (Inl ex)
      | Inr ((err, byte), e) \<Rightarrow>
          (case pv_write_byte vt byte s of
             Inl ex \<Rightarrow> Some (Inl ex)
           | Inr (ok, s) \<Rightarrow>
               if \<not> ok then Some (Inr (ErrorCode_OS, e, s))
               else if err = ErrorCode_NOT_DONE then py_write_loop crc_fn vt h e s
               else Some (Inr (err, e, s))))"

definition write_packet ::
    "crc_fn \<Rightarrow> 's py_bus_vt \<Rightarrow> ref \<Rightarrow> 's py_bus \<Rightarrow> (int \<times> 's py_bus) py option" where
  "write_packet crc_fn vt pkt b =
     (case encode_start crc_fn pkt (ib_encoder b) (ib_heap b) of
        Inl ex \<Rightarrow> Some (Inl ex)
      | Inr (e, h, out) \<Rightarrow>
          map_option (\<lambda>r. bind_res r (\<lambda>(err, e, s).
              Inr (err, py_out out (b\<lparr>ib_encoder := e, ib_heap := h, ib_device := s\<rparr>))))
            (py_write_loop crc_fn vt h e (ib_device b)))"

section \<open>Received packets\<close>

definition PY_LOG :: int where "PY_LOG = 0x03"
definition PY_EVENT :: int where "PY_EVENT = 0x04"

text \<open>The values of Python's \<^verbatim>\<open>logging\<close>: \<open>NOTSET\<close>, \<open>CRITICAL\<close>, \<open>ERROR\<close>, \<open>WARNING\<close>, \<open>INFO\<close>, \<open>DEBUG\<close>.\<close>

definition PYTHON_LOG_LEVEL :: "int list" where
  "PYTHON_LOG_LEVEL = [0, 50, 40, 30, 20, 10]"

definition process_packet :: "ref \<Rightarrow> 's py_bus \<Rightarrow> 's py_bus py" where
  "process_packet pkt b =
     (if get_command pkt (ib_heap b) = PY_LOG then
        let (a, h) = get_data pkt (ib_heap b);
            b = b\<lparr>ib_heap := h\<rparr>;
            unpacker = py_new_unpacker (ByteArray a) in
        bind_res (unpack_u8 h unpacker) (\<lambda>(level, unpacker).
        bind_res (py_unpack_str h unpacker) (\<lambda>(msg, unpacker).
        bind_res (if level \<ge> int (length PYTHON_LOG_LEVEL) then Inr 40 else py_index PYTHON_LOG_LEVEL level)
          (\<lambda>logging_level. Inr (py_out [Py_log logging_level msg] b))))
      else Inr (b\<lparr>ib_queue := ib_queue b @ [pkt]\<rparr>))"

section \<open>The receiving thread\<close>

text \<open>
  \<open>bus_opened\<close> starts the thread. \<^verbatim>\<open>select.poll\<close> reports pairs of a descriptor and a mask of
  events. An exception that the thread does not catch ends it; the bus is then as the
  raising call found it. A thread that has returned, or was ended by an exception, polls
  no more.
\<close>

definition POLLIN :: int where "POLLIN = 1"
definition POLLERR :: int where "POLLERR = 8"

datatype thread = Not_Started | Running | Returned | Raised py_exn

text \<open>\<open>self.thread\<close> is kept beside the bus; the constructor sets it to \<^verbatim>\<open>None\<close>.\<close>

definition py_new_thread :: thread where
  "py_new_thread = Not_Started"

definition bus_opened :: "int \<Rightarrow> 's py_bus \<Rightarrow> thread \<times> 's py_bus" where
  "bus_opened fileno b = (Running, b\<lparr>ib_fileno := fileno\<rparr>)"

definition thread_input :: "crc_fn \<Rightarrow> 's py_bus_vt \<Rightarrow> 's py_bus \<Rightarrow> thread \<times> 's py_bus" where
  "thread_input crc_fn vt b =
     (case process_byte crc_fn vt b of
        Inl ex \<Rightarrow> (Raised ex, b)
      | Inr (err, b) \<Rightarrow>
          if err = ErrorCode_NOT_DONE then (Running, b)
          else (case process_packet (pd_packet (ib_decoder b)) b of
                  Inl ex \<Rightarrow> (Raised ex, b)
                | Inr b \<Rightarrow> (Running, b)))"

fun thread_events :: "crc_fn \<Rightarrow> 's py_bus_vt \<Rightarrow> (int \<times> int) list \<Rightarrow> 's py_bus \<Rightarrow> thread \<times> 's py_bus" where
  "thread_events crc_fn vt [] b = (Running, b)"
| "thread_events crc_fn vt ((fd, event) # evs) b =
     (if fd = ib_fileno b then
        if and event POLLIN \<noteq> 0 then
          (case thread_input crc_fn vt b of
             (Running, b) \<Rightarrow> thread_events crc_fn vt evs b
           | ended \<Rightarrow> ended)
        else if and event POLLERR \<noteq> 0 then
          (Returned, py_out [Py_error ''Error reading serial port'' []] b)
        else thread_events crc_fn vt evs b
      else thread_events crc_fn vt evs b)"

text \<open>The loop over the results of \<^verbatim>\<open>poll\<close>, one element for each call.\<close>

fun incoming_data_thread ::
    "crc_fn \<Rightarrow> 's py_bus_vt \<Rightarrow> (int \<times> int) list list \<Rightarrow> 's py_bus \<Rightarrow> thread \<times> 's py_bus" where
  "incoming_data_thread crc_fn vt polls b =
     (if \<not> pv_is_open vt (ib_device b) then
        (Returned, py_out [Py_debug ''incoming_data_thread: bus is closed: exiting'',
           Py_debug ''incoming_data_thread: exiting''] b)
      else case polls of
        [] \<Rightarrow> (Running, b)
      | evs # polls \<Rightarrow>
          (case thread_events crc_fn vt evs b of
             (Running, b) \<Rightarrow> incoming_data_thread crc_fn vt polls b
           | ended \<Rightarrow> ended))"

section \<open>A command and its response\<close>

text \<open>
  \<^verbatim>\<open>recv_queue.get(block=True, timeout=...)\<close>: it returns as soon as there is a packet;
  \<open>polls\<close> is what the thread gets to do before the timeout expires.
\<close>

fun queue_get ::
    "crc_fn \<Rightarrow> 's py_bus_vt \<Rightarrow> (int \<times> int) list list \<Rightarrow> thread \<Rightarrow> 's py_bus \<Rightarrow>
     ref option \<times> thread \<times> 's py_bus" where
  "queue_get crc_fn vt polls t b =
     (case ib_queue b of
        r # rs \<Rightarrow> (Some r, t, b\<lparr>ib_queue := rs\<rparr>)
      | [] \<Rightarrow>
          if t \<noteq> Running then (None, t, b)
          else
            (case polls of
               [] \<Rightarrow> (None, t, b)
             | evs # polls \<Rightarrow>
                 (case incoming_data_thread crc_fn vt [evs] b of
                    (t, b) \<Rightarrow> queue_get crc_fn vt polls t b)))"

definition send_command_get_response ::
    "crc_fn \<Rightarrow> 's py_bus_vt \<Rightarrow> ref \<Rightarrow> (int \<times> int) list list \<Rightarrow> thread \<Rightarrow> 's py_bus \<Rightarrow>
     ((int \<times> ref option) \<times> thread \<times> 's py_bus) py option" where
  "send_command_get_response crc_fn vt cmd_pkt polls t b =
     (if \<not> pv_is_open vt (ib_device b) then Some (Inr ((ErrorCode_NOT_OPEN, None), t, b))
      else
        map_option (\<lambda>r. bind_res r (\<lambda>(err, b).
          if err \<noteq> ErrorCode_NONE then
            Inr ((err, None), t,
              py_out (Py_error ''Error writing command'' [] # py_dump ''Error'' cmd_pkt (ib_heap b)) b)
          else
            (case queue_get crc_fn vt polls t b of
               (Some rsp, t, b) \<Rightarrow> Inr ((ErrorCode_NONE, Some rsp), t, b)
             | (None, t, b) \<Rightarrow> Inr ((ErrorCode_TIMEOUT, None), t,
                 py_out (Py_error ''Timeout waiting for response'' []
                   # py_dump ''Timeout'' cmd_pkt (ib_heap b)) b))))
          (write_packet crc_fn vt cmd_pkt b))"

section \<open>The test bus\<close>

text \<open>\<open>TstBus\<close> of \<^verbatim>\<open>tests/test_bus.py\<close>.\<close>

record py_test_device =
  cmd_idx :: nat
  cmd_data :: "u8 list"
  rsp_data :: "u8 list"

definition tst_is_data_available :: "py_test_device \<Rightarrow> bool" where
  "tst_is_data_available s \<longleftrightarrow> cmd_idx s < length (cmd_data s)"

definition tst_read_byte :: "py_test_device \<Rightarrow> int option \<times> py_test_device" where
  "tst_read_byte s =
     (if cmd_idx s < length (cmd_data s)
      then (Some (uint (cmd_data s ! cmd_idx s)), s\<lparr>cmd_idx := cmd_idx s + 1\<rparr>)
      else (None, s))"

definition tst_write_byte :: "int \<Rightarrow> py_test_device \<Rightarrow> (bool \<times> py_test_device) py" where
  "tst_write_byte byte s =
     bind_res (bytearray_append (rsp_data s) byte) (\<lambda>bs. Inr (True, s\<lparr>rsp_data := bs\<rparr>))"

definition tst_vt :: "py_test_device py_bus_vt" where
  "tst_vt =
     \<lparr>pv_is_open = (\<lambda>s. True), pv_is_data_available = (\<lambda>s. Inr (tst_is_data_available s, s)),
      pv_read_byte = (\<lambda>s. Inr (tst_read_byte s)), pv_write_byte = tst_write_byte\<rparr>"

definition tst_bus :: "u8 list \<Rightarrow> py_test_device py_bus" where
  "tst_bus data =
     py_new_bus \<lparr>hp_arrays = [], hp_packets = []\<rparr> \<lparr>cmd_idx = 0, cmd_data = data, rsp_data = []\<rparr>"

end
