(* ===== verification/Py_Link.thy ===== *)
theory Py_Link
  imports Py_Interop Py_Bus
begin

text \<open>
  The Python bus at work: writing a packet to a device that may refuse bytes, what the
  receiving thread makes of the bytes that arrive, and what a caller of
  \<open>send_command_get_response\<close> gets, for good and for damaged responses.
\<close>

section \<open>Writing\<close>

text \<open>\<open>py_writes vt s bs s'\<close>: the device takes the bytes \<open>bs\<close> one after the other.\<close>

inductive py_writes :: "'s py_bus_vt \<Rightarrow> 's \<Rightarrow> u8 list \<Rightarrow> 's \<Rightarrow> bool" for vt where
  py_writes_Nil: "py_writes vt s [] s"
| py_writes_Cons: "pv_write_byte vt (uint b) s = Inr (True, s1) \<Longrightarrow> py_writes vt s1 bs s2 \<Longrightarrow>
    py_writes vt s (b # bs) s2"

inductive_simps py_writes_simps [simp]: "py_writes vt s [] s'" "py_writes vt s (b # bs) s'"

text \<open>How the loop of \<open>write_packet\<close> can end, for a device that raises no exception.\<close>

definition write_ends :: "'s py_bus_vt \<Rightarrow> 's \<Rightarrow> u8 list \<Rightarrow> int \<Rightarrow> 's \<Rightarrow> bool" where
  "write_ends vt s bs err s' \<longleftrightarrow>
     (err = ErrorCode_NONE \<and> py_writes vt s bs s') \<or>
     (err = ErrorCode_OS \<and> (\<exists>xs y zs s1. bs = xs @ y # zs \<and> py_writes vt s xs s1 \<and>
        pv_write_byte vt (uint y) s1 = Inr (False, s')))"

lemma write_ends_refused:
  "pv_write_byte vt (uint b) s = Inr (False, s') \<Longrightarrow> write_ends vt s (b # bs) ErrorCode_OS s'"
  unfolding write_ends_def by (intro disjI2 conjI exI[of _ "[]"] exI[of _ b] exI[of _ bs] exI[of _ s]) auto

lemma write_ends_taken:
  assumes "pv_write_byte vt (uint b) s = Inr (True, s1)" "write_ends vt s1 bs err s'"
  shows "write_ends vt s (b # bs) err s'"
  using assms(2) unfolding write_ends_def
proof (elim disjE conjE exE)
  assume "err = ErrorCode_NONE" "py_writes vt s1 bs s'"
  with assms(1) show "(err = ErrorCode_NONE \<and> py_writes vt s (b # bs) s') \<or>
     (err = ErrorCode_OS \<and> (\<exists>xs y zs s1. b # bs = xs @ y # zs \<and> py_writes vt s xs s1 \<and>
        pv_write_byte vt (uint y) s1 = Inr (False, s')))"
    by auto
next
  fix xs y zs s2
  assume "err = ErrorCode_OS" "bs = xs @ y # zs" "py_writes vt s1 xs s2"
    "pv_write_byte vt (uint y) s2 = Inr (False, s')"
  with assms(1) show "(err = ErrorCode_NONE \<and> py_writes vt s (b # bs) s') \<or>
     (err = ErrorCode_OS \<and> (\<exists>xs y zs s1. b # bs = xs @ y # zs \<and> py_writes vt s xs s1 \<and>
        pv_write_byte vt (uint y) s1 = Inr (False, s')))"
    by (intro disjI2 conjI exI[of _ "b # xs"] exI[of _ y] exI[of _ zs] exI[of _ s2]) auto
qed

lemma py_write_loop_ends:
  assumes "py_encoder_at h c ds e" "\<forall>b s. \<exists>ok s'. pv_write_byte vt (uint (b :: u8)) s = Inr (ok, s')"
  shows "\<exists>err e' s'. py_write_loop crc_fn vt h e s = Some (Inr (err, e', s')) \<and>
    write_ends vt s (py_owed crc_fn c ds e) err s'"
  using assms(1)
proof (induction "length (py_owed crc_fn c ds e)" arbitrary: e s rule: less_induct)
  case less
  obtain err e' x rest where step: "encode_byte crc_fn h e = Inr ((err, uint x), e')"
    "py_owed crc_fn c ds e = x # rest"
    "if rest = [] then err = ErrorCode_NONE \<and> pe_state e' = PE_IDLE
     else err = ErrorCode_NOT_DONE \<and> py_encoder_at h c ds e' \<and> py_owed crc_fn c ds e' = rest"
    using py_encode_byte_owed[OF less.prems, of crc_fn] by (auto simp: py_encode_step_def)
  obtain ok s1 where wr: "pv_write_byte vt (uint x) s = Inr (ok, s1)"
    using assms(2) by blast
  show ?case
  proof (cases ok)
    case False
    with step(1,2) wr show ?thesis
      by (auto simp: py_write_loop.simps intro!: write_ends_refused)
  next
    case True
    show ?thesis
    proof (cases "rest = []")
      case True
      with \<open>ok\<close> step wr show ?thesis
        by (auto simp: py_write_loop.simps write_ends_def py_codes)
    next
      case False
      with step have next_step: "err = ErrorCode_NOT_DONE" "py_encoder_at h c ds e'" "py_owed crc_fn c ds e' = rest"
        by auto
      then have "\<exists>err2 e2 s2. py_write_loop crc_fn vt h e' s1 = Some (Inr (err2, e2, s2)) \<and>
          write_ends vt s1 (py_owed crc_fn c ds e') err2 s2"
        using step(2) by (intro less.hyps) simp_all
      with \<open>ok\<close> step next_step wr show ?thesis
        by (auto simp: py_write_loop.simps[of _ _ _ e] intro: write_ends_taken)
    qed
  qed
qed

lemma write_packet_ends:
  assumes "packet_in r (ib_heap b)" "get_command r (ib_heap b) = uint c" "same_crc crc crc_fn"
    and "\<forall>x s. \<exists>ok s'. pv_write_byte vt (uint (x :: u8)) s = Inr (ok, s')"
  obtains err e' h' s' out where
    "write_packet crc_fn vt r b = Some (Inr (err,
       py_out out (b\<lparr>ib_encoder := e', ib_heap := h', ib_device := s'\<rparr>)))"
    "write_ends vt (ib_device b) (frame_bytes crc c (pkt_data (ib_heap b) r)) err s'"
    "packet_in r h'" "others_kept r (ib_heap b) h'" "pkt_data h' r = pkt_data (ib_heap b) r"
    "get_command r h' = uint c"
proof -
  obtain e1 h' out where start: "encode_start crc_fn r (ib_encoder b) (ib_heap b) = Inr (e1, h', out)"
    "py_encoder_at h' c (pkt_data (ib_heap b) r) e1" "pe_state e1 = PE_IDLE" "packet_in r h'"
    "others_kept r (ib_heap b) h'" "pkt_data h' r = pkt_data (ib_heap b) r" "get_command r h' = uint c"
    by (rule encode_start_ok[OF assms(1,2) refl])
  obtain err e2 s' where "py_write_loop crc_fn vt h' e1 (ib_device b) = Some (Inr (err, e2, s'))"
    "write_ends vt (ib_device b) (frame_bytes crc c (pkt_data (ib_heap b) r)) err s'"
    using py_write_loop_ends[OF start(2) assms(4), of crc_fn "ib_device b"]
    unfolding py_owed_frame[OF assms(3) start(3)] by blast
  with start that show thesis by (simp add: write_packet_def)
qed

text \<open>C29: A Python packet is written completely or cut off, never corrupted: on any device that
  raises no exception \<open>write_packet\<close> ends, either with \<open>NONE\<close> after the device has taken
  exactly the bytes of the frame in order, or with \<open>OS\<close> right after the first byte that the
  device refused, all bytes before it having been taken.\<close>

theorem python_write_is_a_frame_or_a_prefix:
  assumes "packet_in r (ib_heap b)" "get_command r (ib_heap b) = uint c" "same_crc crc crc_fn"
    and "\<forall>x s. \<exists>ok s'. pv_write_byte vt (uint (x :: u8)) s = Inr (ok, s')"
  shows "\<exists>err b'. write_packet crc_fn vt r b = Some (Inr (err, b')) \<and>
    (let frame = frame_bytes crc c (pkt_data (ib_heap b) r) in
     (err = ErrorCode_NONE \<and> py_writes vt (ib_device b) frame (ib_device b')) \<or>
     (err = ErrorCode_OS \<and> (\<exists>taken y rest s. frame = taken @ y # rest \<and>
        py_writes vt (ib_device b) taken s \<and> pv_write_byte vt (uint y) s = Inr (False, ib_device b'))))"
proof -
  obtain err e' h' s' out where "write_packet crc_fn vt r b = Some (Inr (err,
       py_out out (b\<lparr>ib_encoder := e', ib_heap := h', ib_device := s'\<rparr>)))"
    "write_ends vt (ib_device b) (frame_bytes crc c (pkt_data (ib_heap b) r)) err s'"
    using write_packet_ends[OF assms] by metis
  then show ?thesis
    by (auto simp: write_ends_def Let_def py_out_def)
qed

text \<open>The test bus with its two packets.\<close>

lemma tst_bus_fields:
  "packet_in 0 (ib_heap (tst_bus data))" "get_command 0 (ib_heap (tst_bus data)) = uint (0 :: u8)"
  "pkt_data (ib_heap (tst_bus data)) 0 = []" "ib_device (tst_bus data) = \<lparr>cmd_idx = 0, cmd_data = data, rsp_data = []\<rparr>"
  "ib_decoder (tst_bus data) = py_new_decoder 0" "ib_queue (tst_bus data) = []" "ib_fileno (tst_bus data) = - 1"
  "ib_out (tst_bus data) = []"
  by (simp_all add: tst_bus_def py_new_bus_def py_new_packet_def py_new_encoder_def new_array_def packet_in_def
      heap_ok_def get_command_def packet_at_def pkt_data_def array_at_def)

lemma tst_write_total: "\<exists>ok s'. pv_write_byte tst_vt (uint (x :: u8)) s = Inr (ok, s')"
  by (auto simp: tst_vt_def tst_write_byte_def bytearray_append_def)

theorem python_write_is_a_frame_or_a_prefix_witness:
  "\<exists>err b'. write_packet py_crc8 tst_vt 0 (tst_bus []) = Some (Inr (err, b')) \<and>
    (let frame = frame_bytes crc8_poly07 0 (pkt_data (ib_heap (tst_bus [])) 0) in
     (err = ErrorCode_NONE \<and> py_writes tst_vt (ib_device (tst_bus [])) frame (ib_device b')) \<or>
     (err = ErrorCode_OS \<and> (\<exists>taken y rest s. frame = taken @ y # rest \<and>
        py_writes tst_vt (ib_device (tst_bus [])) taken s \<and>
        pv_write_byte tst_vt (uint y) s = Inr (False, ib_device b'))))"
  by (rule python_write_is_a_frame_or_a_prefix[OF tst_bus_fields(1,2) same_crc_poly07])
    (simp add: tst_write_total)

section \<open>Receiving\<close>

text \<open>\<open>py_reads vt s bs s'\<close>: the bus stays open and the next bytes it reads are \<open>bs\<close>.\<close>

inductive py_reads :: "'s py_bus_vt \<Rightarrow> 's \<Rightarrow> u8 list \<Rightarrow> 's \<Rightarrow> bool" for vt where
  py_reads_Nil: "py_reads vt s [] s"
| py_reads_Cons: "pv_is_open vt s \<Longrightarrow> pv_is_data_available vt s = Inr (True, s1) \<Longrightarrow>
    pv_read_byte vt s1 = Inr (Some (uint b), s2) \<Longrightarrow> py_reads vt s2 bs s3 \<Longrightarrow> py_reads vt s (b # bs) s3"

inductive_simps py_reads_simps [simp]: "py_reads vt s [] s'" "py_reads vt s (b # bs) s'"

text \<open>The results of \<^verbatim>\<open>poll\<close> while \<open>n\<close> bytes are waiting.\<close>

definition input_polls :: "nat \<Rightarrow> 's py_bus \<Rightarrow> (int \<times> int) list list" where
  "input_polls n b = replicate n [(ib_fileno b, POLLIN)]"

text \<open>The bus after bytes have gone through its decoder.\<close>

definition py_received :: "'s \<Rightarrow> py_decoder \<Rightarrow> py_heap \<Rightarrow> py_event list \<Rightarrow> 's py_bus \<Rightarrow> 's py_bus" where
  "py_received s d h out b = py_out out (b\<lparr>ib_device := s, ib_decoder := d, ib_heap := h\<rparr>)"

lemma py_received_fields [simp]:
  "ib_fileno (py_received s d h out b) = ib_fileno b" "ib_decoder (py_received s d h out b) = d"
  "ib_heap (py_received s d h out b) = h" "ib_device (py_received s d h out b) = s"
  "ib_queue (py_received s d h out b) = ib_queue b" "ib_out (py_received s d h out b) = ib_out b @ out"
  "py_received s' d' h' out' (py_received s d h out b) = py_received s' d' h' (out @ out') b"
  "input_polls n (py_received s d h out b) = input_polls n b"
  by (simp_all add: py_received_def py_out_def input_polls_def)

lemma process_byte_reads:
  assumes "py_reads vt (ib_device b) [x] s'" "decode_byte crc_fn (uint x) (ib_decoder b) (ib_heap b) = Inr (err, d, h, out)"
  shows "process_byte crc_fn vt b = Inr (err, py_received s' d h out b)"
  using assms by (auto simp: process_byte_def py_received_def)

lemma POLLIN_nonzero [simp]: "POLLIN \<noteq> 0"
  by (simp add: POLLIN_def)

text \<open>One byte: the thread goes on, or treats the packet.\<close>

lemma thread_byte:
  assumes "py_reads vt (ib_device b) [x] s'" "decode_byte crc_fn (uint x) (ib_decoder b) (ib_heap b) = Inr (err, d, h, out)"
  shows "incoming_data_thread crc_fn vt ([(ib_fileno b, POLLIN)] # polls) b =
    (if err = ErrorCode_NOT_DONE then incoming_data_thread crc_fn vt polls (py_received s' d h out b)
     else (case process_packet (pd_packet d) (py_received s' d h out b) of
             Inl ex \<Rightarrow> (Raised ex, py_received s' d h out b)
           | Inr b' \<Rightarrow> incoming_data_thread crc_fn vt polls b'))"
  using assms process_byte_reads[OF assms]
  by (auto simp: thread_input_def split: sum.splits)

text \<open>A frame: nothing happens until its last byte.\<close>

lemma thread_frame:
  assumes "py_reads vt (ib_device b) (bs @ [x]) s'"
    and "py_decode_stream crc_fn (bs @ [x]) (ib_decoder b) (ib_heap b)
      = Inr (replicate (length bs) ErrorCode_NOT_DONE @ [err], d, h, out)" "err \<noteq> ErrorCode_NOT_DONE"
  shows "incoming_data_thread crc_fn vt (input_polls (length bs + 1) b @ polls) b =
    (case process_packet (pd_packet d) (py_received s' d h out b) of
       Inl ex \<Rightarrow> (Raised ex, py_received s' d h out b)
     | Inr b' \<Rightarrow> incoming_data_thread crc_fn vt polls b')"
  using assms
proof (induction bs arbitrary: b out)
  case Nil
  then have "decode_byte crc_fn (uint x) (ib_decoder b) (ib_heap b) = Inr (err, d, h, out)"
    by (auto simp: bind_res_eq_Inr)
  from thread_byte[OF _ this, of vt s' polls] Nil show ?case
    by (simp add: input_polls_def del: incoming_data_thread.simps)
next
  case (Cons y bs)
  obtain d1 h1 out1 out2 where step: "decode_byte crc_fn (uint y) (ib_decoder b) (ib_heap b)
      = Inr (ErrorCode_NOT_DONE, d1, h1, out1)"
    "py_decode_stream crc_fn (bs @ [x]) d1 h1 = Inr (replicate (length bs) ErrorCode_NOT_DONE @ [err], d, h, out2)"
    "out = out1 @ out2"
    using Cons.prems(2) by (auto simp: bind_res_eq_Inr)
  obtain s1 where s1: "py_reads vt (ib_device b) [y] s1" "py_reads vt s1 (bs @ [x]) s'"
    using Cons.prems(1) by auto
  let ?b1 = "py_received s1 d1 h1 out1 b"
  have "py_received s' d h out2 ?b1 = py_received s' d h out b"
    using step(3) by simp
  from Cons.IH[of ?b1 out2, unfolded this] s1(2) step(2) Cons.prems(3)
  have "incoming_data_thread crc_fn vt (input_polls (length bs + 1) b @ polls) ?b1 =
    (case process_packet (pd_packet d) (py_received s' d h out b) of
       Inl ex \<Rightarrow> (Raised ex, py_received s' d h out b)
     | Inr b' \<Rightarrow> incoming_data_thread crc_fn vt polls b')"
    by (simp del: incoming_data_thread.simps)
  moreover have "input_polls (length (y # bs) + 1) b @ polls
      = [(ib_fileno b, POLLIN)] # (input_polls (length bs + 1) b @ polls)"
    by (simp add: input_polls_def)
  ultimately show ?case
    using thread_byte[OF s1(1) step(1), of "input_polls (length bs + 1) b @ polls"] step(3)
    by (simp del: incoming_data_thread.simps)
qed

section \<open>A command and its response\<close>

lemma py_write_loop_taken:
  assumes "py_encoder_at h c ds e" "py_writes vt s (py_owed crc_fn c ds e) s'"
  shows "\<exists>e'. py_write_loop crc_fn vt h e s = Some (Inr (ErrorCode_NONE, e', s'))"
  using assms
proof (induction "length (py_owed crc_fn c ds e)" arbitrary: e s rule: less_induct)
  case less
  obtain err e' x rest where step: "encode_byte crc_fn h e = Inr ((err, uint x), e')"
    "py_owed crc_fn c ds e = x # rest"
    "if rest = [] then err = ErrorCode_NONE \<and> pe_state e' = PE_IDLE
     else err = ErrorCode_NOT_DONE \<and> py_encoder_at h c ds e' \<and> py_owed crc_fn c ds e' = rest"
    using py_encode_byte_owed[OF less.prems(1), of crc_fn] by (auto simp: py_encode_step_def)
  obtain s1 where wr: "pv_write_byte vt (uint x) s = Inr (True, s1)" "py_writes vt s1 rest s'"
    using less.prems(2) step(2) by auto
  show ?case
  proof (cases "rest = []")
    case True
    with step wr show ?thesis by (auto simp: py_write_loop.simps py_codes)
  next
    case False
    with step have next_step: "err = ErrorCode_NOT_DONE" "py_encoder_at h c ds e'" "py_owed crc_fn c ds e' = rest"
      by auto
    then have "\<exists>e2. py_write_loop crc_fn vt h e' s1 = Some (Inr (ErrorCode_NONE, e2, s'))"
      using step(2) wr(2) by (intro less.hyps) simp_all
    with step next_step wr show ?thesis
      by (auto simp: py_write_loop.simps[of _ _ _ e])
  qed
qed

lemma queue_get_byte:
  assumes "ib_queue b = []" "py_reads vt (ib_device b) [x] s'" "pv_is_open vt s'"
    "decode_byte crc_fn (uint x) (ib_decoder b) (ib_heap b) = Inr (err, d, h, out)"
  shows "err = ErrorCode_NOT_DONE \<Longrightarrow>
      queue_get crc_fn vt ([(ib_fileno b, POLLIN)] # polls) Running b
        = queue_get crc_fn vt polls Running (py_received s' d h out b)"
    and "err \<noteq> ErrorCode_NOT_DONE \<Longrightarrow> process_packet (pd_packet d) (py_received s' d h out b) = Inr b' \<Longrightarrow>
      ib_device b' = s' \<Longrightarrow>
      queue_get crc_fn vt ([(ib_fileno b, POLLIN)] # polls) Running b = queue_get crc_fn vt polls Running b'"
  using thread_byte[OF assms(2,4), of "[]"] assms(1,3)
  by (simp_all del: queue_get.simps add: queue_get.simps[of _ _ _ _ b])

lemma process_packet_device: "process_packet r b = Inr b' \<Longrightarrow> ib_device b' = ib_device b"
  by (auto simp: process_packet_def bind_res_eq_Inr split_beta Let_def py_out_def split: if_splits)

lemma queue_get_frame:
  assumes "ib_queue b = []" "py_reads vt (ib_device b) (bs @ [x]) s'" "pv_is_open vt s'"
    and "py_decode_stream crc_fn (bs @ [x]) (ib_decoder b) (ib_heap b)
      = Inr (replicate (length bs) ErrorCode_NOT_DONE @ [err], d, h, out)" "err \<noteq> ErrorCode_NOT_DONE"
    and "process_packet (pd_packet d) (py_received s' d h out b) = Inr b'"
  shows "queue_get crc_fn vt (input_polls (length bs + 1) b @ polls) Running b = queue_get crc_fn vt polls Running b'"
  using assms
proof (induction bs arbitrary: b out)
  case Nil
  then have "decode_byte crc_fn (uint x) (ib_decoder b) (ib_heap b) = Inr (err, d, h, out)"
    by (auto simp: bind_res_eq_Inr)
  from queue_get_byte(2)[OF _ _ _ this, of vt s' b' polls] Nil process_packet_device[OF Nil.prems(6)]
  show ?case by (simp add: input_polls_def del: queue_get.simps)
next
  case (Cons y bs)
  obtain d1 h1 out1 out2 where step: "decode_byte crc_fn (uint y) (ib_decoder b) (ib_heap b)
      = Inr (ErrorCode_NOT_DONE, d1, h1, out1)"
    "py_decode_stream crc_fn (bs @ [x]) d1 h1 = Inr (replicate (length bs) ErrorCode_NOT_DONE @ [err], d, h, out2)"
    "out = out1 @ out2"
    using Cons.prems(4) by (auto simp: bind_res_eq_Inr)
  obtain s1 where s1: "py_reads vt (ib_device b) [y] s1" "py_reads vt s1 (bs @ [x]) s'"
    using Cons.prems(2) by auto
  then have "pv_is_open vt s1"
    by (cases bs) auto
  note first = queue_get_byte(1)[OF Cons.prems(1) s1(1) this step(1) refl]
  let ?b1 = "py_received s1 d1 h1 out1 b"
  have "queue_get crc_fn vt (input_polls (length bs + 1) ?b1 @ polls) Running ?b1 = queue_get crc_fn vt polls Running b'"
    by (rule Cons.IH) (use Cons.prems s1(2) step(2,3) in simp_all)
  moreover have "input_polls (length (y # bs) + 1) b @ polls
      = [(ib_fileno b, POLLIN)] # (input_polls (length bs + 1) b @ polls)"
    by (simp add: input_polls_def)
  ultimately show ?case
    using first[of "input_polls (length bs + 1) b @ polls"] by (simp del: queue_get.simps)
qed

text \<open>
  Whatever code ends the input, the packet goes to the queue and from there to the caller,
  with the code \<open>NONE\<close>. \<open>s1\<close> is the device after the command has been written.
\<close>

lemma command_returns_packet:
  assumes "packet_in r (ib_heap b)" "get_command r (ib_heap b) = uint c" "same_crc crc crc_fn"
    and "pv_is_open vt (ib_device b)" "py_writes vt (ib_device b) (frame_bytes crc c (pkt_data (ib_heap b) r)) s1"
    and "py_decoder_ok (ib_decoder b) (ib_heap b)" "pd_state (ib_decoder b) = PD_IDLE" "ib_queue b = []"
    and "py_reads vt s1 (bs @ [x]) s2" "pv_is_open vt s2"
    and run: "\<And>h. py_decoder_ok (ib_decoder b) h \<Longrightarrow> \<exists>d h' out.
      py_decode_stream crc_fn (bs @ [x]) (ib_decoder b) h
        = Inr (replicate (length bs) ErrorCode_NOT_DONE @ [err], d, h', out) \<and>
      pd_packet d = pd_packet (ib_decoder b) \<and> P h'"
    and "err \<noteq> ErrorCode_NOT_DONE" "\<And>h. P h \<Longrightarrow> get_command (pd_packet (ib_decoder b)) h \<noteq> PY_LOG"
  obtains b' where "send_command_get_response crc_fn vt r (input_polls (length bs + 1) b @ polls) Running b
      = Some (Inr ((ErrorCode_NONE, Some (pd_packet (ib_decoder b))), Running, b'))"
    "P (ib_heap b')" "ib_queue b' = []" "ib_device b' = s2"
proof -
  let ?r = "pd_packet (ib_decoder b)"
  obtain e1 h1 out1 where start: "encode_start crc_fn r (ib_encoder b) (ib_heap b) = Inr (e1, h1, out1)"
    "py_encoder_at h1 c (pkt_data (ib_heap b) r) e1" "pe_state e1 = PE_IDLE" "packet_in r h1"
    "others_kept r (ib_heap b) h1"
    by (rule encode_start_ok[OF assms(1,2) refl])
  obtain e2 where loop: "py_write_loop crc_fn vt h1 e1 (ib_device b) = Some (Inr (ErrorCode_NONE, e2, s1))"
    using py_write_loop_taken[OF start(2), of vt "ib_device b" crc_fn s1] assms(5)
      py_owed_frame[OF assms(3) start(3)] by auto
  let ?b1 = "py_out out1 (b\<lparr>ib_encoder := e2, ib_heap := h1, ib_device := s1\<rparr>)"
  have b1: "ib_decoder ?b1 = ib_decoder b" "ib_heap ?b1 = h1" "ib_device ?b1 = s1" "ib_queue ?b1 = ib_queue b"
    "ib_fileno ?b1 = ib_fileno b"
    by (simp_all add: py_out_def)
  have wr: "write_packet crc_fn vt r b = Some (Inr (ErrorCode_NONE, ?b1))"
    using start(1) loop by (simp add: write_packet_def)
  have "py_decoder_ok (ib_decoder b) h1"
    using assms(6,7) start(4,5) by (auto simp: py_decoder_ok_def packet_in_def others_kept_def)
  from run[OF this] obtain d h' out where dec: "py_decode_stream crc_fn (bs @ [x]) (ib_decoder b) h1
      = Inr (replicate (length bs) ErrorCode_NOT_DONE @ [err], d, h', out)" "pd_packet d = ?r" "P h'"
    by blast
  let ?b2 = "py_received s2 d h' out ?b1"
  let ?b3 = "?b2\<lparr>ib_queue := ib_queue ?b2 @ [?r]\<rparr>"
  have put: "process_packet (pd_packet d) ?b2 = Inr ?b3"
    using assms(13)[OF dec(3)] dec(2) by (simp add: process_packet_def b1(4))
  have polls: "input_polls (length bs + 1) ?b1 = input_polls (length bs + 1) b"
    by (simp add: input_polls_def b1(5))
  have "queue_get crc_fn vt (input_polls (length bs + 1) b @ polls) Running ?b1 = queue_get crc_fn vt polls Running ?b3"
    using queue_get_frame[of ?b1 vt bs x s2 crc_fn err d h' out ?b3 polls] put dec(1) assms(8,9,10,12) b1
    unfolding polls by simp
  also have "\<dots> = (Some ?r, Running, ?b3\<lparr>ib_queue := []\<rparr>)"
    using assms(8) by (simp add: b1(4))
  finally have get: "queue_get crc_fn vt (input_polls (length bs + 1) b @ polls) Running ?b1
      = (Some ?r, Running, ?b3\<lparr>ib_queue := []\<rparr>)" .
  show thesis
  proof (rule that)
    show "send_command_get_response crc_fn vt r (input_polls (length bs + 1) b @ polls) Running b
      = Some (Inr ((ErrorCode_NONE, Some ?r), Running, ?b3\<lparr>ib_queue := []\<rparr>))"
      using assms(4) wr get by (simp add: send_command_get_response_def del: queue_get.simps)
  qed (simp_all add: dec(3))
qed

lemma command_response:
  assumes "packet_in r (ib_heap b)" "get_command r (ib_heap b) = uint c" "same_crc crc crc_fn"
    and "pv_is_open vt (ib_device b)" "py_writes vt (ib_device b) (frame_bytes crc c (pkt_data (ib_heap b) r)) s1"
    and "py_decoder_ok (ib_decoder b) (ib_heap b)" "pd_state (ib_decoder b) = PD_IDLE" "ib_queue b = []"
    and "py_reads vt s1 (frame_bytes crc c' ds) s2" "pv_is_open vt s2"
    and "length ds < MAX_DATA_LEN" "c' \<noteq> 0x03"
  shows "\<exists>rsp b'. send_command_get_response crc_fn vt r
        (input_polls (length (frame_bytes crc c' ds)) b @ polls) Running b
      = Some (Inr ((ErrorCode_NONE, Some rsp), Running, b')) \<and>
    get_command rsp (ib_heap b') = uint c' \<and> pkt_data (ib_heap b') rsp = ds \<and>
    ib_queue b' = [] \<and> ib_device b' = s2"
proof -
  let ?f = "frame_bytes crc c' ds"
  have split: "?f = butlast ?f @ [last ?f]" "length (butlast ?f) + 1 = length ?f"
    using frame_nonempty(1)[of crc c' ds] by simp_all
  have idle: "py_receiver_of (ib_decoder b) h = R_Idle" for h
    using assms(7) by (simp add: py_receiver_of_def)
  let ?rsp = "pd_packet (ib_decoder b)"
  have run: "\<exists>d h' out. py_decode_stream crc_fn (butlast ?f @ [last ?f]) (ib_decoder b) h
        = Inr (replicate (length (butlast ?f)) ErrorCode_NOT_DONE @ [ErrorCode_NONE], d, h', out) \<and>
      pd_packet d = ?rsp \<and> (get_command ?rsp h' = uint c' \<and> pkt_data h' ?rsp = ds)"
    if "py_decoder_ok (ib_decoder b) h" for h
    unfolding split(1)[symmetric] length_butlast
    using py_decode_frame[OF that assms(3,11), of c'] idle by metis
  have not_log: "get_command ?rsp h = uint c' \<and> pkt_data h ?rsp = ds \<Longrightarrow> get_command ?rsp h \<noteq> PY_LOG" for h
    using assms(12) by (auto simp: PY_LOG_def word_uint_eq_iff)
  have reads: "py_reads vt s1 (butlast ?f @ [last ?f]) s2"
    using assms(9) split(1) by simp
  have codes: "ErrorCode_NONE \<noteq> ErrorCode_NOT_DONE" by (simp add: py_codes)
  show ?thesis
    by (rule command_returns_packet[OF assms(1-8) reads assms(10) run codes not_log, of polls])
      (auto simp: split(2)[simplified] intro!: exI[of _ ?rsp])
qed

text \<open>C25: A command gets its response: when the device takes the bytes of the command and then
  delivers the frame of a response that is not a log message, with any data of at most 255
  bytes, \<open>send_command_get_response\<close> returns \<open>NONE\<close> and a packet with the command and the data of
  the response, and the thread runs on.\<close>

theorem python_command_gets_response:
  assumes "packet_in r (ib_heap b)" "get_command r (ib_heap b) = uint c" "same_crc crc crc_fn"
    and "pv_is_open vt (ib_device b)" "py_writes vt (ib_device b) (frame_bytes crc c (pkt_data (ib_heap b) r)) s1"
    and "py_decoder_ok (ib_decoder b) (ib_heap b)" "pd_state (ib_decoder b) = PD_IDLE" "ib_queue b = []"
    and "py_reads vt s1 (frame_bytes crc c' ds) s2" "pv_is_open vt s2"
    and "length ds < MAX_DATA_LEN" "c' \<noteq> 0x03"
  shows "\<exists>rsp b'. send_command_get_response crc_fn vt r
        (input_polls (length (frame_bytes crc c' ds)) b @ polls) Running b
      = Some (Inr ((ErrorCode_NONE, Some rsp), Running, b')) \<and>
    get_command rsp (ib_heap b') = uint c' \<and> pkt_data (ib_heap b') rsp = ds \<and>
    ib_queue b' = [] \<and> ib_device b' = s2"
  using assms by (rule command_response)

text \<open>C26: A damaged response is returned as if it were intact: when the CRC at the end of the
  response does not match its command and data, the decoder reports \<open>CRC\<close>, but the thread
  queues the packet all the same, and \<open>send_command_get_response\<close> returns \<open>NONE\<close> and the
  packet with the damaged data.\<close>

theorem damaged_response_is_returned:
  assumes "packet_in r (ib_heap b)" "get_command r (ib_heap b) = uint c" "same_crc crc crc_fn"
    and "pv_is_open vt (ib_device b)" "py_writes vt (ib_device b) (frame_bytes crc c (pkt_data (ib_heap b) r)) s1"
    and "py_decoder_ok (ib_decoder b) (ib_heap b)" "pd_state (ib_decoder b) = PD_IDLE" "ib_queue b = []"
    and "bytes = END # slips (c' # ds @ [x]) @ [END]" "py_reads vt s1 bytes s2" "pv_is_open vt s2"
    and "length ds < MAX_DATA_LEN" "c' \<noteq> 0x03" "x \<noteq> frame_crc crc c' ds"
  shows "\<exists>rsp b'. send_command_get_response crc_fn vt r (input_polls (length bytes) b @ polls) Running b
      = Some (Inr ((ErrorCode_NONE, Some rsp), Running, b')) \<and>
    get_command rsp (ib_heap b') = uint c' \<and> pkt_data (ib_heap b') rsp = ds \<and>
    get_crc rsp (ib_heap b') = uint x"
proof -
  let ?body = "END # slips (c' # ds @ [x])" and ?rsp = "pd_packet (ib_decoder b)"
  have bytes: "bytes = ?body @ [END]" "length bytes = length ?body + 1"
    using assms(9) by simp_all
  have idle: "py_receiver_of (ib_decoder b) h = R_Idle" for h
    using assms(7) by (simp add: py_receiver_of_def)
  have run: "\<exists>d h' out. py_decode_stream crc_fn (?body @ [END]) (ib_decoder b) h
        = Inr (replicate (length ?body) ErrorCode_NOT_DONE @ [ErrorCode_CRC], d, h', out) \<and>
      pd_packet d = ?rsp \<and> (get_command ?rsp h' = uint c' \<and> pkt_data h' ?rsp = ds \<and> get_crc ?rsp h' = uint x)"
    if "py_decoder_ok (ib_decoder b) h" for h
    using py_decode_damaged[OF that assms(3,12) idle assms(14)] by blast
  have not_log: "get_command ?rsp h = uint c' \<and> pkt_data h ?rsp = ds \<and> get_crc ?rsp h = uint x \<Longrightarrow>
      get_command ?rsp h \<noteq> PY_LOG" for h
    using assms(13) by (auto simp: PY_LOG_def word_uint_eq_iff)
  have codes: "ErrorCode_CRC \<noteq> ErrorCode_NOT_DONE" by (simp add: py_codes)
  show ?thesis
    unfolding bytes(2)
    by (rule command_returns_packet[OF assms(1-8) assms(10)[unfolded bytes(1)] assms(11) run codes not_log, of polls])
      (auto simp del: slips_simps intro!: exI[of _ ?rsp])
qed

section \<open>Several packets\<close>

lemma py_reads_append:
  "py_reads vt s (xs @ ys) s' \<longleftrightarrow> (\<exists>s1. py_reads vt s xs s1 \<and> py_reads vt s1 ys s')"
  by (induction xs arbitrary: s) auto

lemma input_polls_add: "input_polls (m + n) b = input_polls m b @ input_polls n b"
  by (simp add: input_polls_def replicate_add)

text \<open>A frame that is no log message puts the decoder's packet into the queue.\<close>

lemma thread_queues_frame:
  assumes "same_crc crc crc_fn" "py_decoder_ok (ib_decoder b) (ib_heap b)" "pd_state (ib_decoder b) = PD_IDLE"
    and "py_reads vt (ib_device b) (frame_bytes crc c ds) s'" "length ds < MAX_DATA_LEN" "c \<noteq> 0x03"
  obtains b' where "incoming_data_thread crc_fn vt (input_polls (length (frame_bytes crc c ds)) b @ polls) b
      = incoming_data_thread crc_fn vt polls b'"
    "ib_queue b' = ib_queue b @ [pd_packet (ib_decoder b)]" "pd_packet (ib_decoder b') = pd_packet (ib_decoder b)"
    "py_decoder_ok (ib_decoder b') (ib_heap b')" "pd_state (ib_decoder b') = PD_IDLE" "ib_device b' = s'"
    "get_command (pd_packet (ib_decoder b)) (ib_heap b') = uint c"
    "pkt_data (ib_heap b') (pd_packet (ib_decoder b)) = ds" "input_polls n b' = input_polls n b"
proof -
  let ?f = "frame_bytes crc c ds" and ?r = "pd_packet (ib_decoder b)"
  have split: "?f = butlast ?f @ [last ?f]" "length ?f = length (butlast ?f) + 1"
    using frame_nonempty(1)[of crc c ds] by simp_all
  have idle: "py_receiver_of (ib_decoder b) (ib_heap b) = R_Idle \<or> py_receiver_of (ib_decoder b) (ib_heap b) = R_Command False"
    using assms(3) by (simp add: py_receiver_of_def)
  obtain d h out where dec: "py_decode_stream crc_fn ?f (ib_decoder b) (ib_heap b)
       = Inr (replicate (length ?f - 1) ErrorCode_NOT_DONE @ [ErrorCode_NONE], d, h, out)"
    "py_decoder_ok d h" "py_receiver_of d h = R_Idle" "pd_packet d = ?r"
    "get_command ?r h = uint c" "pkt_data h ?r = ds"
    by (rule py_decode_frame[OF assms(2,1,5) idle, of c])
  let ?b1 = "py_received s' d h out b"
  let ?b2 = "?b1\<lparr>ib_queue := ib_queue b @ [?r]\<rparr>"
  have "process_packet (pd_packet d) ?b1 = Inr ?b2"
    using dec(4,5) assms(6) by (simp add: process_packet_def PY_LOG_def word_uint_eq_iff)
  moreover have "incoming_data_thread crc_fn vt (input_polls (length (butlast ?f) + 1) b @ polls) b =
      (case process_packet (pd_packet d) ?b1 of
         Inl ex \<Rightarrow> (Raised ex, ?b1) | Inr b' \<Rightarrow> incoming_data_thread crc_fn vt polls b')"
    by (rule thread_frame[where x = "last ?f" and err = ErrorCode_NONE])
      (use assms(4) dec(1) frame_nonempty(1)[of crc c ds] in \<open>simp_all add: py_codes\<close>)
  ultimately have "incoming_data_thread crc_fn vt (input_polls (length ?f) b @ polls) b
      = incoming_data_thread crc_fn vt polls ?b2"
    unfolding split(2)[symmetric] by (simp del: incoming_data_thread.simps)
  moreover have "pd_state d = PD_IDLE"
    using dec(2,3) by (auto simp: py_decoder_ok_def py_receiver_of_def split: if_splits)
  ultimately show thesis
    using dec by (intro that[of ?b2]) (simp_all add: input_polls_def)
qed

text \<open>Only the last of the packets waiting in the queue survives: when two frames arrive before
  the caller takes the first packet, the queue holds the same \<open>Packet\<close> object twice, and
  through both entries the caller finds the command and the data of the second frame.\<close>

theorem queued_packets_are_overwritten:
  assumes "same_crc crc crc_fn" "py_decoder_ok (ib_decoder b) (ib_heap b)" "pd_state (ib_decoder b) = PD_IDLE"
    and "py_reads vt (ib_device b) (frame_bytes crc c1 ds1 @ frame_bytes crc c2 ds2) s'" "pv_is_open vt s'"
    and "length ds1 < MAX_DATA_LEN" "length ds2 < MAX_DATA_LEN" "c1 \<noteq> 0x03" "c2 \<noteq> 0x03"
  shows "\<exists>pkt b'. incoming_data_thread crc_fn vt
        (input_polls (length (frame_bytes crc c1 ds1) + length (frame_bytes crc c2 ds2)) b) b = (Running, b') \<and>
    ib_queue b' = ib_queue b @ [pkt, pkt] \<and>
    get_command pkt (ib_heap b') = uint c2 \<and> pkt_data (ib_heap b') pkt = ds2"
proof -
  let ?r = "pd_packet (ib_decoder b)"
  let ?n1 = "length (frame_bytes crc c1 ds1)" and ?n2 = "length (frame_bytes crc c2 ds2)"
  obtain s1 where s1: "py_reads vt (ib_device b) (frame_bytes crc c1 ds1) s1"
    "py_reads vt s1 (frame_bytes crc c2 ds2) s'"
    using assms(4) by (auto simp: py_reads_append)
  obtain b1 where b1: "incoming_data_thread crc_fn vt (input_polls ?n1 b @ input_polls ?n2 b) b
      = incoming_data_thread crc_fn vt (input_polls ?n2 b) b1"
    "ib_queue b1 = ib_queue b @ [?r]" "pd_packet (ib_decoder b1) = ?r"
    "py_decoder_ok (ib_decoder b1) (ib_heap b1)" "pd_state (ib_decoder b1) = PD_IDLE" "ib_device b1 = s1"
    "input_polls ?n2 b1 = input_polls ?n2 b"
    by (rule thread_queues_frame[OF assms(1-3) s1(1) assms(6,8)])
  obtain b2 where b2: "incoming_data_thread crc_fn vt (input_polls ?n2 b1 @ []) b1 = incoming_data_thread crc_fn vt [] b2"
    "ib_queue b2 = ib_queue b1 @ [pd_packet (ib_decoder b1)]" "ib_device b2 = s'"
    "get_command (pd_packet (ib_decoder b1)) (ib_heap b2) = uint c2"
    "pkt_data (ib_heap b2) (pd_packet (ib_decoder b1)) = ds2"
    by (rule thread_queues_frame[OF assms(1) b1(4,5) _ assms(7,9), of vt s' "[]"])
      (use s1(2) b1(6) in \<open>simp_all del: incoming_data_thread.simps\<close>)
  have "incoming_data_thread crc_fn vt [] b2 = (Running, b2)"
    using b2(3) assms(5) by simp
  then have "incoming_data_thread crc_fn vt (input_polls (?n1 + ?n2) b) b = (Running, b2)"
    using b1(1,7) b2(1) by (simp add: input_polls_add del: incoming_data_thread.simps)
  with b1(2,3) b2(2,4,5) show ?thesis
    by (intro exI[of _ ?r] exI[of _ b2]) (simp del: incoming_data_thread.simps)
qed

section \<open>Examples\<close>

lemma tst_writes: "py_writes tst_vt s bs (s\<lparr>rsp_data := rsp_data s @ bs\<rparr>)"
proof (induction bs arbitrary: s)
  case (Cons b bs)
  have "pv_write_byte tst_vt (uint b) s = Inr (True, s\<lparr>rsp_data := rsp_data s @ [b]\<rparr>)"
    by (simp add: tst_vt_def tst_write_byte_def bytearray_append_def)
  moreover have "py_writes tst_vt (s\<lparr>rsp_data := rsp_data s @ [b]\<rparr>) bs (s\<lparr>rsp_data := rsp_data s @ b # bs\<rparr>)"
    using Cons[of "s\<lparr>rsp_data := rsp_data s @ [b]\<rparr>"] by simp
  ultimately show ?case by auto
qed simp

lemma tst_reads:
  "drop (cmd_idx s) (cmd_data s) = bs @ rest \<Longrightarrow> py_reads tst_vt s bs (s\<lparr>cmd_idx := cmd_idx s + length bs\<rparr>)"
proof (induction bs arbitrary: s)
  case (Cons b bs)
  let ?s1 = "s\<lparr>cmd_idx := Suc (cmd_idx s)\<rparr>"
  have "cmd_idx s < length (cmd_data s)" "cmd_data s ! cmd_idx s = b" "drop (Suc (cmd_idx s)) (cmd_data s) = bs @ rest"
    using Cons.prems by (metis drop_all not_less append_Cons list.distinct(1), metis nth_via_drop append_Cons,
        metis drop_Suc drop_tl list.sel(3) append_Cons)
  moreover from this(3) have "py_reads tst_vt ?s1 bs (?s1\<lparr>cmd_idx := cmd_idx ?s1 + length bs\<rparr>)"
    by (intro Cons.IH) simp
  ultimately show ?case
    by (auto simp: tst_vt_def tst_is_data_available_def tst_read_byte_def)
qed simp

lemma tst_bus_idle:
  "py_decoder_ok (ib_decoder (tst_bus data)) (ib_heap (tst_bus data))"
  "pd_state (ib_decoder (tst_bus data)) = PD_IDLE" "pd_packet (ib_decoder (tst_bus data)) = 0"
  "pv_is_open tst_vt s"
  using tst_bus_fields by (simp_all add: py_new_decoder_ok tst_vt_def)

lemma tst_reads_all:
  "py_reads tst_vt \<lparr>cmd_idx = 0, cmd_data = data, rsp_data = out\<rparr> data
     \<lparr>cmd_idx = length data, cmd_data = data, rsp_data = out\<rparr>"
  using tst_reads[of "\<lparr>cmd_idx = 0, cmd_data = data, rsp_data = out\<rparr>" data "[]"] by simp

lemma tst_command_written:
  "py_writes tst_vt (ib_device (tst_bus data)) (frame_bytes crc8_poly07 0 (pkt_data (ib_heap (tst_bus data)) 0))
     \<lparr>cmd_idx = 0, cmd_data = data, rsp_data = frame_bytes crc8_poly07 0 []\<rparr>"
  using tst_writes[of "ib_device (tst_bus data)" "frame_bytes crc8_poly07 0 []"] by (simp add: tst_bus_fields)

theorem python_command_gets_response_witness:
  "\<exists>rsp b'. send_command_get_response py_crc8 tst_vt 0
        (input_polls (length (frame_bytes crc8_poly07 1 [2])) (tst_bus (frame_bytes crc8_poly07 1 [2])) @ [])
        Running (tst_bus (frame_bytes crc8_poly07 1 [2]))
      = Some (Inr ((ErrorCode_NONE, Some rsp), Running, b')) \<and>
    get_command rsp (ib_heap b') = uint (1 :: u8) \<and> pkt_data (ib_heap b') rsp = [2] \<and> ib_queue b' = [] \<and>
    ib_device b' = \<lparr>cmd_idx = length (frame_bytes crc8_poly07 1 [2]), cmd_data = frame_bytes crc8_poly07 1 [2],
      rsp_data = frame_bytes crc8_poly07 0 []\<rparr>"
  by (rule python_command_gets_response[OF tst_bus_fields(1,2) same_crc_poly07 tst_bus_idle(4)
        tst_command_written tst_bus_idle(1,2) tst_bus_fields(6) tst_reads_all tst_bus_idle(4)])
    (simp_all add: MAX_DATA_LEN_def)

text \<open>A response whose data byte has been changed on the way from 2 to 3.\<close>

lemma crc8_damaged: "frame_crc crc8_poly07 0x01 [0x03] = 0x1c"
  by code_simp

theorem damaged_response_is_returned_witness:
  "\<exists>rsp b'. send_command_get_response py_crc8 tst_vt 0
        (input_polls (length (END # slips [1, 3, 0x1b] @ [END])) (tst_bus (END # slips [1, 3, 0x1b] @ [END])) @ [])
        Running (tst_bus (END # slips [1, 3, 0x1b] @ [END]))
      = Some (Inr ((ErrorCode_NONE, Some rsp), Running, b')) \<and>
    get_command rsp (ib_heap b') = uint (1 :: u8) \<and> pkt_data (ib_heap b') rsp = [3] \<and>
    get_crc rsp (ib_heap b') = uint (0x1b :: u8)"
  by (rule damaged_response_is_returned[OF tst_bus_fields(1,2) same_crc_poly07 tst_bus_idle(4)
        tst_command_written tst_bus_idle(1,2) tst_bus_fields(6) _ tst_reads_all tst_bus_idle(4)])
    (simp_all add: MAX_DATA_LEN_def crc8_damaged)

theorem queued_packets_are_overwritten_witness:
  "\<exists>pkt b'. incoming_data_thread py_crc8 tst_vt
        (input_polls (length (frame_bytes crc8_poly07 1 [2]) + length (frame_bytes crc8_poly07 5 [])) (tst_bus
           (frame_bytes crc8_poly07 1 [2] @ frame_bytes crc8_poly07 5 [])))
        (tst_bus (frame_bytes crc8_poly07 1 [2] @ frame_bytes crc8_poly07 5 [])) = (Running, b') \<and>
    ib_queue b' = ib_queue (tst_bus (frame_bytes crc8_poly07 1 [2] @ frame_bytes crc8_poly07 5 [])) @ [pkt, pkt] \<and>
    get_command pkt (ib_heap b') = uint (5 :: u8) \<and> pkt_data (ib_heap b') pkt = []"
  by (rule queued_packets_are_overwritten[OF same_crc_poly07 tst_bus_idle(1,2) _ tst_bus_idle(4)])
    (simp_all add: MAX_DATA_LEN_def tst_bus_fields(4), (rule tst_reads_all)?)

end
