(* ===== verification/Py_Logging.thy ===== *)
theory Py_Logging
  imports Py_Link Bus_Log
begin

text \<open>
  The two implementations exchange values: what the C++ \<open>Packer\<close> and the Python one make of
  the same values, what either unpacks of the other's bytes, and what becomes of a log
  message of a C++ \<open>BusLog\<close> in the receiving thread of a Python bus.
\<close>

section \<open>Values of both languages\<close>

text \<open>What a Python application packs, with the method it calls; \<open>item_of\<close> is the C++ value.\<close>

datatype py_item = P8 int | P16 int | P32 int | PText "nat list"

fun item_of :: "py_item \<Rightarrow> item" where
  "item_of (P8 i) = U8 (word_of_int i)"
| "item_of (P16 i) = U16 (word_of_int i)"
| "item_of (P32 i) = U32 (word_of_int i)"
| "item_of (PText cs) = Str (case utf8_encode cs of None \<Rightarrow> [] | Some bs \<Rightarrow> bs)"

text \<open>Integers in range, and non-empty texts that both languages can carry.\<close>

fun py_item_ok :: "py_item \<Rightarrow> bool" where
  "py_item_ok (P8 i) \<longleftrightarrow> 0 \<le> i \<and> i < 2 ^ 8"
| "py_item_ok (P16 i) \<longleftrightarrow> 0 \<le> i \<and> i < 2 ^ 16"
| "py_item_ok (P32 i) \<longleftrightarrow> 0 \<le> i \<and> i < 2 ^ 32"
| "py_item_ok (PText cs) \<longleftrightarrow>
     (case utf8_encode cs of None \<Rightarrow> False | Some bs \<Rightarrow> bs \<noteq> [] \<and> 0 \<notin> set bs \<and> length bs < 255)"

fun py_pack_item :: "py_item \<Rightarrow> py_packer \<Rightarrow> py_heap \<Rightarrow> py_heap py" where
  "py_pack_item (P8 i) pk h = pack_u8 i pk h"
| "py_pack_item (P16 i) pk h = pack_u16 i pk h"
| "py_pack_item (P32 i) pk h = pack_u32 i pk h"
| "py_pack_item (PText cs) pk h = py_pack_str (Text cs) pk h"

fun py_pack_items :: "py_item list \<Rightarrow> py_packer \<Rightarrow> py_heap \<Rightarrow> py_heap py" where
  "py_pack_items [] pk h = Inr h"
| "py_pack_items (x # xs) pk h = bind_res (py_pack_item x pk h) (py_pack_items xs pk)"

fun py_unpack_item :: "kind \<Rightarrow> py_heap \<Rightarrow> py_unpacker \<Rightarrow> (py_item \<times> py_unpacker) py" where
  "py_unpack_item K8 h u = bind_res (unpack_u8 h u) (\<lambda>(i, u). Inr (P8 i, u))"
| "py_unpack_item K16 h u = (case unpack_u16 h u of (i, u) \<Rightarrow> Inr (P16 i, u))"
| "py_unpack_item K32 h u = (case unpack_u32 h u of (i, u) \<Rightarrow> Inr (P32 i, u))"
| "py_unpack_item KStr h u = bind_res (py_unpack_str h u) (\<lambda>(cs, u). Inr (PText cs, u))"

fun py_unpack_items :: "kind list \<Rightarrow> py_heap \<Rightarrow> py_unpacker \<Rightarrow> (py_item list \<times> py_unpacker) py" where
  "py_unpack_items [] h u = Inr ([], u)"
| "py_unpack_items (k # ks) h u =
     bind_res (py_unpack_item k h u) (\<lambda>(x, u).
       bind_res (py_unpack_items ks h u) (\<lambda>(xs, u). Inr (x # xs, u)))"

section \<open>The same bytes\<close>

lemma ucast_drop_word_of_int:
  "8 + n \<le> LENGTH('a) \<Longrightarrow> ucast (drop_bit n (word_of_int i :: 'a::len word)) = (word_of_int (drop_bit n i) :: u8)"
  by (rule bit_word_eqI) (auto simp: bit_simps)

lemma le_bytes_unfold:
  "le_bytes 2 w = [ucast w, ucast (drop_bit 8 w)]"
  "le_bytes 4 w = [ucast w, ucast (drop_bit 8 w), ucast (drop_bit 16 w), ucast (drop_bit 24 w)]"
proof -
  have suc: "(2::nat) = Suc (Suc 0)" "(4::nat) = Suc (Suc (Suc (Suc 0)))" by simp_all
  have drop: "drop_bit 8 (drop_bit 8 w) = drop_bit 16 w" "drop_bit 8 (drop_bit 16 w) = drop_bit 24 w"
    by (simp_all only: drop_bit_drop_bit) simp_all
  show "le_bytes 2 w = [ucast w, ucast (drop_bit 8 w)]"
    "le_bytes 4 w = [ucast w, ucast (drop_bit 8 w), ucast (drop_bit 16 w), ucast (drop_bit 24 w)]"
    by (simp_all only: suc le_bytes.simps drop)
qed

lemma le_bytes_int:
  "le_bytes 2 (word_of_int i :: u16) = [word_of_int i, word_of_int (drop_bit 8 i)]"
  "le_bytes 4 (word_of_int i :: u32) = [word_of_int i, word_of_int (drop_bit 8 i),
     word_of_int (drop_bit 16 i), word_of_int (drop_bit 24 i)]"
  unfolding le_bytes_unfold
  using ucast_drop_word_of_int[of 0 i, where 'a = 16] ucast_drop_word_of_int[of 0 i, where 'a = 32]
  by (auto simp: ucast_drop_word_of_int)

lemma from_bytes_le_bytes:
  fixes w :: "'a::len word"
  shows "from_bytes_little (le_bytes n w) = take_bit (8 * n) (uint w)"
proof (induction n arbitrary: w)
  case (Suc n)
  have "uint w mod 2 ^ (8 + 8 * n) = 2 ^ 8 * (uint w div 2 ^ 8 mod 2 ^ (8 * n)) + uint w mod 2 ^ 8"
    unfolding power_add by (rule zmod_zmult2_eq) simp
  moreover have "uint (drop_bit 8 w) = uint w div 2 ^ 8"
    unfolding unsigned_drop_bit_eq by (simp add: drop_bit_eq_div take_bit_int_eq_self)
  then have "from_bytes_little (le_bytes (Suc n) w) = uint w mod 2 ^ 8 + 256 * (uint w div 2 ^ 8 mod 2 ^ (8 * n))"
    by (simp only: le_bytes.simps from_bytes_little.simps Suc take_bit_eq_mod
        unsigned_ucast_eq) simp
  ultimately show ?case
    by (simp add: take_bit_eq_mod)
qed simp

lemma pack_item_packed:
  assumes "py_item_ok x" "pr_data pk < length (hp_arrays h)"
  shows "py_pack_item x pk h = Inr (packed pk (item_bytes (item_of x)) h)"
  using assms
  by (cases x) (auto simp: pack_u8_packed pack_u16_packed pack_u32_packed pack_str_packed le_bytes_int
      string_bytes_def split: option.splits simp del: le_bytes.simps)

lemma pack_items_packed:
  "list_all py_item_ok xs \<Longrightarrow> pr_data pk < length (hp_arrays h) \<Longrightarrow>
     \<exists>h'. py_pack_items xs pk h = Inr h' \<and>
       array_at h' (pr_data pk) = array_at h (pr_data pk) @ items_bytes (map item_of xs)"
proof (induction xs arbitrary: h)
  case (Cons x xs)
  let ?h = "packed pk (item_bytes (item_of x)) h"
  have "\<exists>h'. py_pack_items xs pk ?h = Inr h' \<and>
      array_at h' (pr_data pk) = array_at ?h (pr_data pk) @ items_bytes (map item_of xs)"
    using Cons.prems by (intro Cons.IH) simp_all
  with Cons.prems show ?case by (auto simp: pack_item_packed)
qed simp

section \<open>Unpacking\<close>

lemma unpack_words_data:
  "unpack_u16 h u = apfst from_bytes_little (unpack_data h 2 u)"
  "unpack_u32 h u = apfst from_bytes_little (unpack_data h 4 u)"
  by (simp_all add: unpack_u16_def unpack_u32_def unpack_data_def)

lemma py_unpack_str_at:
  assumes "unpacks_from h u (string_bytes bs @ rest)" "length bs < 255"
  shows "py_unpack_str h u =
      (case utf8_decode (if bs = [] then [0] else bs) of
         None \<Rightarrow> Inl UnicodeDecodeError
       | Some cs \<Rightarrow> Inr (cs, u\<lparr>pu_idx := pu_idx u + int (length bs) + 2\<rparr>))"
    and "unpacks_from h (u\<lparr>pu_idx := pu_idx u + int (length bs) + 2\<rparr>) rest"
proof -
  let ?l = "word_of_nat (length bs + 1) :: u8"
  have len: "uint ?l = int (length (bs @ [0 :: u8]))"
    using unat_string_length[OF assms(2)] by (simp only: uint_nat) simp
  obtain u1 where u1: "unpack_u8 h u = Inr (uint ?l, u1)" "unpacks_from h u1 ((bs @ [0]) @ rest)"
    using unpack_u8_at[of h u ?l "(bs @ [0]) @ rest"] assms(1) by (auto simp: string_bytes_def)
  obtain u2 where u2: "unpack_data h (uint ?l) u1 = (bs @ [0], u2)" "unpacks_from h u2 rest"
    using unpack_data_at[OF u1(2)] unfolding len by auto
  have "u2 = u\<lparr>pu_idx := pu_idx u + int (length bs) + 2\<rparr>"
    using u1(1) u2(1) unfolding len by (auto simp: unpack_u8_def unpack_data_def bind_res_eq_Inr)
  with u1 u2 show "py_unpack_str h u =
      (case utf8_decode (if bs = [] then [0] else bs) of
         None \<Rightarrow> Inl UnicodeDecodeError
       | Some cs \<Rightarrow> Inr (cs, u\<lparr>pu_idx := pu_idx u + int (length bs) + 2\<rparr>))"
    and "unpacks_from h (u\<lparr>pu_idx := pu_idx u + int (length bs) + 2\<rparr>) rest"
    by (simp_all add: py_unpack_str_def del: utf8_decode.simps)
qed

lemma unpack_item_at:
  assumes "unpacks_from h u (item_bytes (item_of x) @ rest)" "py_item_ok x"
  shows "\<exists>u'. py_unpack_item (kind_of (item_of x)) h u = Inr (x, u') \<and> unpacks_from h u' rest"
proof (cases x)
  case (P8 i)
  with assms unpack_u8_at[of h u "word_of_int i" rest] show ?thesis
    by (auto simp: uint_word_of_int)
next
  case (P16 i)
  with assms unpack_data_at[of h u "le_bytes 2 (word_of_int i :: u16)" rest] show ?thesis
    by (auto simp: unpack_words_data from_bytes_le_bytes uint_word_of_int take_bit_eq_mod simp del: le_bytes.simps)
next
  case (P32 i)
  with assms unpack_data_at[of h u "le_bytes 4 (word_of_int i :: u32)" rest] show ?thesis
    by (auto simp: unpack_words_data from_bytes_le_bytes uint_word_of_int take_bit_eq_mod simp del: le_bytes.simps)
next
  case (PText cs)
  then obtain bs where bs: "utf8_encode cs = Some bs" "bs \<noteq> []" "length bs < 255"
    using assms(2) by (auto split: option.splits)
  with PText assms(1) py_unpack_str_at[of h u bs rest] utf8_decode_encode[OF bs(1)] show ?thesis
    by auto
qed

lemma unpack_items_at:
  "list_all py_item_ok xs \<Longrightarrow> unpacks_from h u (items_bytes (map item_of xs) @ rest) \<Longrightarrow>
     \<exists>u'. py_unpack_items (map (kind_of \<circ> item_of) xs) h u = Inr (xs, u') \<and> unpacks_from h u' rest"
proof (induction xs arbitrary: u)
  case (Cons x xs)
  obtain u1 where u1: "py_unpack_item (kind_of (item_of x)) h u = Inr (x, u1)"
    "unpacks_from h u1 (items_bytes (map item_of xs) @ rest)"
    using unpack_item_at[of h u x "items_bytes (map item_of xs) @ rest"] Cons.prems by auto
  with Cons.IH[OF _ u1(2)] Cons.prems(1) show ?case by auto
qed simp

text \<open>Null-free text in Python is null-free text in C++.\<close>

lemma item_ok_item_of: "py_item_ok x \<Longrightarrow> item_ok (item_of x)"
  by (cases x) (auto split: option.splits)

text \<open>An empty text is different: it is unpacked as a text of one null character.\<close>

lemma empty_text_unpacks_as_null:
  "\<exists>h'. py_pack_str (Text []) pk h = Inr h' \<and>
     (pr_data pk < length (hp_arrays h) \<longrightarrow> array_at h' (pr_data pk) = array_at h (pr_data pk) @ string_bytes [])"
  "\<exists>u. py_unpack_str h (py_new_unpacker (Bytes (string_bytes [] @ rest))) = Inr ([0], u)"
proof -
  show "\<exists>h'. py_pack_str (Text []) pk h = Inr h' \<and>
     (pr_data pk < length (hp_arrays h) \<longrightarrow> array_at h' (pr_data pk) = array_at h (pr_data pk) @ string_bytes [])"
    by (auto simp: py_pack_str_def pack_u8_packed pack_data_packed string_bytes_def)
  have "unpacks_from h (py_new_unpacker (Bytes (string_bytes [] @ rest))) (string_bytes [] @ rest)"
    by (simp add: unpacks_from_def py_new_unpacker_def)
  from py_unpack_str_at(1)[OF this]
  show "\<exists>u. py_unpack_str h (py_new_unpacker (Bytes (string_bytes [] @ rest))) = Inr ([0], u)"
    by (simp add: utf8_next_def)
qed

text \<open>C31: The two packers and unpackers understand each other: integers in range and non-empty
  null-free texts of at most 254 bytes of UTF-8, packed in Python and in C++ (into an empty
  packet with room for them), give the same bytes; from these bytes Python unpacks the values
  that were packed and has no more data, and C++ unpacks the same integers and the encoded
  texts.\<close>

theorem packing_interoperates:
  assumes "list_all py_item_ok xs" "pr_data pk < length (hp_arrays h)"
    and "packet_wf p" "getDataLength p = 0" "length (items_bytes (map item_of xs)) \<le> getMaxDataLength p"
  shows "\<exists>h' p' u u'. py_pack_items xs pk h = Inr h' \<and> pack_items (map item_of xs) p = Inr (True, p') \<and>
    array_at h' (pr_data pk) = array_at h (pr_data pk) @ contents p' \<and>
    py_unpack_items (map (kind_of \<circ> item_of) xs) h' (py_new_unpacker (Bytes (contents p'))) = Inr (xs, u) \<and>
    \<not> more_data h' u \<and>
    unpack_items (map (kind_of \<circ> item_of) xs) (new_unpacker p') = Inr (Some (map item_of xs), u')"
proof -
  let ?bytes = "items_bytes (map item_of xs)"
  obtain h' where h': "py_pack_items xs pk h = Inr h'" "array_at h' (pr_data pk) = array_at h (pr_data pk) @ ?bytes"
    using pack_items_packed[OF assms(1,2)] by blast
  have "list_all item_ok (map item_of xs)"
    using assms(1) by (auto simp: list_all_iff item_ok_item_of)
  from packed_items_unpack[OF assms(3,4) this assms(5)]
  obtain p' u' where p': "pack_items (map item_of xs) p = Inr (True, p')" "contents p' = ?bytes"
    "unpack_items (map (kind_of \<circ> item_of) xs) (new_unpacker p') = Inr (Some (map item_of xs), u')"
    by auto
  have "unpacks_from h' (py_new_unpacker (Bytes ?bytes)) (?bytes @ [])"
    by (simp add: unpacks_from_def py_new_unpacker_def)
  from unpack_items_at[OF assms(1) this]
  obtain u where u: "py_unpack_items (map (kind_of \<circ> item_of) xs) h' (py_new_unpacker (Bytes ?bytes)) = Inr (xs, u)"
    "unpacks_from h' u []"
    by blast
  then have "\<not> more_data h' u"
    by (auto simp: unpacks_from_def more_data_def)
  with h' p' u(1) show ?thesis by metis
qed

theorem packing_interoperates_witness:
  "\<exists>h' p' u u'. py_pack_items [P8 7, PText [0xE9, 0x41], P32 0xDEADBEEF, P16 0x0201] \<lparr>pr_data = 0\<rparr>
        \<lparr>hp_arrays = [[]], hp_packets = []\<rparr> = Inr h' \<and>
    pack_items (map item_of [P8 7, PText [0xE9, 0x41], P32 0xDEADBEEF, P16 0x0201]) (blank_packet 16) = Inr (True, p') \<and>
    array_at h' (pr_data \<lparr>pr_data = 0\<rparr>)
      = array_at \<lparr>hp_arrays = [[]], hp_packets = []\<rparr> (pr_data \<lparr>pr_data = 0\<rparr>) @ contents p' \<and>
    py_unpack_items (map (kind_of \<circ> item_of) [P8 7, PText [0xE9, 0x41], P32 0xDEADBEEF, P16 0x0201]) h'
      (py_new_unpacker (Bytes (contents p'))) = Inr ([P8 7, PText [0xE9, 0x41], P32 0xDEADBEEF, P16 0x0201], u) \<and>
    \<not> more_data h' u \<and>
    unpack_items (map (kind_of \<circ> item_of) [P8 7, PText [0xE9, 0x41], P32 0xDEADBEEF, P16 0x0201]) (new_unpacker p')
      = Inr (Some (map item_of [P8 7, PText [0xE9, 0x41], P32 0xDEADBEEF, P16 0x0201]), u')"
  by (rule packing_interoperates)
    (simp_all add: utf8_char_def blank_packet_wf size_range_def getDataLength_def getMaxDataLength_def
      del: le_bytes.simps)

section \<open>Log messages\<close>

text \<open>The level a message is logged at: one the port does not know is \<open>ERROR\<close>.\<close>

lemma logging_level:
  "(if int (length PYTHON_LOG_LEVEL) \<le> uint (level :: u8) then Inr 40 else py_index PYTHON_LOG_LEVEL (uint level))
    = Inr (if level < 6 then PYTHON_LOG_LEVEL ! unat level else 40)"
proof -
  have len: "length PYTHON_LOG_LEVEL = 6" by (simp add: PYTHON_LOG_LEVEL_def)
  have "level < 6 \<longleftrightarrow> unat level < 6" "int (length PYTHON_LOG_LEVEL) \<le> uint level \<longleftrightarrow> \<not> level < 6"
    using uint_nat[of level] unfolding len word_less_nat_alt unat_numeral by (simp_all del: of_nat_unat, linarith?)
  with py_index_nat[of "unat level" PYTHON_LOG_LEVEL] show ?thesis by (simp add: len)
qed

lemma process_packet_log:
  assumes "get_command r (ib_heap b) = uint LOG" "pkt_data (ib_heap b) r = level # string_bytes kept"
    and "length kept < 255"
  shows "process_packet r b =
    (case utf8_decode (if kept = [] then [0] else kept) of
       None \<Rightarrow> Inl UnicodeDecodeError
     | Some cs \<Rightarrow> Inr (py_out [Py_log (if level < 6 then PYTHON_LOG_LEVEL ! unat level else 40) cs]
         (b\<lparr>ib_heap := snd (get_data r (ib_heap b))\<rparr>)))"
proof -
  define h where "h = snd (get_data r (ib_heap b))"
  define a where "a = fst (get_data r (ib_heap b))"
  have a: "array_at h a = level # string_bytes kept"
    using assms(2) by (simp add: h_def a_def get_data_def)
  then have at: "unpacks_from h (py_new_unpacker (ByteArray a)) (level # string_bytes kept)"
    by (simp add: unpacks_from_def py_new_unpacker_def)
  obtain u1 where u1: "unpack_u8 h (py_new_unpacker (ByteArray a)) = Inr (uint level, u1)"
    "unpacks_from h u1 (string_bytes kept @ [])"
    using unpack_u8_at[OF at] by auto
  have cmd: "get_command r (ib_heap b) = PY_LOG"
    using assms(1) by (simp add: PY_LOG_def LOG_def)
  define decoded where "decoded = utf8_decode (if kept = [] then [0] else kept)"
  note str = py_unpack_str_at(1)[OF u1(2) assms(3), folded decoded_def]
  show ?thesis
    unfolding process_packet_def split_beta Let_def h_def[symmetric] a_def[symmetric] decoded_def[symmetric] cmd
    by (cases decoded) (simp_all only: if_True refl u1(1) str logging_level bind_res_Inl bind_res_Inr option.case prod.sel py_received_fields)
qed

text \<open>The thread at the frame of a log message of which \<open>kept\<close> has been sent.\<close>

lemma thread_log_frame:
  assumes "same_crc crc crc_fn" "py_decoder_ok (ib_decoder b) (ib_heap b)" "pd_state (ib_decoder b) = PD_IDLE"
    and "py_reads vt (ib_device b) (frame_bytes crc LOG (level # string_bytes kept)) s'" "length kept < 253"
  obtains b' where "ib_queue b' = ib_queue b" "ib_device b' = s'" "\<exists>out. ib_out b' = ib_out b @ out"
    "incoming_data_thread crc_fn vt (input_polls (length (frame_bytes crc LOG (level # string_bytes kept))) b @ polls) b =
     (case utf8_decode (if kept = [] then [0] else kept) of
        None \<Rightarrow> (Raised UnicodeDecodeError, b')
      | Some cs \<Rightarrow> incoming_data_thread crc_fn vt polls
          (py_out [Py_log (if level < 6 then PYTHON_LOG_LEVEL ! unat level else 40) cs] b'))"
proof -
  let ?f = "frame_bytes crc LOG (level # string_bytes kept)" and ?r = "pd_packet (ib_decoder b)"
  define decoded where "decoded = utf8_decode (if kept = [] then [0] else kept)"
  have idle: "py_receiver_of (ib_decoder b) (ib_heap b) = R_Idle \<or> py_receiver_of (ib_decoder b) (ib_heap b) = R_Command False"
    using assms(3) by (simp add: py_receiver_of_def)
  have "length (level # string_bytes kept) < MAX_DATA_LEN"
    using assms(5) by (simp add: MAX_DATA_LEN_def)
  from py_decode_frame[OF assms(2,1) this idle, of LOG]
  obtain d h out where dec: "py_decode_stream crc_fn ?f (ib_decoder b) (ib_heap b)
       = Inr (replicate (length ?f - 1) ErrorCode_NOT_DONE @ [ErrorCode_NONE], d, h, out)"
    "pd_packet d = ?r" "get_command ?r h = uint LOG" "pkt_data h ?r = level # string_bytes kept"
    by metis
  let ?b1 = "py_received s' d h out b"
  let ?b2 = "?b1\<lparr>ib_heap := snd (get_data ?r (ib_heap ?b1))\<rparr>"
  have run: "incoming_data_thread crc_fn vt (input_polls (length (butlast ?f) + 1) b @ polls) b =
      (case process_packet (pd_packet d) ?b1 of
         Inl ex \<Rightarrow> (Raised ex, ?b1) | Inr b' \<Rightarrow> incoming_data_thread crc_fn vt polls b')"
    by (rule thread_frame[where x = "last ?f" and err = ErrorCode_NONE])
      (use assms(4) dec(1) frame_nonempty(1)[of crc LOG "level # string_bytes kept"] in \<open>simp_all add: py_codes\<close>)
  have len: "length (butlast ?f) + 1 = length ?f"
    using frame_nonempty(1)[of crc LOG "level # string_bytes kept"] by simp
  have log: "process_packet (pd_packet d) ?b1 =
     (case decoded of None \<Rightarrow> Inl UnicodeDecodeError
      | Some cs \<Rightarrow> Inr (py_out [Py_log (if level < 6 then PYTHON_LOG_LEVEL ! unat level else 40) cs] ?b2))"
    using process_packet_log[of ?r ?b1 level kept] dec(3,4) assms(5) unfolding dec(2) decoded_def[symmetric]
    by (simp only: py_received_fields)
  show thesis
  proof (cases decoded)
    case None
    with run log that[of ?b1] len show thesis
      unfolding decoded_def[symmetric] by (simp del: incoming_data_thread.simps)
  next
    case (Some cs)
    with run log that[of ?b2] len show thesis
      unfolding decoded_def[symmetric] by (simp del: incoming_data_thread.simps)
  qed
qed

text \<open>What a \<open>BusLog\<close> on the test bus has sent.\<close>

lemma do_log_sent:
  assumes "deref (packets cb) (m_logPacket cb) = Inr p" "packet_wf p" "3 \<le> m_maxDataLen p"
    and "m_encodedData (device cb) = []" "do_log crc test_vt hs level chars cb = Some (Inr cb')"
  shows "m_encodedData (device cb') = frame_bytes crc LOG (level # string_bytes (take (m_maxDataLen p - 3) chars))"
proof -
  obtain q b' where "do_log crc test_vt hs level chars cb = Some (Inr b')"
    "device b' = vt_flush test_vt (fold (vt_writeByte test_vt)
      (frame_bytes crc LOG (log_data (m_maxDataLen p) level chars)) (device cb))"
    by (rule do_log_writes[OF assms(1-3)])
  with assms(4,5) show ?thesis
    by (simp add: default_flush_def tb.writes_all_sent[simplified] log_data_def string_bytes_def Let_def)
qed

text \<open>A C++ log message reaches the Python logger: when the bytes that \<open>BusLog::do_log\<close> sent
  arrive at a Python bus, its thread logs the characters that fitted into the log packet, read
  as UTF-8, at the level of the message (a level the port does not know counts as an error),
  and goes on; the queue of packets is not touched.\<close>

theorem cpp_log_reaches_python:
  assumes "deref (packets cb) (m_logPacket cb) = Inr p" "packet_wf p" "3 \<le> m_maxDataLen p"
    and "m_encodedData (device cb) = []" "do_log crc test_vt hs level chars cb = Some (Inr cb')"
    and "same_crc crc crc_fn" "py_decoder_ok (ib_decoder b) (ib_heap b)" "pd_state (ib_decoder b) = PD_IDLE"
    and "py_reads vt (ib_device b) (m_encodedData (device cb')) s'"
    and "take (m_maxDataLen p - 3) chars = kept" "kept \<noteq> []" "length kept < 253" "utf8_decode kept = Some text"
  shows "\<exists>b' out. incoming_data_thread crc_fn vt (input_polls (length (m_encodedData (device cb'))) b @ polls) b
      = incoming_data_thread crc_fn vt polls b' \<and>
    ib_out b' = ib_out b @ out @ [Py_log (if level < 6 then PYTHON_LOG_LEVEL ! unat level else 40) text] \<and>
    ib_queue b' = ib_queue b \<and> ib_device b' = s'"
proof -
  note sent = do_log_sent[OF assms(1-5), unfolded assms(10)]
  obtain b1 where b1: "ib_queue b1 = ib_queue b" "ib_device b1 = s'" "\<exists>out. ib_out b1 = ib_out b @ out"
    "incoming_data_thread crc_fn vt (input_polls (length (frame_bytes crc LOG (level # string_bytes kept))) b @ polls) b =
     (case utf8_decode (if kept = [] then [0] else kept) of
        None \<Rightarrow> (Raised UnicodeDecodeError, b1)
      | Some cs \<Rightarrow> incoming_data_thread crc_fn vt polls
          (py_out [Py_log (if level < 6 then PYTHON_LOG_LEVEL ! unat level else 40) cs] b1))"
    by (rule thread_log_frame[OF assms(6-8) assms(9)[unfolded sent] assms(12)])
  let ?b' = "py_out [Py_log (if level < 6 then PYTHON_LOG_LEVEL ! unat level else 40) text] b1"
  have "incoming_data_thread crc_fn vt (input_polls (length (m_encodedData (device cb'))) b @ polls) b
      = incoming_data_thread crc_fn vt polls ?b'"
    unfolding sent b1(4) using assms(11,13) by (simp del: incoming_data_thread.simps utf8_decode.simps)
  moreover obtain out where "ib_out b1 = ib_out b @ out"
    using b1(3) by blast
  then have "ib_out ?b' = ib_out b @ out @ [Py_log (if level < 6 then PYTHON_LOG_LEVEL ! unat level else 40) text]"
    by (simp add: py_out_def)
  moreover have "ib_queue ?b' = ib_queue b" "ib_device ?b' = s'"
    using b1(1,2) by (simp_all add: py_out_def)
  ultimately show ?thesis by blast
qed

text \<open>A log message cut inside a character ends the receiving thread: the C++ side cuts the
  message to the capacity of its log packet without regard to UTF-8; when what is left is not
  valid, the thread of the Python bus dies of a \<open>UnicodeDecodeError\<close>, and from then on every
  caller that waits for a response runs into the timeout.\<close>

theorem cut_log_ends_thread:
  assumes "deref (packets cb) (m_logPacket cb) = Inr p" "packet_wf p" "3 \<le> m_maxDataLen p"
    and "m_encodedData (device cb) = []" "do_log crc test_vt hs level chars cb = Some (Inr cb')"
    and "same_crc crc crc_fn" "py_decoder_ok (ib_decoder b) (ib_heap b)" "pd_state (ib_decoder b) = PD_IDLE"
    and "py_reads vt (ib_device b) (m_encodedData (device cb')) s'" "ib_queue b = []"
    and "take (m_maxDataLen p - 3) chars = kept" "length kept < 253" "utf8_decode kept = None"
  shows "\<exists>t b'. incoming_data_thread crc_fn vt (input_polls (length (m_encodedData (device cb'))) b @ polls) b = (t, b') \<and>
    t = Raised UnicodeDecodeError \<and> (\<forall>more_polls. queue_get crc_fn vt more_polls t b' = (None, t, b'))"
proof -
  note sent = do_log_sent[OF assms(1-5), unfolded assms(11)]
  obtain b1 where b1: "ib_queue b1 = ib_queue b"
    "incoming_data_thread crc_fn vt (input_polls (length (frame_bytes crc LOG (level # string_bytes kept))) b @ polls) b =
     (case utf8_decode (if kept = [] then [0] else kept) of
        None \<Rightarrow> (Raised UnicodeDecodeError, b1)
      | Some cs \<Rightarrow> incoming_data_thread crc_fn vt polls
          (py_out [Py_log (if level < 6 then PYTHON_LOG_LEVEL ! unat level else 40) cs] b1))"
    by (rule thread_log_frame[OF assms(6-8) assms(9)[unfolded sent] assms(12)])
  have "kept \<noteq> []"
    using assms(13) by auto
  then have "incoming_data_thread crc_fn vt (input_polls (length (m_encodedData (device cb'))) b @ polls) b
      = (Raised UnicodeDecodeError, b1)"
    unfolding sent b1(2) using assms(13) by (simp del: incoming_data_thread.simps utf8_decode.simps)
  then show ?thesis
    using b1(1) assms(10) by (simp del: incoming_data_thread.simps)
qed

section \<open>Examples of log messages\<close>

lemma log_bus_sends:
  assumes "3 \<le> n" "n < 100"
  obtains cb' where "do_log crc8_poly07 test_vt [] level chars (log_bus_with n) = Some (Inr cb')"
    "packet_wf (blank_packet n)"
    "py_reads tst_vt (ib_device (tst_bus (m_encodedData (device cb')))) (m_encodedData (device cb'))
       \<lparr>cmd_idx = length (m_encodedData (device cb')), cmd_data = m_encodedData (device cb'), rsp_data = []\<rparr>"
proof -
  have wf: "packet_wf (blank_packet n)"
    using assms(2) by (simp add: blank_packet_wf size_range_def)
  obtain cb' where "do_log crc8_poly07 test_vt [] level chars (log_bus_with n) = Some (Inr cb')"
    using do_log_writes[of "log_bus_with n" "blank_packet n", where crc = crc8_poly07 and vt = test_vt and hs = "[]" and level = level and chars = chars] wf assms(1) by auto
  from that[OF this wf] show thesis
    by (simp add: tst_bus_fields tst_reads_all)
qed

theorem cpp_log_reaches_python_witness:
  "\<exists>cb' b' out. do_log crc8_poly07 test_vt [] 4 hello (log_bus_with 6) = Some (Inr cb') \<and>
    incoming_data_thread py_crc8 tst_vt
      (input_polls (length (m_encodedData (device cb'))) (tst_bus (m_encodedData (device cb'))) @ [])
      (tst_bus (m_encodedData (device cb'))) = incoming_data_thread py_crc8 tst_vt [] b' \<and>
    ib_out b' = ib_out (tst_bus (m_encodedData (device cb'))) @ out @ [Py_log 20 [0x68, 0x65, 0x6c]]"
proof -
  obtain cb' where cb': "do_log crc8_poly07 test_vt [] 4 hello (log_bus_with 6) = Some (Inr cb')"
    "packet_wf (blank_packet 6)"
    "py_reads tst_vt (ib_device (tst_bus (m_encodedData (device cb')))) (m_encodedData (device cb'))
       \<lparr>cmd_idx = length (m_encodedData (device cb')), cmd_data = m_encodedData (device cb'), rsp_data = []\<rparr>"
    by (rule log_bus_sends[of 6 4 hello]) simp_all
  have kept: "take (m_maxDataLen (blank_packet 6) - 3) hello = [0x68, 0x65, 0x6c]"
    by (simp add: hello_def numeral_eq_Suc)
  have decoded: "utf8_decode [0x68, 0x65, 0x6c] = Some [0x68, 0x65, 0x6c]"
    by (simp add: utf8_next_def)
  have level: "(if (4 :: u8) < 6 then PYTHON_LOG_LEVEL ! unat (4 :: u8) else 40) = 20"
    by (simp add: PYTHON_LOG_LEVEL_def)
  show ?thesis
    using cpp_log_reaches_python[OF _ cb'(2) _ _ cb'(1) same_crc_poly07 tst_bus_idle(1,2) cb'(3) kept _ _ decoded, of "[]"]
      cb'(1) unfolding level by (fastforce simp del: incoming_data_thread.simps)
qed

text \<open>A message of one two-byte character and room for one byte.\<close>

theorem cut_log_ends_thread_witness:
  "utf8_decode [0xC3, 0xA9] = Some [0xE9] \<and>
   (\<exists>cb' t b'. do_log crc8_poly07 test_vt [] 4 [0xC3, 0xA9] (log_bus_with 4) = Some (Inr cb') \<and>
     incoming_data_thread py_crc8 tst_vt
       (input_polls (length (m_encodedData (device cb'))) (tst_bus (m_encodedData (device cb'))) @ [])
       (tst_bus (m_encodedData (device cb'))) = (t, b') \<and>
     t = Raised UnicodeDecodeError \<and> queue_get py_crc8 tst_vt [] t b' = (None, t, b'))"
proof -
  obtain cb' where cb': "do_log crc8_poly07 test_vt [] 4 [0xC3, 0xA9] (log_bus_with 4) = Some (Inr cb')"
    "packet_wf (blank_packet 4)"
    "py_reads tst_vt (ib_device (tst_bus (m_encodedData (device cb')))) (m_encodedData (device cb'))
       \<lparr>cmd_idx = length (m_encodedData (device cb')), cmd_data = m_encodedData (device cb'), rsp_data = []\<rparr>"
    by (rule log_bus_sends[of 4 4 "[0xC3, 0xA9]"]) simp_all
  have kept: "take (m_maxDataLen (blank_packet 4) - 3) [0xC3, 0xA9 :: u8] = [0xC3]"
    by simp
  have decoded: "utf8_decode [0xC3] = None" "utf8_decode [0xC3, 0xA9] = Some [0xE9]"
    by (simp_all add: utf8_next_def)
  obtain t b' where "incoming_data_thread py_crc8 tst_vt
       (input_polls (length (m_encodedData (device cb'))) (tst_bus (m_encodedData (device cb'))) @ [])
       (tst_bus (m_encodedData (device cb'))) = (t, b')"
    "t = Raised UnicodeDecodeError" "\<forall>polls. queue_get py_crc8 tst_vt polls t b' = (None, t, b')"
    using cut_log_ends_thread[OF _ cb'(2) _ _ cb'(1) same_crc_poly07 tst_bus_idle(1,2) cb'(3) tst_bus_fields(6) kept _
        decoded(1), of "[]"] by (auto simp del: incoming_data_thread.simps queue_get.simps)
  with cb'(1) decoded(2) show ?thesis by blast
qed

end
