(* ===== verification/Py_Buses.thy ===== *)
theory Py_Buses
  imports Py_Link Driver
begin

text \<open>
  The two Python buses, \<open>SerialBus\<close> (\<^verbatim>\<open>duino_bus/serial_bus.py\<close>) and \<open>SocketBus\<close>
  (\<^verbatim>\<open>duino_bus/socket_bus.py\<close>), on the calls of \<^verbatim>\<open>pyserial\<close>, \<^verbatim>\<open>socket\<close> and \<^verbatim>\<open>select\<close> that they
  make: opening, closing, and the methods the base class calls, with the life of the
  receiving thread that hangs on them.
\<close>

section \<open>SerialBus\<close>

text \<open>
  A call of the \<^verbatim>\<open>serial.Serial\<close> object, or of \<^verbatim>\<open>poll\<close> on it, returns an integer (the number
  of events, the descriptor) and bytes, or raises. \<open>Ser_open\<close> is its constructor with a port,
  a baud rate and a read timeout in milliseconds; the other arguments are constants.
\<close>

datatype ser_call =
    Ser_open string int int | Ser_fileno | Ser_reset_input | Ser_reset_output | Ser_close
  | Ser_poll int | Ser_read | Ser_write "u8 list"

type_synonym pyserial = "(ser_call, py_exn + int \<times> u8 list) driver"

text \<open>\<open>sb_serial\<close> tells whether \<open>self.serial\<close> is an object (it is \<^verbatim>\<open>None\<close> otherwise).\<close>

record serial_bus =
  sb_serial :: bool
  sb_calls :: "ser_call list"

definition ser_do :: "pyserial \<Rightarrow> ser_call \<Rightarrow> serial_bus \<Rightarrow> ((int \<times> u8 list) \<times> serial_bus) py" where
  "ser_do w c s =
     (let (r, cs) = call w c (sb_calls s) in bind_res r (\<lambda>r. Inr (r, s\<lparr>sb_calls := cs\<rparr>)))"

text \<open>The constructor makes a \<^verbatim>\<open>serial.Serial()\<close> without a port.\<close>

definition new_serial_bus :: serial_bus where
  "new_serial_bus = \<lparr>sb_serial = True, sb_calls = []\<rparr>"

definition ser_is_open :: "serial_bus \<Rightarrow> bool" where
  "ser_is_open s = sb_serial s"

definition ser_poll :: "pyserial \<Rightarrow> int \<Rightarrow> serial_bus \<Rightarrow> (bool \<times> serial_bus) py" where
  "ser_poll w flags s =
     (if \<not> sb_serial s then Inr (False, s)
      else bind_res (ser_do w (Ser_poll flags) s) (\<lambda>((events, _), s). Inr (events > 0, s)))"

definition POLLOUT :: int where "POLLOUT = 4"

definition ser_is_data_available :: "pyserial \<Rightarrow> serial_bus \<Rightarrow> (bool \<times> serial_bus) py" where
  "ser_is_data_available w s = ser_poll w POLLIN s"

definition ser_is_space_available :: "pyserial \<Rightarrow> serial_bus \<Rightarrow> (bool \<times> serial_bus) py" where
  "ser_is_space_available w s = ser_poll w POLLOUT s"

definition ser_read_byte :: "pyserial \<Rightarrow> serial_bus \<Rightarrow> (int option \<times> serial_bus) py" where
  "ser_read_byte w s =
     (if \<not> sb_serial s then Inr (None, s)
      else bind_res (ser_do w Ser_read s) (\<lambda>((_, data), s).
        case data of [] \<Rightarrow> Inr (None, s) | b # _ \<Rightarrow> Inr (Some (uint b), s)))"

text \<open>A timeout of the write is caught; the call has been made all the same.\<close>

definition ser_write_byte :: "pyserial \<Rightarrow> int \<Rightarrow> serial_bus \<Rightarrow> (bool \<times> serial_bus) py" where
  "ser_write_byte w byte s =
     (if \<not> sb_serial s then Inr (False, s)
      else
        bind_res (to_bytes_1 byte) (\<lambda>bs.
          let (r, cs) = call w (Ser_write bs) (sb_calls s); s = s\<lparr>sb_calls := cs\<rparr> in
          case r of
            Inl SerialTimeoutException \<Rightarrow> Inr (False, s)
          | Inl ex \<Rightarrow> Inl ex
          | Inr _ \<Rightarrow> Inr (True, s)))"

definition ser_vt :: "pyserial \<Rightarrow> serial_bus py_bus_vt" where
  "ser_vt w =
     \<lparr>pv_is_open = ser_is_open, pv_is_data_available = ser_is_data_available w,
      pv_read_byte = ser_read_byte w, pv_write_byte = ser_write_byte w\<rparr>"

text \<open>\<open>open\<close>: the read timeout is at least 50 ms, 100 ms if none is given.\<close>

definition ser_open ::
    "pyserial \<Rightarrow> string \<Rightarrow> int \<Rightarrow> int option \<Rightarrow> serial_bus py_bus \<Rightarrow> (int \<times> thread \<times> serial_bus py_bus) py" where
  "ser_open w port baudrate timeout b =
     (let timeout = max (case timeout of None \<Rightarrow> 100 | Some t \<Rightarrow> t) 50 in
      bind_res (ser_do w (Ser_open port baudrate timeout) (ib_device b)) (\<lambda>(_, s).
      bind_res (ser_do w Ser_fileno (s\<lparr>sb_serial := True\<rparr>)) (\<lambda>((fileno, _), s).
        let (t, b) = bus_opened fileno (b\<lparr>ib_device := s\<rparr>) in Inr (ErrorCode_NONE, t, b))))"

text \<open>
  \<open>bus_closed\<close> of the base class: it waits for the thread, which finds the bus closed (it is
  taken to be between two calls of \<^verbatim>\<open>poll\<close>), and forgets the descriptor.
\<close>

definition bus_closed :: "crc_fn \<Rightarrow> 's py_bus_vt \<Rightarrow> thread \<Rightarrow> 's py_bus \<Rightarrow> thread \<times> 's py_bus" where
  "bus_closed crc_fn vt t b =
     (let b = (if t = Not_Started then b else py_out [Py_debug ''Waiting for incoming data thread to quit''] b);
          (t, b) = (if t = Running then incoming_data_thread crc_fn vt [] b else (t, b))
      in (t, b\<lparr>ib_fileno := - 1\<rparr>))"

definition ser_close ::
    "crc_fn \<Rightarrow> pyserial \<Rightarrow> thread \<Rightarrow> serial_bus py_bus \<Rightarrow> (thread \<times> serial_bus py_bus) py" where
  "ser_close crc_fn w t b =
     (if \<not> sb_serial (ib_device b) then Inr (t, b)
      else
        bind_res (ser_do w Ser_reset_input (ib_device b)) (\<lambda>(_, s).
        bind_res (ser_do w Ser_reset_output s) (\<lambda>(_, s).
        bind_res (ser_do w Ser_close s) (\<lambda>(_, s).
          Inr (bus_closed crc_fn (ser_vt w) t (b\<lparr>ib_device := s\<lparr>sb_serial := False\<rparr>\<rparr>))))))"

section \<open>SocketBus\<close>

text \<open>
  Sockets are numbered; a call returns an integer (a new socket, the number of events or of
  bytes sent) and bytes, or raises. An entry of \<^verbatim>\<open>getaddrinfo\<close> has a family, a type and an
  address of a host and a port.
\<close>

record addr_info =
  ai_family :: int
  ai_type :: int
  ai_host :: string
  ai_port :: int

datatype sock_call =
    Sk_socket int int | Sk_settimeout int int | Sk_connect int string int | Sk_setblocking int bool
  | Sk_close int | Sk_poll int int | Sk_recv int | Sk_send int "u8 list" | Sk_setsockopt int int int int

type_synonym pysocket = "(sock_call, py_exn + int \<times> u8 list) driver"

record socket_bus =
  kb_socket :: int
  kb_calls :: "sock_call list"

definition sock_do :: "pysocket \<Rightarrow> sock_call \<Rightarrow> sock_call list \<Rightarrow> ((int \<times> u8 list) \<times> sock_call list) py" where
  "sock_do w c cs = (let (r, cs) = call w c cs in bind_res r (\<lambda>r. Inr (r, cs)))"

text \<open>
  The constructor: that of the base class, and a socket (\<open>AF_INET\<close> and \<open>SOCK_STREAM\<close> are the
  defaults of \<^verbatim>\<open>socket.socket\<close>). \<open>h\<close> is the heap in which the bus makes its packet.
\<close>

definition new_socket_bus :: "pysocket \<Rightarrow> py_heap \<Rightarrow> (thread \<times> socket_bus py_bus) py" where
  "new_socket_bus w h =
     bind_res (sock_do w (Sk_socket 2 1) []) (\<lambda>((skt, _), cs).
       Inr (py_new_thread, py_new_bus h \<lparr>kb_socket = skt, kb_calls = cs\<rparr>))"

text \<open>\<open>self.socket\<close> is never set to \<^verbatim>\<open>None\<close>: \<open>close\<close> closes it but keeps it.\<close>

definition sock_is_open :: "socket_bus \<Rightarrow> bool" where
  "sock_is_open s = True"

definition sock_close :: "pysocket \<Rightarrow> socket_bus \<Rightarrow> socket_bus py" where
  "sock_close w s =
     bind_res (sock_do w (Sk_close (kb_socket s)) (kb_calls s)) (\<lambda>(_, cs). Inr (s\<lparr>kb_calls := cs\<rparr>))"

definition sock_poll :: "pysocket \<Rightarrow> int \<Rightarrow> socket_bus \<Rightarrow> (bool \<times> socket_bus) py" where
  "sock_poll w flags s =
     bind_res (sock_do w (Sk_poll (kb_socket s) flags) (kb_calls s)) (\<lambda>((events, _), cs).
       Inr (events > 0, s\<lparr>kb_calls := cs\<rparr>))"

definition sock_is_data_available :: "pysocket \<Rightarrow> socket_bus \<Rightarrow> (bool \<times> socket_bus) py" where
  "sock_is_data_available w s = sock_poll w POLLIN s"

definition sock_is_space_available :: "pysocket \<Rightarrow> socket_bus \<Rightarrow> (bool \<times> socket_bus) py" where
  "sock_is_space_available w s = sock_poll w POLLOUT s"

definition sock_read_byte :: "pysocket \<Rightarrow> socket_bus \<Rightarrow> (int option \<times> socket_bus) py" where
  "sock_read_byte w s =
     bind_res (sock_do w (Sk_recv (kb_socket s)) (kb_calls s)) (\<lambda>((_, data), cs).
       case data of [] \<Rightarrow> Inr (None, s\<lparr>kb_calls := cs\<rparr>) | b # _ \<Rightarrow> Inr (Some (uint b), s\<lparr>kb_calls := cs\<rparr>))"

definition sock_write_byte :: "pysocket \<Rightarrow> int \<Rightarrow> socket_bus \<Rightarrow> (bool \<times> socket_bus) py" where
  "sock_write_byte w byte s =
     bind_res (to_bytes_1 byte) (\<lambda>bs.
     bind_res (sock_do w (Sk_send (kb_socket s) bs) (kb_calls s)) (\<lambda>(_, cs).
       Inr (True, s\<lparr>kb_calls := cs\<rparr>)))"

definition sock_vt :: "pysocket \<Rightarrow> socket_bus py_bus_vt" where
  "sock_vt w =
     \<lparr>pv_is_open = sock_is_open, pv_is_data_available = sock_is_data_available w,
      pv_read_byte = sock_read_byte w, pv_write_byte = sock_write_byte w\<rparr>"

text \<open>\<open>AF_INET\<close> and \<open>AF_INET6\<close> of Linux.\<close>

definition print_addr_info :: "string \<Rightarrow> addr_info \<Rightarrow> py_event" where
  "print_addr_info label info =
     (let family_str = (if ai_family info = 2 then ''4'' else if ai_family info = 10 then ''6'' else ''?'')
      in Py_info ''%s IPv%s [%s]:%d'' [A_Str label, A_Str family_str, A_Str (ai_host info), A_Int (ai_port info)])"

text \<open>
  The loop of \<open>connect_to_server\<close> over the entries: the connected socket and its entry, if
  there is one. Only a timeout moves on to the next entry. Times are in milliseconds.
\<close>

fun try_connect ::
    "pysocket \<Rightarrow> addr_info list \<Rightarrow> sock_call list \<Rightarrow>
     ((int \<times> addr_info) option \<times> sock_call list \<times> py_event list) py" where
  "try_connect w [] cs = Inr (None, cs, [])"
| "try_connect w (info # infos) cs =
     bind_res (sock_do w (Sk_socket (ai_family info) (ai_type info)) cs) (\<lambda>((skt, _), cs).
     bind_res (sock_do w (Sk_settimeout skt 500) cs) (\<lambda>(_, cs).
       let (r, cs) = call w (Sk_connect skt (ai_host info) (ai_port info)) cs;
           trying = print_addr_info ''Trying'' info in
       case r of
         Inr _ \<Rightarrow> Inr (Some (skt, info), cs, [trying])
       | Inl SocketTimeout \<Rightarrow>
           bind_res (sock_do w (Sk_close skt) cs) (\<lambda>(_, cs).
           bind_res (try_connect w infos cs) (\<lambda>(found, cs, out). Inr (found, cs, trying # out)))
       | Inl ex \<Rightarrow> Inl ex))"

definition make_socket_non_blocking :: "pysocket \<Rightarrow> int \<Rightarrow> sock_call list \<Rightarrow> (int \<times> sock_call list) py" where
  "make_socket_non_blocking w skt cs =
     bind_res (sock_do w (Sk_setblocking skt False) cs) (\<lambda>(_, cs). Inr (ErrorCode_NONE, cs))"

text \<open>
  \<open>addrinfo\<close> is what \<^verbatim>\<open>getaddrinfo\<close> returns, or the exception it raises. As every method that
  may open a bus, it is given the thread of the bus and returns the thread it leaves.
\<close>

definition py_connect_to_server ::
    "pysocket \<Rightarrow> addr_info list py \<Rightarrow> thread \<Rightarrow> socket_bus py_bus \<Rightarrow> (int \<times> thread \<times> socket_bus py_bus) py" where
  "py_connect_to_server w addrinfo t b =
     bind_res addrinfo (\<lambda>infos.
     bind_res (try_connect w infos (kb_calls (ib_device b))) (\<lambda>(found, cs, out).
       let b = py_out out (b\<lparr>ib_device := (ib_device b)\<lparr>kb_calls := cs\<rparr>\<rparr>) in
       case found of
         None \<Rightarrow> Inr (ErrorCode_OS, t, py_out [Py_error ''No IP Address found for connecting'' []] b)
       | Some (skt, info) \<Rightarrow>
           bind_res (make_socket_non_blocking w skt cs) (\<lambda>(err, cs).
             if err \<noteq> ErrorCode_NONE then Inr (err, t, b\<lparr>ib_device := (ib_device b)\<lparr>kb_calls := cs\<rparr>\<rparr>)
             else
               let b = py_out [print_addr_info ''Connected to'' info] b;
                   b = b\<lparr>ib_device := \<lparr>kb_socket = skt, kb_calls = cs\<rparr>\<rparr> in
               Inr (ErrorCode_NONE, t, b))))"

text \<open>\<open>SOL_SOCKET\<close>, \<open>SO_KEEPALIVE\<close>, \<open>IPPROTO_TCP\<close> and the \<open>TCP_\<close> options of Linux.\<close>

definition py_enable_keepalive :: "pysocket \<Rightarrow> socket_bus \<Rightarrow> socket_bus py" where
  "py_enable_keepalive w s =
     fold_res (\<lambda>s (level, name, val).
         bind_res (sock_do w (Sk_setsockopt (kb_socket s) level name val) (kb_calls s)) (\<lambda>(_, cs).
           Inr (s\<lparr>kb_calls := cs\<rparr>)))
       s [(1, 9, 1), (6, 4, 1), (6, 5, 1), (6, 6, 3)]"

section \<open>Devices that take every byte\<close>

text \<open>
  What \<open>write_packet\<close> asks of a bus: while it is up, every byte is taken and \<open>sent\<close> grows by it.
\<close>

locale py_byte_device =
  fixes vt :: "'s py_bus_vt" and sent :: "'s \<Rightarrow> u8 list" and up :: "'s \<Rightarrow> bool"
  assumes write_sent: "up s \<Longrightarrow> \<exists>s'. pv_write_byte vt (uint b) s = Inr (True, s') \<and> sent s' = sent s @ [b] \<and> up s'"
begin

lemma writes_sent: "up s \<Longrightarrow> \<exists>s'. py_writes vt s bs s' \<and> sent s' = sent s @ bs \<and> up s'"
proof (induction bs arbitrary: s)
  case (Cons b bs)
  obtain s1 where s1: "pv_write_byte vt (uint b) s = Inr (True, s1)" "sent s1 = sent s @ [b]" "up s1"
    using write_sent[OF Cons.prems] by blast
  with Cons.IH[OF s1(3)] show ?case by auto
qed simp

lemma write_packet_sent:
  assumes "packet_in r (ib_heap b)" "get_command r (ib_heap b) = uint c" "same_crc crc crc_fn" "up (ib_device b)"
  shows "\<exists>b'. write_packet crc_fn vt r b = Some (Inr (ErrorCode_NONE, b')) \<and>
    sent (ib_device b') = sent (ib_device b) @ frame_bytes crc c (pkt_data (ib_heap b) r) \<and> up (ib_device b')"
proof -
  let ?f = "frame_bytes crc c (pkt_data (ib_heap b) r)"
  obtain s' where s': "py_writes vt (ib_device b) ?f s'" "sent s' = sent (ib_device b) @ ?f" "up s'"
    using writes_sent[OF assms(4)] by blast
  obtain e1 h1 out1 where start: "encode_start crc_fn r (ib_encoder b) (ib_heap b) = Inr (e1, h1, out1)"
    "py_encoder_at h1 c (pkt_data (ib_heap b) r) e1" "pe_state e1 = PE_IDLE"
    by (rule encode_start_ok[OF assms(1,2) refl])
  have "py_writes vt (ib_device b) (py_owed crc_fn c (pkt_data (ib_heap b) r) e1) s'"
    using s'(1) py_owed_frame[OF assms(3) start(3)] by simp
  from py_write_loop_taken[OF start(2) this] start(1) s'(2,3) show ?thesis
    by (auto simp: write_packet_def py_out_def)
qed

end

interpretation tst: py_byte_device tst_vt rsp_data "\<lambda>s. True"
  by unfold_locales (auto simp: tst_vt_def tst_write_byte_def bytearray_append_def)

text \<open>What the drivers have taken: \<open>Serial.write\<close> writes all it is given or raises; \<open>send\<close> tells how much.\<close>

fun ser_bytes :: "ser_call \<Rightarrow> py_exn + int \<times> u8 list \<Rightarrow> u8 list" where
  "ser_bytes (Ser_write bs) (Inr r) = bs"
| "ser_bytes c r = []"

fun sock_bytes :: "int \<Rightarrow> sock_call \<Rightarrow> py_exn + int \<times> u8 list \<Rightarrow> u8 list" where
  "sock_bytes skt (Sk_send skt' bs) (Inr r) = (if skt' = skt then take (nat (fst r)) bs else [])"
| "sock_bytes skt c r = []"

definition ser_takes_all :: "pyserial \<Rightarrow> bool" where
  "ser_takes_all w \<longleftrightarrow> (\<forall>cs bs. \<exists>r. w cs (Ser_write bs) = Inr r)"

definition sock_takes_all :: "pysocket \<Rightarrow> bool" where
  "sock_takes_all w \<longleftrightarrow> (\<forall>cs skt b. \<exists>data. w cs (Sk_send skt [b]) = Inr (1, data))"

interpretation ser: py_byte_device "ser_vt w" "\<lambda>s. taken w ser_bytes (sb_calls s)"
    "\<lambda>s. sb_serial s \<and> ser_takes_all w" for w
proof
  fix s :: serial_bus and b :: u8
  assume up: "sb_serial s \<and> ser_takes_all w"
  then obtain r where "w (sb_calls s) (Ser_write [b]) = Inr r"
    unfolding ser_takes_all_def by blast
  with up show "\<exists>s'. pv_write_byte (ser_vt w) (uint b) s = Inr (True, s') \<and>
      taken w ser_bytes (sb_calls s') = taken w ser_bytes (sb_calls s) @ [b] \<and> sb_serial s' \<and> ser_takes_all w"
    by (simp add: ser_vt_def ser_write_byte_def to_bytes_1_def call_def)
qed

interpretation sock: py_byte_device "sock_vt w" "\<lambda>s. taken w (sock_bytes (kb_socket s)) (kb_calls s)"
    "\<lambda>s. sock_takes_all w" for w
proof
  fix s :: socket_bus and b :: u8
  assume up: "sock_takes_all w"
  then obtain data where "w (kb_calls s) (Sk_send (kb_socket s) [b]) = Inr (1, data)"
    unfolding sock_takes_all_def by blast
  with up show "\<exists>s'. pv_write_byte (sock_vt w) (uint b) s = Inr (True, s') \<and>
      taken w (sock_bytes (kb_socket s')) (kb_calls s') = taken w (sock_bytes (kb_socket s)) (kb_calls s) @ [b] \<and>
      sock_takes_all w"
    by (simp add: sock_vt_def sock_write_byte_def to_bytes_1_def call_def sock_do_def)
qed

section \<open>The life of the thread\<close>

lemma queue_get_no_thread: "t \<noteq> Running \<Longrightarrow> ib_queue b = [] \<Longrightarrow> queue_get crc_fn vt polls t b = (None, t, b)"
  by simp

lemma write_packet_queue: "write_packet crc_fn vt r b = Some (Inr (err, b')) \<Longrightarrow> ib_queue b' = ib_queue b"
  by (auto simp: write_packet_def bind_res_eq_Inr py_out_def split: sum.splits prod.splits)

lemma no_thread_no_response:
  assumes "t \<noteq> Running" "ib_queue b = []"
    and "send_command_get_response crc_fn vt r polls t b = Some (Inr ((err, rsp), t', b'))"
  shows "err \<noteq> ErrorCode_NONE \<and> rsp = None \<and> t' = t \<and> ib_queue b' = []"
proof (cases "pv_is_open vt (ib_device b)")
  case False
  with assms show ?thesis by (auto simp: send_command_get_response_def py_codes)
next
  case True
  with assms(3) obtain err1 b1 where wr: "write_packet crc_fn vt r b = Some (Inr (err1, b1))"
    by (auto simp: send_command_get_response_def bind_res_eq_Inr)
  then have "ib_queue b1 = []"
    using write_packet_queue assms(2) by metis
  with assms(1,3) True wr show ?thesis
    by (auto simp: send_command_get_response_def queue_get_no_thread py_codes py_out_def simp del: queue_get.simps
        split: if_splits)
qed

lemma no_thread_times_out:
  assumes "t \<noteq> Running" "ib_queue b = []" "pv_is_open vt (ib_device b)"
    and "write_packet crc_fn vt r b = Some (Inr (ErrorCode_NONE, b1))"
  shows "\<exists>b'. send_command_get_response crc_fn vt r polls t b = Some (Inr ((ErrorCode_TIMEOUT, None), t, b'))"
proof -
  have "queue_get crc_fn vt polls t b1 = (None, t, b1)"
    using assms(1,2) write_packet_queue[OF assms(4)] by (simp add: queue_get_no_thread)
  with assms(3,4) show ?thesis
    by (simp add: send_command_get_response_def del: queue_get.simps)
qed

text \<open>\<open>connect_to_server\<close> neither starts a thread nor queues anything.\<close>

lemma connect_keeps_thread:
  assumes "py_connect_to_server w addrinfo t b = Inr (err, t', b')"
  shows "t' = t" "ib_queue b' = ib_queue b"
  using assms
  by (auto simp: py_connect_to_server_def bind_res_eq_Inr py_out_def Let_def split: option.splits prod.splits if_splits)

lemma new_socket_bus_idle:
  assumes "new_socket_bus w h = Inr (t, b)"
  shows "t = Not_Started" "ib_queue b = []"
  using assms by (auto simp: new_socket_bus_def bind_res_eq_Inr py_new_thread_def py_new_bus_def split_beta)

text \<open>C32: A \<open>SocketBus\<close> never gets a response: its constructor starts no thread, and
  \<open>connect_to_server\<close> leaves the bus without one, also when it succeeds; so, whatever the server
  sends, \<open>send_command_get_response\<close> can only fail, and never returns \<open>NONE\<close> or a packet.\<close>

theorem python_socket_gets_no_response:
  assumes "new_socket_bus w h = Inr (t0, b0)"
    and "py_connect_to_server w addrinfo t0 b0 = Inr (err, t1, b1)"
    and "send_command_get_response crc_fn (sock_vt w) r polls t1 b1 = Some (Inr ((err', rsp), t2, b2))"
  shows "t1 = Not_Started \<and> t2 = Not_Started \<and> err' \<noteq> ErrorCode_NONE \<and> rsp = None"
proof -
  have t1: "t1 = Not_Started" "ib_queue b1 = []"
    using connect_keeps_thread[OF assms(2)] new_socket_bus_idle[OF assms(1)] by simp_all
  from no_thread_no_response[OF _ t1(2) assms(3)] t1(1) show ?thesis by simp
qed

text \<open>A server that accepts, takes every byte and answers nothing.\<close>

definition quiet_server :: pysocket where
  "quiet_server cs c = Inr (1, [])"

theorem python_socket_gets_no_response_witness:
  "\<exists>t0 b0 t1 b1 t2 b2.
    new_socket_bus quiet_server \<lparr>hp_arrays = [], hp_packets = []\<rparr> = Inr (t0, b0) \<and>
    py_connect_to_server quiet_server (Inr [\<lparr>ai_family = 2, ai_type = 1, ai_host = ''127.0.0.1'', ai_port = 8888\<rparr>])
      t0 b0 = Inr (ErrorCode_NONE, t1, b1) \<and>
    send_command_get_response py_crc8 (sock_vt quiet_server) 0 [] t1 b1 = Some (Inr ((ErrorCode_TIMEOUT, None), t2, b2)) \<and>
    t1 = Not_Started \<and> t2 = Not_Started"
proof -
  let ?infos = "Inr [\<lparr>ai_family = 2, ai_type = 1, ai_host = ''127.0.0.1'', ai_port = 8888\<rparr>] :: addr_info list py"
  let ?b0 = "py_new_bus \<lparr>hp_arrays = [], hp_packets = []\<rparr> \<lparr>kb_socket = 1, kb_calls = [Sk_socket 2 1]\<rparr>"
  have b0: "new_socket_bus quiet_server \<lparr>hp_arrays = [], hp_packets = []\<rparr> = Inr (py_new_thread, ?b0)"
    by (simp add: new_socket_bus_def sock_do_def call_def quiet_server_def)
  obtain t1 b1 where b1: "py_connect_to_server quiet_server ?infos py_new_thread ?b0 = Inr (ErrorCode_NONE, t1, b1)"
    "ib_heap b1 = ib_heap ?b0"
    by (simp add: py_connect_to_server_def make_socket_non_blocking_def sock_do_def call_def quiet_server_def py_out_def)
  have idle: "t1 \<noteq> Running" "ib_queue b1 = []"
    using connect_keeps_thread[OF b1(1)] new_socket_bus_idle[OF b0] by simp_all
  have pkt: "packet_in 0 (ib_heap b1)" "get_command 0 (ib_heap b1) = uint (0 :: u8)"
    unfolding b1(2) using tst_bus_fields(1,2) by (simp_all add: tst_bus_def py_new_bus_def split_beta)
  obtain b where written: "write_packet py_crc8 (sock_vt quiet_server) 0 b1 = Some (Inr (ErrorCode_NONE, b))"
    using sock.write_packet_sent[OF pkt same_crc_poly07, of quiet_server]
    by (auto simp: sock_takes_all_def quiet_server_def)
  obtain b2 where sent: "send_command_get_response py_crc8 (sock_vt quiet_server) 0 [] t1 b1
      = Some (Inr ((ErrorCode_TIMEOUT, None), t1, b2))"
    using no_thread_times_out[OF idle _ written, of "[]"] by (auto simp: sock_vt_def sock_is_open_def)
  from python_socket_gets_no_response[OF b0 b1(1) sent] b0 b1(1) sent show ?thesis by blast
qed

text \<open>The life of a serial bus: \<open>open\<close> starts the receiving thread on an open bus; \<open>close\<close>
  waits until the thread has returned and leaves a closed bus, on which a command fails with
  \<open>NOT_OPEN\<close> without touching the device and a second \<open>close\<close> does nothing.\<close>

theorem serial_bus_lifecycle:
  assumes "ser_open w port baudrate timeout b = Inr (err, t, b1)" "ser_close crc_fn w t b1 = Inr (t2, b2)"
  shows "err = ErrorCode_NONE \<and> t = Running \<and> ser_is_open (ib_device b1) \<and>
    t2 = Returned \<and> \<not> ser_is_open (ib_device b2) \<and> ib_fileno b2 = - 1 \<and>
    send_command_get_response crc_fn (ser_vt w) r polls t2 b2 = Some (Inr ((ErrorCode_NOT_OPEN, None), t2, b2)) \<and>
    ser_close crc_fn w t2 b2 = Inr (t2, b2)"
proof -
  have opened: "err = ErrorCode_NONE" "t = Running" "sb_serial (ib_device b1)"
    using assms(1) by (auto simp: ser_open_def ser_do_def bind_res_eq_Inr bus_opened_def Let_def split: prod.splits)
  have closed: "t2 = Returned" "\<not> sb_serial (ib_device b2)" "ib_fileno b2 = - 1"
    using assms(2) opened(2,3)
    by (auto simp: ser_close_def bind_res_eq_Inr bus_closed_def ser_vt_def ser_is_open_def py_out_def split: prod.splits)
  with opened show ?thesis
    by (simp add: ser_is_open_def send_command_get_response_def ser_vt_def ser_close_def)
qed

text \<open>A port for examples: descriptor 3, everything is taken.\<close>

definition quiet_port :: pyserial where
  "quiet_port cs c = Inr (3, [])"

theorem serial_bus_lifecycle_witness:
  "\<exists>t b1 t2 b2.
    ser_open quiet_port ''/dev/ttyUSB0'' 115200 None (py_new_bus \<lparr>hp_arrays = [], hp_packets = []\<rparr> new_serial_bus)
      = Inr (ErrorCode_NONE, t, b1) \<and> t = Running \<and> ib_fileno b1 = 3 \<and>
    ser_close py_crc8 quiet_port t b1 = Inr (t2, b2) \<and> t2 = Returned \<and>
    send_command_get_response py_crc8 (ser_vt quiet_port) 0 [] t2 b2 = Some (Inr ((ErrorCode_NOT_OPEN, None), t2, b2))"
proof -
  let ?b0 = "py_new_bus \<lparr>hp_arrays = [], hp_packets = []\<rparr> new_serial_bus"
  obtain t b1 where b1: "ser_open quiet_port ''/dev/ttyUSB0'' 115200 None ?b0 = Inr (ErrorCode_NONE, t, b1)"
    "ib_fileno b1 = 3" "sb_serial (ib_device b1)"
    by (simp add: ser_open_def ser_do_def call_def quiet_port_def bus_opened_def)
  obtain t2 b2 where "ser_close py_crc8 quiet_port t b1 = Inr (t2, b2)"
    using b1(3) by (simp add: ser_close_def ser_do_def call_def quiet_port_def del: incoming_data_thread.simps)
      (metis surj_pair)
  with serial_bus_lifecycle[OF b1(1) this, of 0 "[]"] b1 show ?thesis by blast
qed

text \<open>
  Before it is opened, a serial bus already claims to be open: \<open>send_command_get_response\<close> goes
  on to write, and what \<^verbatim>\<open>pyserial\<close> raises for a port that is not open reaches the caller.
\<close>

lemma unopened_serial_bus_raises:
  assumes "ib_device b = new_serial_bus" "packet_in r (ib_heap b)" "get_command r (ib_heap b) = uint (c :: u8)"
    and "w [] (Ser_write [END]) = Inl SerialException"
  shows "ser_is_open (ib_device b)" "send_command_get_response crc_fn (ser_vt w) r polls t b = Some (Inl SerialException)"
proof -
  show op: "ser_is_open (ib_device b)"
    using assms(1) by (simp add: ser_is_open_def new_serial_bus_def)
  obtain e1 h1 out1 where start: "encode_start crc_fn r (ib_encoder b) (ib_heap b) = Inr (e1, h1, out1)"
    "py_encoder_at h1 c (pkt_data (ib_heap b) r) e1" "pe_state e1 = PE_IDLE"
    by (rule encode_start_ok[OF assms(2,3) refl])
  obtain err e' where step: "encode_byte crc_fn h1 e1 = Inr ((err, uint END), e')"
    using start(3) by (auto simp: encode_byte_def encode_byte_idle_def py_frame_consts frame_consts)
  have "pv_write_byte (ser_vt w) (uint END) (ib_device b) = Inl SerialException"
    using assms(1,4) by (simp add: ser_vt_def ser_write_byte_def new_serial_bus_def to_bytes_1_def call_def)
  with step start(1) op
  show "send_command_get_response crc_fn (ser_vt w) r polls t b = Some (Inl SerialException)"
    by (simp add: send_command_get_response_def write_packet_def py_write_loop.simps ser_vt_def)
qed

text \<open>A refused connection is no timeout: the remaining addresses are not tried.\<close>

lemma refused_connection_raises:
  assumes "w (kb_calls (ib_device b)) (Sk_socket (ai_family info) (ai_type info)) = Inr (skt, xs)"
    and "w (Sk_socket (ai_family info) (ai_type info) # kb_calls (ib_device b)) (Sk_settimeout skt 500) = Inr r"
    and "w (Sk_settimeout skt 500 # Sk_socket (ai_family info) (ai_type info) # kb_calls (ib_device b))
      (Sk_connect skt (ai_host info) (ai_port info)) = Inl OSError"
  shows "py_connect_to_server w (Inr (info # infos)) t b = Inl OSError"
  using assms by (cases r) (simp add: py_connect_to_server_def sock_do_def call_def)

end
