(* ===== verification/Slow_Link.thy ===== *)
theory Slow_Link
  imports Serial_Buses
begin

text \<open>
  Devices that deliver their bytes at any pace: \<open>processByte\<close> is called again and again and
  often finds nothing to read. What a number of calls does is the decoder's run over the
  bytes that were there, with \<open>NOT_DONE\<close> for the calls in between.
\<close>

section \<open>Calls with and without a byte\<close>

text \<open>What \<open>n\<close> calls of \<open>readByte\<close> return, and the bytes among it.\<close>

fun read_calls :: "'s bus_vt \<Rightarrow> nat \<Rightarrow> 's \<Rightarrow> u8 option list \<times> 's" where
  "read_calls vt 0 s = ([], s)"
| "read_calls vt (Suc n) s =
     (case vt_readByte vt s of (x, s) \<Rightarrow> apfst ((#) x) (read_calls vt n s))"

fun delivered :: "u8 option list \<Rightarrow> u8 list" where
  "delivered [] = []"
| "delivered (None # got) = delivered got"
| "delivered (Some b # got) = b # delivered got"

text \<open>The codes for the bytes, with \<open>NOT_DONE\<close> where there was none.\<close>

fun spread :: "u8 option list \<Rightarrow> error list \<Rightarrow> error list" where
  "spread [] errs = []"
| "spread (None # got) errs = NOT_DONE # spread got errs"
| "spread (Some b # got) [] = []"
| "spread (Some b # got) (err # errs) = err # spread got errs"

lemma delivered_append [simp]: "delivered (xs @ ys) = delivered xs @ delivered ys"
  by (induction xs rule: delivered.induct) simp_all

lemma read_calls_length: "read_calls vt n s = (got, s') \<Longrightarrow> length got = n"
  by (induction n arbitrary: s got) (auto split: prod.splits simp: apfst_def map_prod_def)

lemma spread_pending:
  "spread (got @ [Some b]) (replicate (length (delivered got)) NOT_DONE @ [err])
     = replicate (length got) NOT_DONE @ [err]"
  by (induction got rule: delivered.induct) simp_all

section \<open>What the calls do\<close>

text \<open>A call that finds nothing only moves the device.\<close>

lemma received_nothing:
  assumes "deref (packets b) (m_cmdPacket b) = Inr p"
  shows "received s (m_decoder b) p [] b = b\<lparr>device := s\<rparr>"
proof -
  have "(packets b)(m_cmdPacket b \<mapsto> p) = packets b"
    using assms by (intro ext) (auto simp: deref_def split: if_splits option.splits)
  then show ?thesis
    by (cases b) (simp add: received_def log_bus_def store_packet_def)
qed

lemma process_calls:
  assumes "deref (packets b) (m_cmdPacket b) = Inr p" "read_calls vt n (device b) = (got, s')"
  shows "process_bytes crc vt hs n b =
    bind_res (decode_stream crc (Some (bus_as_str hs)) (delivered got) (m_decoder b) p)
      (\<lambda>(errs, d, p, log). Inr (spread got errs, received s' d p log b))"
  using assms
proof (induction n arbitrary: b p got)
  case 0
  then show ?case by (simp add: received_nothing)
next
  case (Suc n)
  obtain x s1 got1 where read: "vt_readByte vt (device b) = (x, s1)" "read_calls vt n s1 = (got1, s')" "got = x # got1"
    using Suc.prems(2) by (auto split: prod.splits simp: apfst_def map_prod_def)
  show ?case
  proof (cases x)
    case None
    let ?b1 = "b\<lparr>device := s1\<rparr>"
    have "processByte crc vt hs b = Inr (NOT_DONE, ?b1)"
      using read(1) None by (simp add: processByte_def)
    moreover have "received s' d q log ?b1 = received s' d q log b" for d q log
      by (simp add: received_def log_bus_def store_packet_def)
    ultimately show ?thesis
      using Suc.IH[of ?b1 p got1] Suc.prems(1) read(2,3) None
      by (auto simp: bind_res_assoc split: sum.splits bind_res_split)
  next
    case (Some y)
    show ?thesis
    proof (cases "decodeByte crc (Some (bus_as_str hs)) y (m_decoder b) p")
      case (Inl f)
      with Some read(1,3) Suc.prems(1) show ?thesis by (simp add: processByte_def)
    next
      case (Inr r)
      obtain err d1 p1 log1 where r: "r = (err, d1, p1, log1)" by (cases r)
      let ?b1 = "received s1 d1 p1 log1 b"
      have "processByte crc vt hs b = Inr (err, ?b1)"
        using read(1) Some Inr r Suc.prems(1) by (simp add: processByte_def received_def)
      moreover have at: "deref (packets ?b1) (m_cmdPacket ?b1) = Inr p1"
        using Suc.prems(1) by (simp add: deref_ok)
      have "process_bytes crc vt hs n ?b1 = bind_res (decode_stream crc (Some (bus_as_str hs)) (delivered got1) d1 p1)
          (\<lambda>(errs, d, p, log). Inr (spread got1 errs, received s' d p log ?b1))"
        using Suc.IH[OF at, of got1] read(2) by simp
      ultimately show ?thesis
        using read(3) Some Inr r
        by (cases "decode_stream crc (Some (bus_as_str hs)) (delivered got1) d1 p1")
          (auto simp: received_received split: prod.splits)
    qed
  qed
qed

section \<open>Properties\<close>

text \<open>The pace of the link does not matter to the receiver: whatever any number of calls of
  \<open>processByte\<close> find at the device, they do to the packet and the decoder what the decoder does
  with the bytes that were there, without the pauses, and return its codes with \<open>NOT_DONE\<close> in
  between.\<close>

theorem processByte_at_any_pace:
  assumes "deref (packets b) (m_cmdPacket b) = Inr p" "read_calls vt n (device b) = (got, s')"
  shows "process_bytes crc vt hs n b =
    bind_res (decode_stream crc (Some (bus_as_str hs)) (delivered got) (m_decoder b) p)
      (\<lambda>(errs, d, p, log). Inr (spread got errs, received s' d p log b))"
  using assms by (rule process_calls)

text \<open>C9: A frame is received as soon as its last byte is there: when the bytes that \<open>n\<close> calls of
  \<open>processByte\<close> find, the last call among them, are a frame, however many calls in between find
  nothing, then the last call returns \<open>NONE\<close> and all others \<open>NOT_DONE\<close>, and the command packet
  holds the command and the data.\<close>

theorem slow_frame_is_received:
  assumes "deref (packets b) (m_cmdPacket b) = Inr p" "packet_wf p" "decoder_ok (m_decoder b)"
    and "d_state (m_decoder b) = D_IDLE" "length ds < m_maxDataLen p"
    and "read_calls vt n (device b) = (got @ [Some x], s')" "delivered (got @ [Some x]) = frame_bytes crc c ds"
  shows "\<exists>b' q. process_bytes crc vt hs n b = Inr (replicate (n - 1) NOT_DONE @ [NONE], b') \<and>
    deref (packets b') (m_cmdPacket b') = Inr q \<and> getCommand q = c \<and> contents q = ds \<and>
    d_state (m_decoder b') = D_IDLE \<and> device b' = s'"
proof -
  let ?f = "frame_bytes crc c ds"
  obtain d' p' log where dec: "decode_stream crc (Some (bus_as_str hs)) ?f (m_decoder b) p
       = Inr (replicate (length ?f - 1) NOT_DONE @ [NONE], d', p', log)"
    "d_state d' = D_IDLE" "m_command p' = c" "contents p' = ds"
    using decode_frame[OF assms(2-5), where crc = crc and c = c] by metis
  have "length ?f - 1 = length (delivered got)" "n - 1 = length got"
    using arg_cong[OF assms(7), of length] read_calls_length[OF assms(6)] by simp_all
  then have "process_bytes crc vt hs n b = Inr (replicate (n - 1) NOT_DONE @ [NONE], received s' d' p' log b)"
    using process_calls[OF assms(1,6), of crc hs] dec(1) spread_pending[of got x NONE]
    unfolding assms(7) by simp
  with dec(2-4) show ?thesis
    using assms(1) by (auto simp: getCommand_def deref_ok)
qed

text \<open>A serial port that has a byte every other time it is read.\<close>

definition slow_serial :: serial where
  "slow_serial cs c =
     (case c of
        S_read \<Rightarrow> [-1, 0xC0, -1, 1, -1, 2, -1, 0x1b, -1, 0xC0] ! length cs
      | _ \<Rightarrow> 1)"

definition slow_bus :: "serial_call list bus" where
  "slow_bus = new_bus 10 20 nullptr nullptr [10 \<mapsto> blank_packet 15, 20 \<mapsto> blank_packet 15] [] 0"

theorem slow_frame_is_received_witness:
  "\<exists>b' q. process_bytes crc8_poly07 (arduino_vt slow_serial) [] 10 slow_bus
      = Inr (replicate 9 NOT_DONE @ [NONE], b') \<and>
    deref (packets b') (m_cmdPacket b') = Inr q \<and> getCommand q = 1 \<and> contents q = [2]"
proof -
  let ?got = "[None, Some 0xC0, None, Some 1, None, Some 2, None, Some 0x1b, None] :: u8 option list"
  have calls: "read_calls (arduino_vt slow_serial) 10 (device slow_bus) = (?got @ [Some 0xC0], replicate 10 S_read)"
    by (simp add: slow_bus_def new_bus_def arduino_vt_def arduino_readByte_def call_def slow_serial_def numeral_eq_Suc)
  have bus: "deref (packets slow_bus) (m_cmdPacket slow_bus) = Inr (blank_packet 15)" "m_decoder slow_bus = new_decoder"
    by (simp_all add: slow_bus_def new_bus_def deref_ok nullptr_def)
  have "delivered (?got @ [Some 0xC0]) = frame_bytes crc8_poly07 1 [2]"
    unfolding ping_frame by simp
  from slow_frame_is_received[OF bus(1) _ _ _ _ calls this, of "[]"] bus(2) show ?thesis
    by (auto simp: blank_packet_wf size_range_def new_decoder_def decoder_ok_def)
qed

theorem processByte_at_any_pace_witness:
  "\<exists>b'. process_bytes crc8_poly07 test_vt [] 3 (test_bus [0xC0, 0xC0]) = Inr ([NOT_DONE, NOT_DONE, NOT_DONE], b')"
proof -
  have "read_calls test_vt 3 (device (test_bus [0xC0, 0xC0]))
      = ([Some 0xC0, Some 0xC0, None], (device (test_bus [0xC0, 0xC0]))\<lparr>m_decodeIdx := 2\<rparr>)"
    by (simp add: test_readByte_def test_isDataAvailable_def numeral_eq_Suc)
  moreover have "deref (packets (test_bus [0xC0, 0xC0])) (m_cmdPacket (test_bus [0xC0, 0xC0])) = Inr (blank_packet 15)"
    by simp
  ultimately show ?thesis
    using processByte_at_any_pace[of "test_bus [0xC0, 0xC0]" "blank_packet 15" test_vt 3]
    by (simp add: decodeByte_def decode_idle_def decode_command_def new_decoder_def frame_consts)
qed

end
