(* ===== verification/Core_Server.thy ===== *)
theory Core_Server
  imports Bus_System Slow_Link Linux_Serial Socket_Bus
begin

text \<open>
  A device with the core handler as a server. The application's loop calls \<open>processByte\<close> and,
  when a packet is complete, \<open>handlePacket\<close>. What it promises is stated without packets,
  buffers and encoder: a machine over received bytes (\<open>server_run\<close>) that answers every message
  it recognises. The loop refines this machine on any device that loses nothing, whatever bytes
  arrive and at any pace, up to and including the commands that end the program.
\<close>

section \<open>The loop of an application\<close>

text \<open>
  \<open>n\<close> turns of the loop. The bytes that \<open>readByte\<close> delivered are part of the result, also when
  a turn faulted; \<open>None\<close> means that a turn did not return.
\<close>

fun poll_bus ::
    "crc_fns \<Rightarrow> 's bus_vt \<Rightarrow> 's handler list \<Rightarrow> nat \<Rightarrow> 's bus \<Rightarrow> (u8 list \<times> 's bus res) option" where
  "poll_bus crc vt hs 0 b = Some ([], Inr b)"
| "poll_bus crc vt hs (Suc n) b =
     (let got = (case fst (vt_readByte vt (device b)) of None \<Rightarrow> [] | Some x \<Rightarrow> [x]) in
      case processByte crc vt hs b of
        Inl f \<Rightarrow> Some (got, Inl f)
      | Inr (err, b) \<Rightarrow>
          if err = NONE then
            (case handlePacket crc vt hs b of
               None \<Rightarrow> None
             | Some (Inl f) \<Rightarrow> Some (got, Inl f)
             | Some (Inr (ok, b)) \<Rightarrow> map_option (apfst ((@) got)) (poll_bus crc vt hs n b))
          else map_option (apfst ((@) got)) (poll_bus crc vt hs n b))"

section \<open>The abstract server\<close>

text \<open>The words of the two monitor commands.\<close>

definition stack_words :: "monitor \<Rightarrow> u32 list" where
  "stack_words m =
     (if on_arm m then
        [word_of_nat (stackSize m), word_of_nat (usedStackSpace m), word_of_nat (unusedStackSpace m)]
      else [0, 0, 0])"

definition heap_words :: "monitor \<Rightarrow> u32 list" where
  "heap_words m =
     [word_of_int (mallinfo_arena m), word_of_int (mallinfo_uordblks m),
      word_of_int (mallinfo_fordblks m), word_of_int (mallinfo_ordblks m),
      word_of_nat (if on_arm m then heapGrowthPotential m else 0)]"

definition words_reply :: "nat \<Rightarrow> u8 \<Rightarrow> u32 list \<Rightarrow> (u8 \<times> u8 list) option res" where
  "words_reply cap c ws =
     (if 4 * length ws \<le> cap then Inr (Some (c, concat (map (le_bytes 4) ws))) else Inl Assert_Failed)"

text \<open>
  The reply to a message, with \<open>cap\<close> bytes of room: a message, nothing for a command that is
  not known, or the way the program ends.
\<close>

definition core_reply :: "monitor \<Rightarrow> nat \<Rightarrow> u8 \<Rightarrow> u8 list \<Rightarrow> (u8 \<times> u8 list) option res" where
  "core_reply m cap c ds =
     (if c = PING then if length ds \<le> cap then Inr (Some (PING, ds)) else Inl Assert_Failed
      else if c = DEBUG then
        if length ds < 4 then Inl Indeterminate
        else if 4 \<le> cap then Inr (Some (DEBUG, take 4 ds)) else Inl Assert_Failed
      else if c = STACK_INFO then words_reply cap STACK_INFO (stack_words m)
      else if c = HEAP_INFO then words_reply cap HEAP_INFO (heap_words m)
      else Inr None)"

text \<open>The debug flag of the device after a message.\<close>

definition debug_after :: "u8 \<Rightarrow> u8 list \<Rightarrow> bool \<Rightarrow> bool" where
  "debug_after c ds dbg = (if c = DEBUG then bit (ds ! 0) 0 else dbg)"

fun reply_bytes :: "crc_fns \<Rightarrow> (u8 \<times> u8 list) option \<Rightarrow> u8 list" where
  "reply_bytes crc None = []"
| "reply_bytes crc (Some (c, ds)) = frame_bytes crc c ds"

type_synonym server = "receiver \<times> bool"

definition server_byte ::
    "crc_fns \<Rightarrow> monitor \<Rightarrow> nat \<Rightarrow> nat \<Rightarrow> u8 \<Rightarrow> server \<Rightarrow> (u8 list \<times> server) res" where
  "server_byte crc m ccap rcap b s =
     (case receive crc ccap b (fst s) of
        (Delivered c ds x, r) \<Rightarrow>
          bind_res (core_reply m rcap c ds) (\<lambda>rep.
            Inr (reply_bytes crc rep, r, debug_after c ds (snd s)))
      | (out, r) \<Rightarrow> Inr ([], r, snd s))"

fun server_run ::
    "crc_fns \<Rightarrow> monitor \<Rightarrow> nat \<Rightarrow> nat \<Rightarrow> u8 list \<Rightarrow> server \<Rightarrow> (u8 list \<times> server) res" where
  "server_run crc m ccap rcap [] s = Inr ([], s)"
| "server_run crc m ccap rcap (b # bs) s =
     bind_res (server_byte crc m ccap rcap b s) (\<lambda>(out, s).
     bind_res (server_run crc m ccap rcap bs s) (\<lambda>(out', s). Inr (out @ out', s)))"

section \<open>The handler gives the reply\<close>

lemma words_reply_run:
  assumes "packet_wf r" "length ws \<le> 5"
  shows "append_words ws (setCommand cmd (emptied r)) =
    bind_res (words_reply (m_maxDataLen r) cmd ws) (\<lambda>rep.
      Inr (put (snd (the rep)) (setCommand cmd (emptied r))))"
  using append_words_emptied[OF assms, of cmd] by (simp add: words_reply_def)

lemma handlePing_too_long:
  assumes "deref (packets b) cmd = Inr c" "deref (packets b) rsp = Inr r" "cmd \<noteq> rsp"
    and "packet_wf c" "m_maxDataLen r < length (contents c)"
  shows "handlePing cmd rsp b = Inl Assert_Failed"
proof -
  have len: "m_maxDataLen r < m_dataLen c" "m_dataLen c < size_range"
    using assms(4,5) packet_wf_bounds[OF assms(4)] by simp_all
  then have "setData (m_dataLen c) (m_data c) (setCommand PING r) = Inl Assert_Failed"
    by (simp add: setData_def setCommand_def appendData_full)
  then show ?thesis
    using assms(1-3)
    by (simp add: handlePing_def deref_store deref_store_other getDataLength_def getData_def)
qed

lemma handleDebug_no_room:
  assumes "deref (packets b) cmd = Inr c" "deref (packets b) rsp = Inr r"
    and "packet_wf c" "packet_wf r" "4 \<le> m_dataLen c" "m_maxDataLen r < m_dataLen r + 4" "m_maxDataLen r < 4"
  shows "handleDebug True cmd rsp b = Inl Assert_Failed"
proof -
  have "\<exists>x u. unpack_word (new_unpacker c) = Inr (Some (x :: u32), u)"
    using unpack_word_ok[of "new_unpacker c", where 'a = 32] assms(5) packet_wf_bounds(2)[OF assms(3)]
    by (auto simp: new_unpacker_def getData_def getDataLength_def)
  then obtain x u where u: "unpack_word (new_unpacker c) = Inr (Some (x :: u32), u)" by blast
  have "m_dataLen r + 4 < size_range"
    using assms(7) packet_wf_bounds(1)[OF assms(4)] by (simp add: size_range_def)
  then have "append_word x (setCommand DEBUG r) = Inl Assert_Failed"
    using assms(4,6) by (simp add: append_word_def appendData_full setCommand_def del: le_bytes.simps)
  then show ?thesis
    using assms(1,2) u by (simp add: handleDebug_def Let_def setDebug_def)
qed

lemma handleDebug_too_short:
  assumes "deref (packets b) cmd = Inr c" "m_dataLen c < 4"
  shows "handleDebug known cmd rsp b = Inl Indeterminate"
  using assms by (simp add: handleDebug_def unpack_word_def new_unpacker_def sizeof_def getDataLength_def)

lemma debug_flag:
  assumes "4 \<le> length ds"
  shows "and (of_le_bytes (take 4 ds)) 0x01 \<noteq> (0 :: u32) \<longleftrightarrow> bit (ds ! 0) 0"
proof -
  have "bit (of_le_bytes (take 4 ds) :: u32) 0 \<longleftrightarrow> bit (ds ! 0) 0"
    using assms by (auto simp: bit_of_le_bytes)
  then show ?thesis
    by (simp add: and_one_eq odd_iff_mod_2_eq_one bit_0)
qed

text \<open>What the core handler does to a bus whose response packet has been emptied.\<close>

definition handled :: "ptr \<Rightarrow> packet \<Rightarrow> u8 \<Rightarrow> u8 list \<Rightarrow> (u8 \<times> u8 list) option \<Rightarrow> 's bus \<Rightarrow> 's bus" where
  "handled a r c ds rep b =
     (case rep of None \<Rightarrow> b
      | Some (c', ds') \<Rightarrow> store_packet a (put ds' (setCommand c' (emptied r)))
          (if c = DEBUG then setDebug (bit (ds ! 0) 0) b else b))"

lemma core_handles:
  assumes "deref (packets b) cmd = Inr c" "packet_wf c" "deref (packets b) rsp = Inr (emptied r)" "packet_wf r"
    and "cmd \<noteq> rsp" "cmd = m_cmdPacket b" "rsp = m_rspPacket b"
  shows "core_handlePacket m True cmd rsp b =
    bind_res (core_reply m (m_maxDataLen r) (getCommand c) (contents c)) (\<lambda>rep.
      Inr (rep \<noteq> None, handled rsp r (getCommand c) (contents c) rep b))"
proof -
  have len: "length (contents c) = m_dataLen c" using assms(2) by simp
  have "emptied r\<lparr>m_command := x\<rparr> = setCommand x (emptied r)" for x
    by (simp add: setCommand_def)
  note ok = handlePing_ok[of b c "emptied r"] handleDebug_ok[of b c "emptied r"]
  consider (ping) "getCommand c = PING" | (debug) "getCommand c = DEBUG"
    | (stack) "getCommand c = STACK_INFO" | (heap) "getCommand c = HEAP_INFO"
    | (other) "getCommand c \<notin> {PING, DEBUG, STACK_INFO, HEAP_INFO}"
    by blast
  then show ?thesis
  proof cases
    case ping
    show ?thesis
    proof (cases "length (contents c) \<le> m_maxDataLen r")
      case True
      with ping ok(1) assms len show ?thesis
        by (simp add: core_handlePacket_def core_reply_def handled_def setCommand_def core_commands)
    next
      case False
      with ping handlePing_too_long[of b cmd c rsp "emptied r"] assms show ?thesis
        by (simp add: core_handlePacket_def core_reply_def)
    qed
  next
    case debug
    consider "m_dataLen c < 4" | "4 \<le> m_dataLen c" "m_maxDataLen r < 4" | "4 \<le> m_dataLen c" "4 \<le> m_maxDataLen r"
      by linarith
    then show ?thesis
    proof cases
      case 1
      with debug handleDebug_too_short[OF assms(1)] assms(1) len show ?thesis
        by (simp add: core_handlePacket_def core_reply_def core_commands)
    next
      case 2
      with debug handleDebug_no_room[OF assms(1,3,2)] assms(1,4) len show ?thesis
        by (simp add: core_handlePacket_def core_reply_def core_commands)
    next
      case 3
      with debug ok(2) debug_flag[of "contents c"] assms len show ?thesis
        by (simp add: core_handlePacket_def core_reply_def handled_def setCommand_def core_commands)
    qed
  next
    case stack
    have "handleStackInfo m rsp b = bind_res (append_words (stack_words m) (setCommand STACK_INFO (emptied r)))
        (\<lambda>r. Inr (store_packet rsp r b))"
      using assms(3) by (simp add: handleStackInfo_def stack_words_def)
    moreover have "length (stack_words m) \<le> 5" by (simp add: stack_words_def)
    ultimately show ?thesis
      using stack assms(1) words_reply_run[OF assms(4), of "stack_words m"]
      by (auto simp: core_handlePacket_def core_reply_def handled_def core_commands bind_res_assoc words_reply_def)
  next
    case heap
    have "handleHeapInfo m rsp b = bind_res (append_words (heap_words m) (setCommand HEAP_INFO (emptied r)))
        (\<lambda>r. Inr (store_packet rsp r b))"
      using assms(3) by (simp add: handleHeapInfo_def heap_words_def Let_def)
    moreover have "length (heap_words m) \<le> 5" by (simp add: heap_words_def)
    ultimately show ?thesis
      using heap assms(1) words_reply_run[OF assms(4), of "heap_words m"]
      by (auto simp: core_handlePacket_def core_reply_def handled_def core_commands bind_res_assoc words_reply_def)
  next
    case other
    with assms(1) show ?thesis
      by (simp add: core_handlePacket_def core_reply_def handled_def)
  qed
qed


lemma core_reply_fits:
  "core_reply m cap c ds = Inr (Some (c', ds')) \<Longrightarrow> length ds' \<le> cap \<and> c' \<noteq> 0 \<and> c' = c"
  by (auto simp: core_reply_def words_reply_def core_commands length_concat comp_def sum_list_triv
      split: if_splits)

lemma core_device_handles:
  assumes "bus_ok b" "deref (packets b) (m_cmdPacket b) = Inr c" "deref (packets b) (m_rspPacket b) = Inr r"
    and "hs = [setBus (core_handler m)]"
  shows "case core_reply m (m_maxDataLen r) (getCommand c) (contents c) of
      Inl f \<Rightarrow> handlePacket crc vt hs b = Some (Inl f)
    | Inr rep \<Rightarrow> \<exists>b'. handlePacket crc vt hs b = Some (Inr (rep \<noteq> None, b')) \<and>
        device b' = (if rep = None then device b
          else vt_flush vt (fold (vt_writeByte vt) (reply_bytes crc rep) (device b))) \<and>
        m_decoder b' = (m_decoder b)\<lparr>d_debug := debug_after (getCommand c) (contents c) (d_debug (m_decoder b))\<rparr> \<and>
        e_debug (m_encoder b') = debug_after (getCommand c) (contents c) (e_debug (m_encoder b))"
proof -
  let ?b0 = "store_packet (m_rspPacket b) (emptied r) b"
  have wf: "packet_wf c" "packet_wf r" "m_cmdPacket b \<noteq> m_rspPacket b"
    using assms(1-3) by (auto simp: bus_ok_def)
  note asked = asked_packets[OF assms(2,3) wf(3)]
  have run: "core_handlePacket m True (m_cmdPacket b) (m_rspPacket b) ?b0 =
      bind_res (core_reply m (m_maxDataLen r) (getCommand c) (contents c)) (\<lambda>rep.
        Inr (rep \<noteq> None, handled (m_rspPacket b) r (getCommand c) (contents c) rep ?b0))"
    using core_handles[OF asked(1) wf(1) asked(2) wf(2,3)] by simp
  show ?thesis
  proof (cases "core_reply m (m_maxDataLen r) (getCommand c) (contents c)")
    case (Inl f)
    then show ?thesis
      using core_faults[OF assms(3), of m f crc vt "[]"] run assms(4) by simp
  next
    case (Inr rep)
    show ?thesis
    proof (cases rep)
      case None
      have other: "debug_after (getCommand c) (contents c) x = x" for x
        using Inr None by (auto simp: debug_after_def core_reply_def core_commands split: if_splits)
      have "handlePacket crc vt hs b = dispatch crc vt hs [] ?b0"
        using run Inr None assms(4)
        by (simp add: handlePacket_starts_dispatch[OF assms(3)] setBus_def core_handler_def handled_def)
      then show ?thesis
        using Inr None asked(1) by (simp add: other log_bus_def)
    next
      case (Some x)
      obtain c' ds' where x: "x = (c', ds')" by (cases x)
      have fits: "length ds' \<le> m_maxDataLen r" "c' \<noteq> 0" "c' = getCommand c"
        using core_reply_fits[of m _ _ _ c' ds'] Inr Some x by auto
      let ?r1 = "put ds' (setCommand c' (emptied r))"
      let ?b1 = "handled (m_rspPacket b) r (getCommand c) (contents c) rep ?b0"
      have r1: "packet_wf ?r1" "m_command ?r1 \<noteq> 0" "contents ?r1 = ds'" "m_command ?r1 = c'"
        using put_emptied[OF wf(2) fits(1), of c'] fits(2) by (simp_all add: setCommand_def)
      have b1: "m_rspPacket ?b1 = m_rspPacket b" "device ?b1 = device b"
        "m_decoder ?b1 = (m_decoder b)\<lparr>d_debug := debug_after (getCommand c) (contents c) (d_debug (m_decoder b))\<rparr>"
        "e_debug (m_encoder ?b1) = debug_after (getCommand c) (contents c) (e_debug (m_encoder b))"
        "deref (packets ?b1) (m_rspPacket b) = Inr ?r1"
        using asked(2) unfolding Some x
        by (simp_all add: handled_def debug_after_def deref_ok setDebug_def decoder_setDebug_def encoder_setDebug_def)
      have "handlePacket crc vt hs b = send_response crc vt hs ?b1"
        using core_answers[OF assms(3), of m ?b1 crc vt "[]"] run Inr Some assms(4) by simp
      moreover obtain b' where "send_response crc vt hs ?b1 = Some (Inr (True, b'))"
        "device b' = vt_flush vt (fold (vt_writeByte vt) (frame_bytes crc c' ds') (device b))"
        "m_decoder b' = m_decoder ?b1" "e_debug (m_encoder b') = e_debug (m_encoder ?b1)"
        using send_response_frame[of ?b1 ?r1 crc vt hs] b1(1,2,5) r1 by metis
      ultimately show ?thesis
        using Inr Some x b1(3,4) by simp
    qed
  qed
qed

section \<open>The simulation\<close>

text \<open>
  The bus stands for a server: it is well formed, its packets have the capacities \<open>ccap\<close> and
  \<open>rcap\<close>, its decoder stands for the receiver, and both debug flags are the server's.
\<close>

definition serves :: "nat \<Rightarrow> nat \<Rightarrow> 's bus \<Rightarrow> server \<Rightarrow> bool" where
  "serves ccap rcap b s \<longleftrightarrow> bus_inv b b \<and>
     (\<exists>c. deref (packets b) (m_cmdPacket b) = Inr c \<and> m_maxDataLen c = ccap \<and>
       receiver_of (m_decoder b) c = fst s) \<and>
     (\<exists>r. deref (packets b) (m_rspPacket b) = Inr r \<and> m_maxDataLen r = rcap) \<and>
     d_debug (m_decoder b) = snd s \<and> e_debug (m_encoder b) = snd s"

lemma servesE:
  assumes "serves ccap rcap b s"
  obtains c r where "deref (packets b) (m_cmdPacket b) = Inr c" "m_maxDataLen c = ccap"
    "receiver_of (m_decoder b) c = fst s" "deref (packets b) (m_rspPacket b) = Inr r" "m_maxDataLen r = rcap"
    "packet_wf c" "packet_wf r" "m_cmdPacket b \<noteq> m_rspPacket b" "decoder_ok (m_decoder b)" "bus_ok b"
    "bus_inv b b" "d_debug (m_decoder b) = snd s" "e_debug (m_encoder b) = snd s"
  using assms by (auto simp: serves_def bus_inv_def bus_ok_def)

text \<open>The invariant restarts at any state, and it keeps the capacities.\<close>

lemma bus_inv_again:
  assumes "bus_inv b0 b"
  shows "bus_inv b b"
  using assms by (intro initial_inv) (auto simp: bus_inv_def)

lemma bus_inv_capacity:
  assumes "bus_inv b b'" "deref (packets b) a = Inr p"
  obtains q where "deref (packets b') a = Inr q" "m_maxDataLen q = m_maxDataLen p"
proof -
  have "map_option m_maxDataLen (packets b' a) = Some (m_maxDataLen p)"
    using assms by (auto simp: bus_inv_def deref_ok)
  with assms(2) that show thesis by (auto simp: deref_ok)
qed

lemma bus_inv_pointers:
  "bus_inv b b' \<Longrightarrow> m_cmdPacket b' = m_cmdPacket b \<and> m_rspPacket b' = m_rspPacket b"
  by (simp add: bus_inv_def same_pointers_def)


lemma processByte_idle:
  assumes "serves ccap rcap b s" "vt_readByte vt (device b) = (None, d)"
  shows "processByte crc vt hs b = Inr (NOT_DONE, b\<lparr>device := d\<rparr>)" "serves ccap rcap (b\<lparr>device := d\<rparr>) s"
proof -
  have "bus_inv (b\<lparr>device := d\<rparr>) (b\<lparr>device := d\<rparr>)"
    using assms(1) by (auto simp: serves_def intro: bus_inv_again device_inv)
  with assms show "serves ccap rcap (b\<lparr>device := d\<rparr>) s" "processByte crc vt hs b = Inr (NOT_DONE, b\<lparr>device := d\<rparr>)"
    by (simp_all add: serves_def processByte_def)
qed

lemma processByte_serves:
  assumes "serves ccap rcap b s" "vt_readByte vt (device b) = (Some x, d)" "receive crc ccap x (fst s) = (out, rcv)"
  obtains b' c' where "processByte crc vt hs b = Inr (outcome_error out, b')" "device b' = d"
    "serves ccap rcap b' (rcv, snd s)" "deref (packets b') (m_cmdPacket b') = Inr c'" "delivered_in out c'"
proof -
  obtain c r where b: "deref (packets b) (m_cmdPacket b) = Inr c" "m_maxDataLen c = ccap"
    "receiver_of (m_decoder b) c = fst s" "deref (packets b) (m_rspPacket b) = Inr r" "m_maxDataLen r = rcap"
    "packet_wf c" "m_cmdPacket b \<noteq> m_rspPacket b" "decoder_ok (m_decoder b)" "bus_inv b b"
    "d_debug (m_decoder b) = snd s" "e_debug (m_encoder b) = snd s"
    using assms(1) by (rule servesE)
  obtain d' c' log where step: "decodeByte crc (Some (bus_as_str hs)) x (m_decoder b) c
      = Inr (outcome_error out, d', c', log)" "receiver_of d' c' = rcv" "step_frame (m_decoder b) c d' c'"
    "delivered_in out c'"
    using decode_step_refines[OF b(6,8), of crc "Some (bus_as_str hs)" x] assms(3) b(2,3)
    by (metis fst_conv snd_conv)
  let ?b' = "received d d' c' log b"
  have run: "processByte crc vt hs b = Inr (outcome_error out, ?b')"
    using assms(2) b(1) step(1) by (simp add: processByte_def received_def)
  have "bus_inv ?b' ?b'"
    using processByte_inv[OF b(9) run] by (rule bus_inv_again)
  moreover have at: "deref (packets ?b') (m_cmdPacket ?b') = Inr c'" "deref (packets ?b') (m_rspPacket ?b') = Inr r"
    using b(1,4,7) by (simp_all add: deref_ok)
  ultimately have "serves ccap rcap ?b' (rcv, snd s)"
    using step(2) step_frameD[OF step(3)] b(2,5,10,11) by (auto simp: serves_def)
  with run at(1) step(4) that show thesis by simp
qed

lemma receive_delivers: "receive crc cap x r = (Delivered c ds y, r') \<Longrightarrow> r' = R_Idle"
  by (cases r) (auto simp: receive_end_def split: if_splits)

lemma receiver_idle:
  "decoder_ok d \<Longrightarrow> receiver_of d p = R_Idle \<longleftrightarrow> d_state d = D_IDLE"
  by (cases "d_state d") (simp_all add: receiver_of_def decoder_ok_def)

lemma handlePacket_serves:
  assumes "serves ccap rcap b (R_Idle, dbg)" "deref (packets b) (m_cmdPacket b) = Inr c"
    and "getCommand c = cmd" "contents c = ds" "hs = [setBus (core_handler m)]"
  shows "case core_reply m rcap cmd ds of
      Inl f \<Rightarrow> handlePacket crc vt hs b = Some (Inl f)
    | Inr rep \<Rightarrow> \<exists>b'. handlePacket crc vt hs b = Some (Inr (rep \<noteq> None, b')) \<and>
        device b' = (if rep = None then device b
          else vt_flush vt (fold (vt_writeByte vt) (reply_bytes crc rep) (device b))) \<and>
        serves ccap rcap b' (R_Idle, debug_after cmd ds dbg)"
proof -
  obtain c0 r where b: "deref (packets b) (m_cmdPacket b) = Inr c0" "m_maxDataLen c0 = ccap"
    "receiver_of (m_decoder b) c0 = R_Idle" "deref (packets b) (m_rspPacket b) = Inr r" "m_maxDataLen r = rcap"
    "decoder_ok (m_decoder b)" "bus_ok b" "bus_inv b b"
    "d_debug (m_decoder b) = dbg" "e_debug (m_encoder b) = dbg"
    using assms(1) by (rule servesE) simp
  have c0: "c0 = c" using b(1) assms(2) by simp
  note handled = core_device_handles[OF b(7) assms(2) b(4) assms(5), of crc vt, unfolded b(5) assms(3,4)]
  show ?thesis
  proof (cases "core_reply m rcap cmd ds")
    case (Inl f)
    with handled show ?thesis by simp
  next
    case (Inr rep)
    then obtain b' where b': "handlePacket crc vt hs b = Some (Inr (rep \<noteq> None, b'))"
      "device b' = (if rep = None then device b
         else vt_flush vt (fold (vt_writeByte vt) (reply_bytes crc rep) (device b)))"
      "m_decoder b' = (m_decoder b)\<lparr>d_debug := debug_after cmd ds (d_debug (m_decoder b))\<rparr>"
      "e_debug (m_encoder b') = debug_after cmd ds (e_debug (m_encoder b))"
      using handled by auto
    have inv: "bus_inv b b'"
      by (rule handlePacket_inv[OF core_contract b(8) b'(1)[unfolded assms(5)]])
    obtain c' where c': "deref (packets b') (m_cmdPacket b) = Inr c'" "m_maxDataLen c' = ccap"
      using bus_inv_capacity[OF inv b(1)] b(2) by metis
    obtain r' where r': "deref (packets b') (m_rspPacket b) = Inr r'" "m_maxDataLen r' = rcap"
      using bus_inv_capacity[OF inv b(4)] b(5) by metis
    have "receiver_of (m_decoder b') c' = R_Idle"
      using b(3,6) b'(3) receiver_idle[OF b(6)] receiver_idle[OF bus_invD(2)[OF inv]] by simp
    with c' r' bus_inv_again[OF inv] bus_inv_pointers[OF inv] b'(3,4) b(9,10)
    have "serves ccap rcap b' (R_Idle, debug_after cmd ds dbg)"
      by (simp add: serves_def)
    with Inr b'(1,2) show ?thesis by simp
  qed
qed

section \<open>Devices to serve on\<close>

text \<open>A lossless device that stays up when it is read.\<close>

locale serving_device = lossless_device +
  assumes up_read: "up s \<Longrightarrow> up (snd (vt_readByte vt s))"
begin

lemma reply_sent:
  assumes "up s"
  shows "sent (vt_flush vt (fold (vt_writeByte vt) bs s)) = sent s @ bs"
    "up (vt_flush vt (fold (vt_writeByte vt) bs s))"
  using writes_all_sent[OF assms, of bs] by (simp_all add: flush_sent up_flush)

text \<open>One turn of the loop.\<close>

lemma turn_serves:
  assumes "serves ccap rcap b s" "up (device b)" "hs = [setBus (core_handler m)]"
    and "vt_readByte vt (device b) = (Some x, d)"
  shows "case server_byte crc m ccap rcap x s of
      Inl f \<Rightarrow> poll_bus crc vt hs (Suc n) b = Some ([x], Inl f)
    | Inr (out, s') \<Rightarrow> \<exists>b'. poll_bus crc vt hs (Suc n) b = map_option (apfst ((#) x)) (poll_bus crc vt hs n b') \<and>
        serves ccap rcap b' s' \<and> sent (device b') = sent (device b) @ out \<and> up (device b') \<and>
        (device b' = d \<or> (\<exists>bs. device b' = vt_flush vt (fold (vt_writeByte vt) bs d)))"
proof -
  obtain out rcv where rec: "receive crc ccap x (fst s) = (out, rcv)" by fastforce
  obtain b1 c1 where b1: "processByte crc vt hs b = Inr (outcome_error out, b1)" "device b1 = d"
    "serves ccap rcap b1 (rcv, snd s)" "deref (packets b1) (m_cmdPacket b1) = Inr c1" "delivered_in out c1"
    using processByte_serves[OF assms(1,4) rec] by metis
  have d: "sent d = sent (device b)" "up d"
    using read_sent[of "device b"] up_read[OF assms(2)] assms(4) by simp_all
  have cons: "(\<lambda>r. apfst ((@) [x]) r) = apfst ((#) x)" by (simp add: fun_eq_iff)
  show ?thesis
  proof (cases out)
    case (Delivered cmd ds y)
    have idle: "rcv = R_Idle" using rec Delivered by (simp add: receive_delivers)
    have c1: "getCommand c1 = cmd" "contents c1 = ds" using b1(5) Delivered by (simp_all add: getCommand_def)
    note handled = handlePacket_serves[OF b1(3)[unfolded idle] b1(4) c1 assms(3), of crc vt]
    show ?thesis
    proof (cases "core_reply m rcap cmd ds")
      case (Inl f)
      with handled have "handlePacket crc vt hs b1 = Some (Inl f)" by simp
      with b1(1) rec Delivered Inl assms(4) show ?thesis by (simp add: server_byte_def)
    next
      case (Inr rep)
      then obtain b2 where b2: "handlePacket crc vt hs b1 = Some (Inr (rep \<noteq> None, b2))"
        "device b2 = (if rep = None then device b1
           else vt_flush vt (fold (vt_writeByte vt) (reply_bytes crc rep) (device b1)))"
        "serves ccap rcap b2 (R_Idle, debug_after cmd ds (snd s))"
        using handled by auto
      have "sent (device b2) = sent (device b) @ reply_bytes crc rep \<and> up (device b2)"
        "device b2 = d \<or> (\<exists>bs. device b2 = vt_flush vt (fold (vt_writeByte vt) bs d))"
        using b2(2) b1(2) d reply_sent[OF d(2), of "reply_bytes crc rep"] by auto
      with b1(1) b2(1,3) rec Delivered Inr idle assms(4) show ?thesis
        by (auto simp: server_byte_def cons)
    qed
  qed (use b1(1,2,3) d rec assms(4) in \<open>auto simp: server_byte_def cons\<close>)
qed

lemma poll_serves:
  assumes "serves ccap rcap b s" "up (device b)" "hs = [setBus (core_handler m)]"
  shows "\<exists>got res. poll_bus crc vt hs n b = Some (got, res) \<and>
    (case server_run crc m ccap rcap got s of
       Inl f \<Rightarrow> res = Inl f
     | Inr (out, s') \<Rightarrow> \<exists>b'. res = Inr b' \<and> serves ccap rcap b' s' \<and>
         sent (device b') = sent (device b) @ out \<and> up (device b'))"
  using assms(1,2)
proof (induction n arbitrary: b s)
  case 0
  then show ?case by auto
next
  case (Suc n)
  obtain x d where read: "vt_readByte vt (device b) = (x, d)" by fastforce
  show ?case
  proof (cases x)
    case None
    have d: "sent d = sent (device b)" "up d"
      using read_sent[of "device b"] up_read[OF Suc.prems(2)] read by simp_all
    note idle = processByte_idle[OF Suc.prems(1) read[unfolded None]]
    have "poll_bus crc vt hs (Suc n) b = poll_bus crc vt hs n (b\<lparr>device := d\<rparr>)"
      using idle(1)[of crc hs] read None
      by (cases "poll_bus crc vt hs n (b\<lparr>device := d\<rparr>)") (simp_all add: apfst_def map_prod_def)
    moreover have dev: "sent (device (b\<lparr>device := d\<rparr>)) = sent (device b)" "up (device (b\<lparr>device := d\<rparr>))"
      using d by simp_all
    ultimately show ?thesis using Suc.IH[OF idle(2) dev(2)] by (simp only: dev(1))
  next
    case (Some y)
    note turn = turn_serves[OF Suc.prems assms(3) read[unfolded Some], where crc = crc and n = n]
    show ?thesis
    proof (cases "server_byte crc m ccap rcap y s")
      case (Inl f)
      with turn show ?thesis by auto
    next
      case (Inr o_s)
      obtain out s1 where o_s: "o_s = (out, s1)" by (cases o_s)
      obtain b1 where b1: "poll_bus crc vt hs (Suc n) b = map_option (apfst ((#) y)) (poll_bus crc vt hs n b1)"
        "serves ccap rcap b1 s1" "sent (device b1) = sent (device b) @ out" "up (device b1)"
        using turn Inr o_s by auto
      obtain got res where got: "poll_bus crc vt hs n b1 = Some (got, res)"
        "case server_run crc m ccap rcap got s1 of
           Inl f \<Rightarrow> res = Inl f
         | Inr (out, s') \<Rightarrow> \<exists>b'. res = Inr b' \<and> serves ccap rcap b' s' \<and>
             sent (device b') = sent (device b1) @ out \<and> up (device b')"
        using Suc.IH[OF b1(2,4)] by blast
      then show ?thesis
        using b1(1,3) Inr o_s by (auto split: sum.splits)
    qed
  qed
qed

end

text \<open>Reading takes no connection down, on none of the buses.\<close>

interpretation test_server: serving_device test_vt m_encodedData "\<lambda>s. True"
  by unfold_locales simp

interpretation arduino_server: serving_device "arduino_vt w" "taken w serial_bytes" "\<lambda>s. serial_takes_all w" for w
  by unfold_locales simp

interpretation pico_server: serving_device "pico_vt w" "\<lambda>s. taken w usb_bytes (usb_calls s)"
    "\<lambda>s. pico_isConnected s \<and> usb_takes_all w" for w
  by unfold_locales (simp add: pico_vt_def pico_readByte_def Let_def case_prod_beta)

interpretation linux_server: serving_device "linux_vt w" "\<lambda>s. taken w os_bytes (os_calls s)" "\<lambda>s. os_takes_all w" for w
  by unfold_locales simp

interpretation socket_server: serving_device "socket_vt w" "\<lambda>s. taken w os_bytes (sock_calls s)" "\<lambda>s. os_takes_all w"
  for w
  by unfold_locales simp

section \<open>The server answers messages\<close>

text \<open>What the server sends depends on the messages alone, not on how they came.\<close>

fun server_answers ::
    "crc_fns \<Rightarrow> monitor \<Rightarrow> nat \<Rightarrow> (u8 \<times> u8 list) list \<Rightarrow> bool \<Rightarrow> (u8 list \<times> bool) res" where
  "server_answers crc m rcap [] dbg = Inr ([], dbg)"
| "server_answers crc m rcap ((c, ds) # ms) dbg =
     bind_res (core_reply m rcap c ds) (\<lambda>rep.
     bind_res (server_answers crc m rcap ms (debug_after c ds dbg)) (\<lambda>(out, dbg).
       Inr (reply_bytes crc rep @ out, dbg)))"

lemma server_run_messages:
  "server_run crc m ccap rcap bs s =
     bind_res (server_answers crc m rcap (messages (fst (receive_all crc ccap bs (fst s)))) (snd s))
       (\<lambda>(out, dbg). Inr (out, snd (receive_all crc ccap bs (fst s)), dbg))"
proof (induction bs arbitrary: s)
  case Nil
  then show ?case by simp
next
  case (Cons b bs)
  obtain out r where rec: "receive crc ccap b (fst s) = (out, r)" by fastforce
  obtain outs r' where rest: "receive_all crc ccap bs r = (outs, r')" by fastforce
  show ?case
    using Cons.IH[of "(r, snd s)"] Cons.IH[of "(r, debug_after c ds (snd s))" for c ds] rec rest
    by (cases out) (auto simp: server_byte_def bind_res_assoc split: bind_res_split)
qed

lemma server_answers_all:
  assumes "list_all2 (\<lambda>(c, ds) rep. core_reply m rcap c ds = Inr rep) ms reps"
  shows "\<exists>dbg'. server_answers crc m rcap ms dbg = Inr (concat (map (reply_bytes crc) reps), dbg')"
  using assms
proof (induction arbitrary: dbg rule: list_all2_induct)
  case Nil
  then show ?case by simp
next
  case (Cons q ms rep reps)
  obtain c ds where q: "q = (c, ds)" by (cases q)
  from Cons.IH[of "debug_after c ds dbg"] Cons.hyps(1) show ?case
    by (auto simp: q)
qed

section \<open>The bus of the tests\<close>

text \<open>Answers do not touch what is still to be read.\<close>

definition test_input :: "test_device \<Rightarrow> u8 list" where
  "test_input d = drop (m_decodeIdx d) (m_dataToDecode d)"

lemma test_input_write [simp]: "test_input (fold test_writeByte bs d) = test_input d"
  by (induction bs arbitrary: d) (simp_all add: test_input_def test_writeByte_def)

lemma test_input_read:
  "test_readByte d = (case test_input d of [] \<Rightarrow> (None, d)
     | x # xs \<Rightarrow> (Some x, d\<lparr>m_decodeIdx := m_decodeIdx d + 1\<rparr>))"
  "test_input (d\<lparr>m_decodeIdx := Suc (m_decodeIdx d)\<rparr>) = tl (test_input d)"
  by (auto simp: test_readByte_def test_isDataAvailable_def test_input_def drop_Suc tl_drop
      Cons_nth_drop_Suc[symmetric] split: list.splits)

lemma test_poll_reads:
  assumes "serves ccap rcap b s" "hs = [setBus (core_handler m)]"
    and "server_run crc m ccap rcap (take n (test_input (device b))) s = Inr y"
  shows "\<exists>b'. poll_bus crc test_vt hs n b = Some (take n (test_input (device b)), Inr b')"
  using assms(1,3)
proof (induction n arbitrary: b s y)
  case 0
  then show ?case by simp
next
  case (Suc n)
  show ?case
  proof (cases "test_input (device b)")
    case Nil
    then have "vt_readByte test_vt (device b) = (None, device b)"
      by (simp add: test_input_read)
    note idle = processByte_idle[OF Suc.prems(1) this]
    have "\<exists>b'. poll_bus crc test_vt hs n b = Some ([], Inr b')"
      using Suc.IH[of b s "([], s)"] Suc.prems(1) Nil by simp
    with Nil idle(1)[of crc hs] show ?thesis
      by (auto simp: test_input_read)
  next
    case (Cons x xs)
    let ?d = "(device b)\<lparr>m_decodeIdx := m_decodeIdx (device b) + 1\<rparr>"
    have read: "vt_readByte test_vt (device b) = (Some x, ?d)" "test_input ?d = xs"
      using Cons by (simp_all add: test_input_read)
    obtain out s1 y1 where run: "server_byte crc m ccap rcap x s = Inr (out, s1)"
      "server_run crc m ccap rcap (take n xs) s1 = Inr y1"
      using Suc.prems(2) Cons by (auto simp: bind_res_eq_Inr)
    obtain b1 where b1: "poll_bus crc test_vt hs (Suc n) b = map_option (apfst ((#) x)) (poll_bus crc test_vt hs n b1)"
      "serves ccap rcap b1 s1"
      "device b1 = ?d \<or> (\<exists>bs. device b1 = vt_flush test_vt (fold (vt_writeByte test_vt) bs ?d))"
      using test_server.turn_serves[OF Suc.prems(1) _ assms(2) read(1), where crc = crc and n = n] run(1) by auto
    then have "test_input (device b1) = xs"
      using read(2) by (auto simp: default_flush_def)
    with Suc.IH[OF b1(2)] run(2) b1(1) Cons show ?thesis by auto
  qed
qed

section \<open>Properties\<close>

lemma bus_serves:
  assumes "bus_ok b" "\<forall>a p. packets b a = Some p \<longrightarrow> packet_wf p"
    and "deref (packets b) (m_cmdPacket b) = Inr c" "deref (packets b) (m_rspPacket b) = Inr r"
    and "e_debug (m_encoder b) = d_debug (m_decoder b)"
  shows "serves (m_maxDataLen c) (m_maxDataLen r) b (receiver_of (m_decoder b) c, d_debug (m_decoder b))"
  using assms by (auto simp: serves_def intro: initial_inv)

text \<open>The bus of the tests, read as often as it has bytes.\<close>

lemma test_bus_hyps:
  "bus_ok (test_bus data)" "\<forall>a p. packets (test_bus data) a = Some p \<longrightarrow> packet_wf p"
  "deref (packets (test_bus data)) (m_cmdPacket (test_bus data)) = Inr (blank_packet 15)"
  "deref (packets (test_bus data)) (m_rspPacket (test_bus data)) = Inr (blank_packet 15)"
  "e_debug (m_encoder (test_bus data)) = d_debug (m_decoder (test_bus data))"
  "d_state (m_decoder (test_bus data)) = D_IDLE"
  using test_bus_inv[of data]
  by (auto simp: bus_inv_def test_bus_def new_bus_def new_encoder_def new_decoder_def deref_ok nullptr_def)

lemma test_bus_serves: "serves 15 15 (test_bus data) (R_Idle, False)"
  using bus_serves[OF test_bus_hyps(1-5)[of data]] by (simp add: new_decoder_def receiver_of_def)

lemma test_bus_input [simp]: "test_input (device (test_bus data)) = data"
  by (simp add: test_input_def)

lemma test_bus_polls:
  assumes "server_run crc m 15 15 data (R_Idle, False) = Inr y"
  shows "\<exists>b'. poll_bus crc test_vt (add (core_handler m) []) (length data) (test_bus data) = Some (data, Inr b')"
  using test_poll_reads[OF test_bus_serves, of "add (core_handler m) []" m crc "length data" data y] assms
  by (simp add: add_def)

text \<open>C8: A device with the core handler refines an abstract server: on any device that loses
  nothing, from any well-formed state of the bus and for any number of turns, the loop of
  \<open>processByte\<close> and \<open>handlePacket\<close> returns; the bytes it has sent are exactly those that the
  server sends for the bytes that were read, whatever bytes these are (frames, damaged frames,
  noise) and however many turns found none; it ends in the state of the server; and it faults
  exactly when the server does, with the same fault.\<close>

theorem core_device_refines_server:
  assumes "serving_device vt sent up" "up (device b)"
    and "bus_ok b" "\<forall>a p. packets b a = Some p \<longrightarrow> packet_wf p"
    and "deref (packets b) (m_cmdPacket b) = Inr c" "deref (packets b) (m_rspPacket b) = Inr r"
    and "e_debug (m_encoder b) = d_debug (m_decoder b)"
  shows "\<exists>got res. poll_bus crc vt (add (core_handler m) []) n b = Some (got, res) \<and>
    (case server_run crc m (getMaxDataLength c) (getMaxDataLength r) got
            (receiver_of (m_decoder b) c, d_debug (m_decoder b)) of
       Inl f \<Rightarrow> res = Inl f
     | Inr (out, s) \<Rightarrow> \<exists>b' c'. res = Inr b' \<and> sent (device b') = sent (device b) @ out \<and>
         deref (packets b') (m_cmdPacket b') = Inr c' \<and>
         s = (receiver_of (m_decoder b') c', d_debug (m_decoder b')) \<and>
         e_debug (m_encoder b') = d_debug (m_decoder b') \<and> bus_ok b')"
proof -
  have hs: "add (core_handler m) [] = [setBus (core_handler m)]" by (simp add: add_def)
  obtain got res where run: "poll_bus crc vt (add (core_handler m) []) n b = Some (got, res)"
    "case server_run crc m (m_maxDataLen c) (m_maxDataLen r) got
        (receiver_of (m_decoder b) c, d_debug (m_decoder b)) of
       Inl f \<Rightarrow> res = Inl f
     | Inr (out, s') \<Rightarrow> \<exists>b'. res = Inr b' \<and> serves (m_maxDataLen c) (m_maxDataLen r) b' s' \<and>
         sent (device b') = sent (device b) @ out \<and> up (device b')"
    using serving_device.poll_serves[OF assms(1) bus_serves[OF assms(3-7)] assms(2) hs, of crc n] by blast
  have "\<exists>c'. deref (packets b') (m_cmdPacket b') = Inr c' \<and>
      s = (receiver_of (m_decoder b') c', d_debug (m_decoder b')) \<and>
      e_debug (m_encoder b') = d_debug (m_decoder b') \<and> bus_ok b'"
    if "serves ccap rcap b' s" for ccap rcap and b' :: "'a bus" and s
    using that by (rule servesE) (auto simp: prod_eq_iff)
  with run show ?thesis
    unfolding getMaxDataLength_def by (fastforce split: sum.splits)
qed

theorem core_device_refines_server_witness:
  "\<exists>b'. poll_bus crc8_poly07 test_vt (add (core_handler host_monitor) []) 5 (test_bus [0xC0, 1, 2, 0x1b, 0xC0])
      = Some ([0xC0, 1, 2, 0x1b, 0xC0], Inr b') \<and>
    m_encodedData (device b') = [0xC0, 1, 2, 0x1b, 0xC0] \<and> bus_ok b'"
proof -
  let ?f = "[0xC0, 1, 2, 0x1b, 0xC0] :: u8 list"
  have run: "server_run crc8_poly07 host_monitor 15 15 ?f (R_Idle, False) = Inr (?f, R_Idle, False)"
    using receive_frame[of "[2]" 15 crc8_poly07 1]
    unfolding ping_frame by (simp add: server_run_messages core_reply_def debug_after_def ping_frame core_commands)
  have len: "length ?f = 5" by simp
  note once = test_bus_polls[OF run, unfolded len]
  show ?thesis
    using core_device_refines_server[OF test_server.serving_device_axioms TrueI test_bus_hyps(1-5)[of ?f],
        of crc8_poly07 host_monitor 5] once run
    by (auto simp: getMaxDataLength_def new_decoder_def receiver_of_def)
qed

text \<open>C18: Requests are answered completely, in order and with nothing else: when the bytes that
  the loop has read are frames whose data fit, with any bytes other than \<open>END\<close> between them,
  and each has a reply (or is a command that is not known, which has none), then the loop has
  sent exactly the frames of the replies, one after the other, and the decoder is idle.\<close>

theorem requests_answered_in_order:
  assumes "serving_device vt sent up" "up (device b)"
    and "bus_ok b" "\<forall>a p. packets b a = Some p \<longrightarrow> packet_wf p"
    and "deref (packets b) (m_cmdPacket b) = Inr c" "deref (packets b) (m_rspPacket b) = Inr r"
    and "e_debug (m_encoder b) = d_debug (m_decoder b)" "d_state (m_decoder b) = D_IDLE"
    and "poll_bus crc vt (add (core_handler m) []) n b = Some (noisy_frames crc ms, res)"
    and "\<forall>(noise, cmd, ds) \<in> set ms. END \<notin> set noise \<and> length ds < getMaxDataLength c"
    and "list_all2 (\<lambda>(noise, cmd, ds) rep. core_reply m (getMaxDataLength r) cmd ds = Inr rep) ms reps"
  shows "\<exists>b'. res = Inr b' \<and> d_state (m_decoder b') = D_IDLE \<and>
    sent (device b') = sent (device b) @ concat (map (reply_bytes crc) reps)"
proof -
  have hs: "add (core_handler m) [] = [setBus (core_handler m)]" by (simp add: add_def)
  let ?s = "(receiver_of (m_decoder b) c, d_debug (m_decoder b))"
  have idle: "receiver_of (m_decoder b) c = R_Idle"
    using assms(8) by (simp add: receiver_of_def)
  have fit: "\<forall>(noise, cmd, ds) \<in> set ms. END \<notin> set noise \<and> length ds < m_maxDataLen c"
    using assms(10) by (simp add: getMaxDataLength_def)
  have "list_all2 (\<lambda>(cmd, ds) rep. core_reply m (m_maxDataLen r) cmd ds = Inr rep) (map snd ms) reps"
    using assms(11) unfolding list_all2_map1 getMaxDataLength_def by (rule list_all2_mono) auto
  then obtain dbg' where "server_answers crc m (m_maxDataLen r) (map snd ms) (d_debug (m_decoder b))
      = Inr (concat (map (reply_bytes crc) reps), dbg')"
    using server_answers_all by blast
  then have "server_run crc m (m_maxDataLen c) (m_maxDataLen r) (noisy_frames crc ms) ?s
      = Inr (concat (map (reply_bytes crc) reps), R_Idle, dbg')"
    using receive_noisy_frames[OF fit, of crc] by (simp add: server_run_messages idle)
  with serving_device.poll_serves[OF assms(1) bus_serves[OF assms(3-7)] assms(2) hs, of crc n] assms(9)
  obtain b' where b': "res = Inr b'" "serves (m_maxDataLen c) (m_maxDataLen r) b' (R_Idle, dbg')"
    "sent (device b') = sent (device b) @ concat (map (reply_bytes crc) reps)"
    by auto
  have "d_state (m_decoder b') = D_IDLE"
    using b'(2) by (rule servesE) (simp add: receiver_idle)
  with b'(1,3) show ?thesis by blast
qed

text \<open>A ping, noise, a command that is not known, and another ping.\<close>

theorem requests_answered_in_order_witness:
  "\<exists>b'. poll_bus crc8_poly07 test_vt (add (core_handler host_monitor) [])
      (length (noisy_frames crc8_poly07 [([], 1, [2]), ([7, 8], 9, [3]), ([], 1, [2])]))
      (test_bus (noisy_frames crc8_poly07 [([], 1, [2]), ([7, 8], 9, [3]), ([], 1, [2])]))
    = Some (noisy_frames crc8_poly07 [([], 1, [2]), ([7, 8], 9, [3]), ([], 1, [2])], Inr b') \<and>
    m_encodedData (device b') = [0xC0, 1, 2, 0x1b, 0xC0, 0xC0, 1, 2, 0x1b, 0xC0]"
proof -
  let ?ms = "[([], 1, [2]), ([7, 8], 9, [3]), ([], 1, [2])] :: (u8 list \<times> u8 \<times> u8 list) list"
  let ?reps = "[Some (1, [2]), None, Some (1, [2])] :: (u8 \<times> u8 list) option list"
  let ?bs = "noisy_frames crc8_poly07 ?ms"
  have fit: "\<forall>(noise, cmd, ds) \<in> set ?ms. END \<notin> set noise \<and> length ds < 15"
    by (simp add: END_def)
  have replies: "list_all2 (\<lambda>(noise, cmd, ds) rep. core_reply host_monitor 15 cmd ds = Inr rep) ?ms ?reps"
    by (simp add: core_reply_def core_commands)
  have "list_all2 (\<lambda>(cmd, ds) rep. core_reply host_monitor 15 cmd ds = Inr rep) (map snd ?ms) ?reps"
    using replies by simp
  then obtain dbg' where "server_answers crc8_poly07 host_monitor 15 (map snd ?ms) False
      = Inr (concat (map (reply_bytes crc8_poly07) ?reps), dbg')"
    using server_answers_all by blast
  then have "server_run crc8_poly07 host_monitor 15 15 ?bs (R_Idle, False)
      = Inr (concat (map (reply_bytes crc8_poly07) ?reps), R_Idle, dbg')"
    using receive_noisy_frames[OF fit, of crc8_poly07] unfolding server_run_messages by simp
  from test_bus_polls[OF this] obtain b' where polls: "poll_bus crc8_poly07 test_vt (add (core_handler host_monitor) [])
      (length ?bs) (test_bus ?bs) = Some (?bs, Inr b')" by blast
  have "\<exists>b2. Inr b' = (Inr b2 :: test_device bus res) \<and> d_state (m_decoder b2) = D_IDLE \<and>
      m_encodedData (device b2) = m_encodedData (device (test_bus ?bs)) @ concat (map (reply_bytes crc8_poly07) ?reps)"
    using requests_answered_in_order[OF test_server.serving_device_axioms TrueI test_bus_hyps[of ?bs] polls]
      fit replies by (simp only: getMaxDataLength_def blank_packet_fields)
  with polls show ?thesis
    by (simp add: ping_frame)
qed

end
