(* ===== verification/Py_System.thy ===== *)
theory Py_System
  imports Py_Link Core_Server
begin

text \<open>
  A host and a device: a Python bus and a C++ bus connected by the buffers of their test
  buses, each reading what the other has written.
\<close>

section \<open>What the host has written\<close>

lemma tst_writes_det:
  "py_writes tst_vt s bs s' \<Longrightarrow> s' = s\<lparr>rsp_data := rsp_data s @ bs\<rparr>"
proof (induction bs arbitrary: s)
  case (Cons b bs)
  then show ?case
    by (fastforce simp: tst_vt_def tst_write_byte_def bytearray_append_def)
qed simp

lemma tst_write_packet:
  assumes "packet_in r (ib_heap b)" "get_command r (ib_heap b) = uint c" "same_crc crc crc_fn"
    and "write_packet crc_fn tst_vt r b = Some (Inr (err, b'))"
  shows "rsp_data (ib_device b') = rsp_data (ib_device b) @ frame_bytes crc c (pkt_data (ib_heap b) r)"
proof -
  let ?f = "frame_bytes crc c (pkt_data (ib_heap b) r)"
  obtain err2 e' h' s' out where w: "write_packet crc_fn tst_vt r b = Some (Inr (err2,
       py_out out (b\<lparr>ib_encoder := e', ib_heap := h', ib_device := s'\<rparr>)))"
    "write_ends tst_vt (ib_device b) ?f err2 s'"
    using write_packet_ends[OF assms(1-3), of tst_vt] tst_write_total by metis
  have "py_writes tst_vt (ib_device b) ?f s'"
    using w(2) by (auto simp: write_ends_def tst_vt_def tst_write_byte_def bytearray_append_def)
  from tst_writes_det[OF this] assms(4) w(1) show ?thesis
    by (auto simp: py_out_def)
qed

section \<open>A ping\<close>

text \<open>A Python host pings a C++ device: the host writes a \<open>PING\<close> packet with any data that
  fit both sides; the device, on which the core handler is registered first, reads the bytes
  that the host has written and handles the packet; the host reads the bytes that the device
  has written. Then \<open>send_command_get_response\<close> returns \<open>NONE\<close> and a \<open>PING\<close> packet with the
  data that the host sent, and both decoders wait for the next frame.\<close>

theorem python_pings_cpp:
  assumes "packet_in r (ib_heap pb)" "get_command r (ib_heap pb) = uint PING" "pkt_data (ib_heap pb) r = ds"
    and "same_crc crc crc_fn" "py_decoder_ok (ib_decoder pb) (ib_heap pb)" "pd_state (ib_decoder pb) = PD_IDLE"
    and "ib_queue pb = []" "ib_device pb = \<lparr>cmd_idx = 0, cmd_data = answer, rsp_data = []\<rparr>"
    and "bus_ok cb" "d_state (m_decoder cb) = D_IDLE" "deref (packets cb) (m_cmdPacket cb) = Inr c"
    and "deref (packets cb) (m_rspPacket cb) = Inr q"
    and "device cb = \<lparr>m_decodeIdx = 0, m_dataToDecode = request, m_encodedData = []\<rparr>"
    and "length ds < m_maxDataLen c" "length ds \<le> m_maxDataLen q" "length ds < MAX_DATA_LEN"
    and "hs = setBus (core_handler m) # others"
    and "write_packet crc_fn tst_vt r pb = Some (Inr (err, pb1))" "request = rsp_data (ib_device pb1)"
    and "process_bytes crc test_vt hs (length request) cb = Inr (errs, cb1)"
    and "handlePacket crc test_vt hs cb1 = Some (Inr (ok, cb2))" "answer = m_encodedData (device cb2)"
  shows "\<exists>rsp pb2. send_command_get_response crc_fn tst_vt r (input_polls (length answer) pb @ polls) Running pb
      = Some (Inr ((ErrorCode_NONE, Some rsp), Running, pb2)) \<and>
    get_command rsp (ib_heap pb2) = uint PING \<and> pkt_data (ib_heap pb2) rsp = ds \<and>
    ok \<and> d_state (m_decoder cb2) = D_IDLE"
proof -
  have request: "request = frame_bytes crc PING ds"
    using tst_write_packet[OF assms(1,2,4,18)] assms(3,8,19) by simp
  have reads: "reads test_vt (device cb) (frame_bytes crc PING ds) ((device cb)\<lparr>m_decodeIdx := length request\<rparr>)"
    using test_reads[of request "device cb"] assms(13) request by simp
  from ping_answered[OF assms(9-11,14,12,15) reads assms(17)] assms(20,21)[unfolded request]
  have cpp: "ok" "d_state (m_decoder cb2) = D_IDLE"
    "device cb2 = vt_flush test_vt (fold (vt_writeByte test_vt) (frame_bytes crc PING ds)
       ((device cb)\<lparr>m_decodeIdx := length request\<rparr>))"
    by (auto simp: request)
  then have answer: "answer = frame_bytes crc PING ds"
    using assms(13,22) by (simp add: default_flush_def tb.writes_all_sent[simplified])
  have writes: "py_writes tst_vt (ib_device pb) (frame_bytes crc PING (pkt_data (ib_heap pb) r))
      \<lparr>cmd_idx = 0, cmd_data = frame_bytes crc PING ds, rsp_data = frame_bytes crc PING ds\<rparr>"
    using tst_writes[of "ib_device pb"] assms(3,8) answer by simp
  have "PING \<noteq> 0x03" by (simp add: PING_def)
  from command_response[OF assms(1,2,4) tst_bus_idle(4) writes assms(5-7) tst_reads_all tst_bus_idle(4) assms(16) this, of polls]
  show ?thesis
    unfolding answer using cpp(1,2) by blast
qed

text \<open>A host whose packet 1 is a \<open>PING\<close> with the data 2, and the device of the tests.\<close>

definition pinging_bus :: "u8 list \<Rightarrow> py_test_device py_bus" where
  "pinging_bus data = (tst_bus data)\<lparr>ib_heap := \<lparr>hp_arrays = [[], [2]],
     hp_packets = [\<lparr>pk_cmd = 0, pk_data = 0, pk_crc = 0\<rparr>, \<lparr>pk_cmd = 1, pk_data = 1, pk_crc = 0\<rparr>]\<rparr>\<rparr>"

lemma pinging_bus_fields:
  "packet_in 1 (ib_heap (pinging_bus data))" "get_command 1 (ib_heap (pinging_bus data)) = uint PING"
  "pkt_data (ib_heap (pinging_bus data)) 1 = [2]"
  "py_decoder_ok (ib_decoder (pinging_bus data)) (ib_heap (pinging_bus data))"
  "pd_state (ib_decoder (pinging_bus data)) = PD_IDLE" "ib_queue (pinging_bus data) = []"
  "ib_device (pinging_bus data) = \<lparr>cmd_idx = 0, cmd_data = data, rsp_data = []\<rparr>"
  by (auto simp: pinging_bus_def tst_bus_fields packet_in_def heap_ok_def get_command_def pkt_data_def packet_at_def
      array_at_def PING_def py_decoder_ok_def py_new_decoder_def)

theorem python_pings_cpp_witness:
  "\<exists>err pb1 errs cb1 cb2 rsp pb2.
    write_packet py_crc8 tst_vt 1 (pinging_bus (frame_bytes crc8_poly07 PING [2])) = Some (Inr (err, pb1)) \<and>
    process_bytes crc8_poly07 test_vt [setBus (core_handler host_monitor)] (length (rsp_data (ib_device pb1)))
      (test_bus (rsp_data (ib_device pb1))) = Inr (errs, cb1) \<and>
    handlePacket crc8_poly07 test_vt [setBus (core_handler host_monitor)] cb1 = Some (Inr (True, cb2)) \<and>
    m_encodedData (device cb2) = frame_bytes crc8_poly07 PING [2] \<and>
    send_command_get_response py_crc8 tst_vt 1
      (input_polls (length (m_encodedData (device cb2))) (pinging_bus (m_encodedData (device cb2))) @ []) Running
      (pinging_bus (m_encodedData (device cb2))) = Some (Inr ((ErrorCode_NONE, Some rsp), Running, pb2)) \<and>
    get_command rsp (ib_heap pb2) = uint PING \<and> pkt_data (ib_heap pb2) rsp = [2]"
proof -
  let ?F = "frame_bytes crc8_poly07 PING [2]" and ?hs = "[setBus (core_handler host_monitor)]"
  obtain err e' h' s' out where w: "write_packet py_crc8 tst_vt 1 (pinging_bus ?F) = Some (Inr (err,
      py_out out ((pinging_bus ?F)\<lparr>ib_encoder := e', ib_heap := h', ib_device := s'\<rparr>)))"
    using write_packet_ends[OF pinging_bus_fields(1,2) same_crc_poly07, of tst_vt ?F] tst_write_total by metis
  then obtain pb1 where pb1: "write_packet py_crc8 tst_vt 1 (pinging_bus ?F) = Some (Inr (err, pb1))" by blast
  then have request: "?F = rsp_data (ib_device pb1)"
    using tst_write_packet[OF pinging_bus_fields(1,2) same_crc_poly07 pb1] unfolding pinging_bus_fields by simp
  have dev: "device (test_bus ?F) = \<lparr>m_decodeIdx = 0, m_dataToDecode = ?F, m_encodedData = []\<rparr>"
    by (simp add: test_bus_def new_bus_def)
  have at: "deref (packets (test_bus ?F)) (m_cmdPacket (test_bus ?F)) = Inr (blank_packet 15)"
    "deref (packets (test_bus ?F)) (m_rspPacket (test_bus ?F)) = Inr (blank_packet 15)"
    "d_state (m_decoder (test_bus ?F)) = D_IDLE"
    "length [2 :: u8] < m_maxDataLen (blank_packet 15)" "length [2 :: u8] \<le> m_maxDataLen (blank_packet 15)"
    "length [2 :: u8] < MAX_DATA_LEN"
    by (simp_all add: new_decoder_def MAX_DATA_LEN_def)
  obtain cb1 cb2 where cpp:
    "process_bytes crc8_poly07 test_vt ?hs (length ?F) (test_bus ?F)
      = Inr (replicate (length ?F - 1) NOT_DONE @ [NONE], cb1)"
    "handlePacket crc8_poly07 test_vt ?hs cb1 = Some (Inr (True, cb2))"
    "device cb2 = vt_flush test_vt (fold (vt_writeByte test_vt) ?F ((device (test_bus ?F))\<lparr>m_decodeIdx := length ?F\<rparr>))"
    using ping_answered[OF test_bus_ok at(3,1,4,2,5) test_bus_reads refl, of host_monitor "[]"] by blast
  have answer: "?F = m_encodedData (device cb2)"
    using cpp(3) by (simp add: default_flush_def tb.writes_all_sent[simplified])
  obtain rsp pb2 where "send_command_get_response py_crc8 tst_vt 1
      (input_polls (length ?F) (pinging_bus ?F) @ []) Running (pinging_bus ?F)
      = Some (Inr ((ErrorCode_NONE, Some rsp), Running, pb2))"
    "get_command rsp (ib_heap pb2) = uint PING" "pkt_data (ib_heap pb2) rsp = [2]"
    using python_pings_cpp[OF pinging_bus_fields(1,2,3) same_crc_poly07 pinging_bus_fields(4-7) test_bus_ok at(3,1,2) dev
        at(4,5,6) refl pb1 request cpp(1,2) answer, of "[]"] by blast
  with pb1 cpp(1,2) show ?thesis
    unfolding request[symmetric] answer[symmetric] by (metis request answer)
qed

section \<open>Any command of the core handler\<close>

lemma core_reply_command: "core_reply m cap c ds = Inr (Some (c', rs)) \<Longrightarrow> c' \<noteq> 0x03"
  using core_reply_fits[of m cap c ds c' rs] by (auto simp: core_reply_def core_commands)

text \<open>The device reads one frame and answers it.\<close>

lemma device_answers:
  assumes "bus_ok cb" "\<forall>a p. packets cb a = Some p \<longrightarrow> packet_wf p"
    and "deref (packets cb) (m_cmdPacket cb) = Inr cm" "deref (packets cb) (m_rspPacket cb) = Inr q"
    and "e_debug (m_encoder cb) = d_debug (m_decoder cb)" "d_state (m_decoder cb) = D_IDLE"
    and "test_input (device cb) = frame_bytes crc c ds" "length ds < m_maxDataLen cm"
    and "core_reply m (m_maxDataLen q) c ds = Inr rep"
  shows "\<exists>cb'. poll_bus crc test_vt (add (core_handler m) []) (length (frame_bytes crc c ds)) cb
      = Some (frame_bytes crc c ds, Inr cb') \<and>
    m_encodedData (device cb') = m_encodedData (device cb) @ reply_bytes crc rep \<and> d_state (m_decoder cb') = D_IDLE"
proof -
  let ?f = "frame_bytes crc c ds" and ?hs = "add (core_handler m) [] :: test_device handler list"
  have hs: "?hs = [setBus (core_handler m)]" by (simp add: add_def)
  have sv: "serves (m_maxDataLen cm) (m_maxDataLen q) cb (R_Idle, d_debug (m_decoder cb))"
    using bus_serves[OF assms(1-5)] assms(6) by (simp add: receiver_of_def)
  have run: "server_run crc m (m_maxDataLen cm) (m_maxDataLen q) ?f (R_Idle, d_debug (m_decoder cb))
      = Inr (reply_bytes crc rep, R_Idle, debug_after c ds (d_debug (m_decoder cb)))"
    using receive_frame[OF assms(8), of crc c] assms(9) by (simp add: server_run_messages)
  obtain cb' where polls: "poll_bus crc test_vt ?hs (length ?f) cb = Some (?f, Inr cb')"
    using test_poll_reads[OF sv hs, of crc "length ?f"] run assms(7) by auto
  obtain b2 where "serves (m_maxDataLen cm) (m_maxDataLen q) b2 (R_Idle, debug_after c ds (d_debug (m_decoder cb)))"
    "m_encodedData (device b2) = m_encodedData (device cb) @ reply_bytes crc rep" "b2 = cb'"
    using test_server.poll_serves[OF sv TrueI hs, of crc "length ?f"] polls run by auto
  moreover from this(1) have "d_state (m_decoder b2) = D_IDLE"
    by (rule servesE) (simp add: receiver_idle)
  ultimately show ?thesis using polls by blast
qed

text \<open>C7: A Python host and a C++ device: the host writes a command with any data that fit both
  sides; the device, in whose loop the core handler answers, reads the bytes that the host has
  written; the host reads the bytes that the device has written. Whenever the core handler has
  a reply to the command (an echo, the debug flags, the words of the stack or heap monitor),
  \<open>send_command_get_response\<close> returns \<open>NONE\<close> and a packet with the command and the data of this
  reply, and both decoders wait for the next frame.\<close>

theorem python_queries_cpp:
  assumes "packet_in r (ib_heap pb)" "get_command r (ib_heap pb) = uint c" "pkt_data (ib_heap pb) r = ds"
    and "same_crc crc crc_fn" "py_decoder_ok (ib_decoder pb) (ib_heap pb)" "pd_state (ib_decoder pb) = PD_IDLE"
    and "ib_queue pb = []" "ib_device pb = \<lparr>cmd_idx = 0, cmd_data = answer, rsp_data = []\<rparr>"
    and "bus_ok cb" "\<forall>a p. packets cb a = Some p \<longrightarrow> packet_wf p"
    and "deref (packets cb) (m_cmdPacket cb) = Inr cm" "deref (packets cb) (m_rspPacket cb) = Inr q"
    and "e_debug (m_encoder cb) = d_debug (m_decoder cb)" "d_state (m_decoder cb) = D_IDLE"
    and "device cb = \<lparr>m_decodeIdx = 0, m_dataToDecode = request, m_encodedData = []\<rparr>"
    and "length ds < getMaxDataLength cm" "core_reply m (getMaxDataLength q) c ds = Inr (Some (c', rs))"
    and "length rs < MAX_DATA_LEN"
    and "write_packet crc_fn tst_vt r pb = Some (Inr (err, pb1))" "request = rsp_data (ib_device pb1)"
    and "poll_bus crc test_vt (add (core_handler m) []) (length request) cb = Some (got, res)"
    and "\<forall>cb'. res = Inr cb' \<longrightarrow> answer = m_encodedData (device cb')"
  shows "\<exists>cb' rsp pb'. res = Inr cb' \<and> got = request \<and> d_state (m_decoder cb') = D_IDLE \<and>
    send_command_get_response crc_fn tst_vt r (input_polls (length answer) pb @ polls) Running pb
      = Some (Inr ((ErrorCode_NONE, Some rsp), Running, pb')) \<and>
    get_command rsp (ib_heap pb') = uint c' \<and> pkt_data (ib_heap pb') rsp = rs"
proof -
  have request: "request = frame_bytes crc c ds"
    using tst_write_packet[OF assms(1,2,4,19)] assms(3,8,20) by simp
  have input: "test_input (device cb) = frame_bytes crc c ds"
    using assms(15) request by (simp add: test_input_def)
  obtain cb' where cpp: "poll_bus crc test_vt (add (core_handler m) []) (length request) cb = Some (request, Inr cb')"
    "m_encodedData (device cb') = frame_bytes crc c' rs" "d_state (m_decoder cb') = D_IDLE"
    using device_answers[OF assms(9-14) input, of m "Some (c', rs)"] assms(15-17)
    unfolding request getMaxDataLength_def by auto
  have res: "res = Inr cb'" "got = request"
    using assms(21) cpp(1) by simp_all
  have answer: "answer = frame_bytes crc c' rs"
    using assms(22) res(1) cpp(2) by simp
  have writes: "py_writes tst_vt (ib_device pb) (frame_bytes crc c (pkt_data (ib_heap pb) r))
      \<lparr>cmd_idx = 0, cmd_data = frame_bytes crc c' rs, rsp_data = frame_bytes crc c ds\<rparr>"
    using tst_writes[of "ib_device pb"] assms(3,8) answer by simp
  from command_response[OF assms(1,2,4) tst_bus_idle(4) writes assms(5-7) tst_reads_all tst_bus_idle(4) assms(18)
      core_reply_command[OF assms(17)], of polls]
  show ?thesis
    unfolding answer using cpp(3) res by blast
qed

text \<open>A host whose packet 1 asks for the stack; the device of the tests has no stack monitor.\<close>

definition asking_bus :: "u8 list \<Rightarrow> py_test_device py_bus" where
  "asking_bus data = (tst_bus data)\<lparr>ib_heap := \<lparr>hp_arrays = [[], []],
     hp_packets = [\<lparr>pk_cmd = 0, pk_data = 0, pk_crc = 0\<rparr>, \<lparr>pk_cmd = 4, pk_data = 1, pk_crc = 0\<rparr>]\<rparr>\<rparr>"

lemma asking_bus_fields:
  "packet_in 1 (ib_heap (asking_bus data))" "get_command 1 (ib_heap (asking_bus data)) = uint STACK_INFO"
  "pkt_data (ib_heap (asking_bus data)) 1 = []"
  "py_decoder_ok (ib_decoder (asking_bus data)) (ib_heap (asking_bus data))"
  "pd_state (ib_decoder (asking_bus data)) = PD_IDLE" "ib_queue (asking_bus data) = []"
  "ib_device (asking_bus data) = \<lparr>cmd_idx = 0, cmd_data = data, rsp_data = []\<rparr>"
  by (auto simp: asking_bus_def tst_bus_fields packet_in_def heap_ok_def get_command_def pkt_data_def packet_at_def
      array_at_def STACK_INFO_def py_decoder_ok_def py_new_decoder_def)

theorem python_queries_cpp_witness:
  "\<exists>err pb1 cb' rsp pb'.
    write_packet py_crc8 tst_vt 1 (asking_bus (frame_bytes crc8_poly07 STACK_INFO (replicate 12 0))) = Some (Inr (err, pb1)) \<and>
    poll_bus crc8_poly07 test_vt (add (core_handler host_monitor) []) (length (frame_bytes crc8_poly07 STACK_INFO []))
      (test_bus (rsp_data (ib_device pb1))) = Some (frame_bytes crc8_poly07 STACK_INFO [], Inr cb') \<and>
    m_encodedData (device cb') = frame_bytes crc8_poly07 STACK_INFO (replicate 12 0) \<and>
    send_command_get_response py_crc8 tst_vt 1 (input_polls (length (m_encodedData (device cb')))
        (asking_bus (m_encodedData (device cb'))) @ []) Running (asking_bus (m_encodedData (device cb')))
      = Some (Inr ((ErrorCode_NONE, Some rsp), Running, pb')) \<and>
    get_command rsp (ib_heap pb') = uint STACK_INFO \<and> pkt_data (ib_heap pb') rsp = replicate 12 0"
proof -
  let ?Q = "frame_bytes crc8_poly07 STACK_INFO []" and ?A = "frame_bytes crc8_poly07 STACK_INFO (replicate 12 0)"
  let ?host = "asking_bus ?A"
  obtain err e' h' s' out where "write_packet py_crc8 tst_vt 1 ?host = Some (Inr (err,
      py_out out (?host\<lparr>ib_encoder := e', ib_heap := h', ib_device := s'\<rparr>)))"
    using write_packet_ends[OF asking_bus_fields(1,2) same_crc_poly07, of tst_vt ?A] tst_write_total by metis
  then obtain pb1 where pb1: "write_packet py_crc8 tst_vt 1 ?host = Some (Inr (err, pb1))" by blast
  then have request: "?Q = rsp_data (ib_device pb1)"
    using tst_write_packet[OF asking_bus_fields(1,2) same_crc_poly07 pb1] unfolding asking_bus_fields by simp
  have dev: "device (test_bus ?Q) = \<lparr>m_decodeIdx = 0, m_dataToDecode = ?Q, m_encodedData = []\<rparr>"
    by (simp add: test_bus_def new_bus_def)
  have fit: "length ([] :: u8 list) < getMaxDataLength (blank_packet 15)"
    "length (replicate 12 (0 :: u8)) < MAX_DATA_LEN"
    by (simp_all add: getMaxDataLength_def MAX_DATA_LEN_def)
  have words: "words_reply 15 STACK_INFO (stack_words host_monitor) = Inr (Some (STACK_INFO, replicate 12 0))"
  proof -
    have zeros: "concat (map (le_bytes 4) [0, 0, 0 :: u32]) = replicate 12 0" by (simp add: numeral_eq_Suc)
    have off: "stack_words host_monitor = [0, 0, 0]" by (simp add: stack_words_def host_monitor_def)
    show ?thesis unfolding words_reply_def off zeros by simp
  qed
  have reply: "core_reply host_monitor (getMaxDataLength (blank_packet 15)) STACK_INFO [] = Inr (Some (STACK_INFO, replicate 12 0))"
    using words by (simp add: core_reply_def core_commands getMaxDataLength_def)
  have "length ([] :: u8 list) < m_maxDataLen (blank_packet 15)" by simp
  from device_answers[OF test_bus_hyps test_bus_input this reply[unfolded getMaxDataLength_def]]
  obtain cb' where cb': "poll_bus crc8_poly07 test_vt (add (core_handler host_monitor) []) (length ?Q) (test_bus ?Q)
      = Some (?Q, Inr cb')" "m_encodedData (device cb') = ?A"
    by (auto simp: dev)
  have answer: "\<forall>b. (Inr cb' :: test_device bus res) = Inr b \<longrightarrow> ?A = m_encodedData (device b)"
    using cb'(2) by simp
  obtain rsp pb' where "send_command_get_response py_crc8 tst_vt 1 (input_polls (length ?A) ?host @ []) Running ?host
      = Some (Inr ((ErrorCode_NONE, Some rsp), Running, pb'))"
    "get_command rsp (ib_heap pb') = uint STACK_INFO" "pkt_data (ib_heap pb') rsp = replicate 12 0"
    using python_queries_cpp[OF asking_bus_fields(1,2,3) same_crc_poly07 asking_bus_fields(4-7) test_bus_hyps dev
        fit(1) reply fit(2) pb1 request cb'(1) answer, of "[]"] by blast
  with pb1 cb' show ?thesis
    unfolding request[symmetric] by (metis request)
qed

end
