(* ===== verification/Usb_Callbacks.thy ===== *)
theory Usb_Callbacks
  imports Serial_Buses
begin

text \<open>
  \<open>writePacket\<close> while other code touches the device between two bytes, as TinyUSB does when it
  calls \<open>tud_cdc_line_state_cb\<close> because the host has opened or closed the port.
\<close>

section \<open>The loop of \<open>writePacket\<close>, one turn at a time\<close>

text \<open>
  A step is a turn of the loop, the flush behind it, or what the environment \<open>env\<close> does to the
  device. \<open>h\<close> holds the packets.
\<close>

datatype write_phase = Encoding encoder "u8 option" | Flushing error | Finished error

inductive write_step ::
    "crc_fns \<Rightarrow> 's bus_vt \<Rightarrow> ('s \<Rightarrow> 's \<Rightarrow> bool) \<Rightarrow> packet_store \<Rightarrow> 's \<times> write_phase \<Rightarrow> 's \<times> write_phase \<Rightarrow> bool"
  for crc vt env h where
  turn: "encodeByte crc h e byte = Inr (err, e', Some x) \<Longrightarrow>
    write_step crc vt env h (s, Encoding e byte)
      (vt_writeByte vt x s, if err = NOT_DONE then Encoding e' (Some x) else Flushing err)"
| flush: "write_step crc vt env h (s, Flushing err) (vt_flush vt s, Finished err)"
| disturbed: "env s s' \<Longrightarrow> write_step crc vt env h (s, ph) (s', ph)"

text \<open>Without an environment the steps are those of \<open>write_loop\<close>.\<close>

lemma write_loop_steps:
  assumes "write_loop crc vt h e byte s = Some (Inr (err, e', s'))"
  shows "rtranclp (write_step crc vt (\<lambda>_ _. False) h) (s, Encoding e byte) (s', Flushing err)"
proof -
  have "\<forall>err e' s'. r = Inr (err, e', s') \<longrightarrow>
      rtranclp (write_step crc vt (\<lambda>_ _. False) h) (s, Encoding e byte) (s', Flushing err)"
    if "write_loop crc vt h e byte s = Some r" for r
    using that
  proof (induction crc vt h e byte s r rule: write_loop.raw_induct[rotated, consumes 1, case_names step])
    case (step self crc vt h e byte s r)
    obtain err1 e1 x where enc: "encodeByte crc h e byte = Inr (err1, e1, Some x)" if "\<exists>y. r = Inr y"
      using step(2) by (auto split: sum.splits option.splits)
    show ?case
    proof (intro allI impI)
      fix err e' s' assume r: "r = Inr (err, e', s')"
      let ?step = "write_step crc vt (\<lambda>_ _. False) h"
      have enc: "encodeByte crc h e byte = Inr (err1, e1, Some x)"
        using enc r by blast
      show "rtranclp ?step (s, Encoding e byte) (s', Flushing err)"
      proof (cases "err1 = NOT_DONE")
        case True
        then have "self crc vt h e1 (Some x) (vt_writeByte vt x s) = Some r"
          using step(2) enc by simp
        from step(1)[OF this] r have "rtranclp ?step (vt_writeByte vt x s, Encoding e1 (Some x)) (s', Flushing err)"
          by blast
        moreover have "?step (s, Encoding e byte) (vt_writeByte vt x s, Encoding e1 (Some x))"
          using write_step.turn[OF enc, of vt _ s] True by simp
        ultimately show ?thesis
          by (rule converse_rtranclp_into_rtranclp[rotated])
      next
        case False
        then have "s' = vt_writeByte vt x s" "err = err1"
          using step(2) enc r by simp_all
        with write_step.turn[OF enc, of vt _ s] False show ?thesis
          by (metis r_into_rtranclp)
      qed
    qed
  qed
  with assms show ?thesis by blast
qed

text \<open>The bytes the loop has not handed to the device yet.\<close>

fun phase_owed :: "crc_fns \<Rightarrow> packet \<Rightarrow> write_phase \<Rightarrow> u8 list" where
  "phase_owed crc p (Encoding e byte) = owed crc p e"
| "phase_owed crc p ph = []"

fun phase_ok :: "packet_store \<Rightarrow> packet \<Rightarrow> write_phase \<Rightarrow> bool" where
  "phase_ok h p (Encoding e byte) = encoder_at h e p"
| "phase_ok h p (Flushing err) = (err = NONE)"
| "phase_ok h p (Finished err) = (err = NONE)"

definition handed_inv ::
    "crc_fns \<Rightarrow> packet_store \<Rightarrow> packet \<Rightarrow> ('s \<Rightarrow> u8 list) \<Rightarrow> ('s \<Rightarrow> bool) \<Rightarrow> u8 list \<Rightarrow> u8 list \<Rightarrow> bool \<Rightarrow>
     's \<times> write_phase \<Rightarrow> bool" where
  "handed_inv crc h p sent up frame old steady x \<longleftrightarrow>
     (case x of (s, ph) \<Rightarrow> phase_ok h p ph \<and>
       (\<exists>handed xs. frame = handed @ phase_owed crc p ph \<and> sent s = old @ xs \<and> subseq xs handed \<and>
          (steady \<longrightarrow> up s \<and> xs = handed)))"

locale disturbed_device = lossless_device vt sent up
  for vt :: "'s bus_vt" and sent :: "'s \<Rightarrow> u8 list" and up :: "'s \<Rightarrow> bool" +
  fixes env :: "'s \<Rightarrow> 's \<Rightarrow> bool"
  assumes env_sent: "env s s' \<Longrightarrow> sent s' = sent s"
    and env_up: "env s s' \<Longrightarrow> up s \<Longrightarrow> up s'"
begin

lemma step_inv:
  assumes "write_step crc vt env h x y" "handed_inv crc h p sent up frame old steady x"
  shows "handed_inv crc h p sent up frame old steady y"
  using assms
proof (induction rule: write_step.induct)
  case (turn e byte err e' x s)
  then have at: "encoder_at h e p" by (simp add: handed_inv_def)
  obtain rest where rest: "owed crc p e = x # rest"
    "if rest = [] then err = NONE \<and> e_state e' = E_IDLE else err = NOT_DONE \<and> encoder_at h e' p \<and> owed crc p e' = rest"
    using encodeByte_owed[OF at, of crc byte] turn(1) by auto
  let ?ph = "if err = NOT_DONE then Encoding e' (Some x) else Flushing err"
  have ph: "phase_ok h p ?ph" "phase_owed crc p ?ph = rest"
    using rest(2) by (auto split: if_splits)
  obtain handed xs where inv: "frame = handed @ x # rest" "sent s = old @ xs" "subseq xs handed" "steady \<longrightarrow> up s \<and> xs = handed"
    using turn(2) rest(1) by (auto simp: handed_inv_def)
  let ?s = "vt_writeByte vt x s"
  have "\<exists>ys. sent ?s = old @ ys \<and> subseq ys (handed @ [x]) \<and> (steady \<longrightarrow> up ?s \<and> ys = handed @ [x])"
  proof (cases steady)
    case True
    with up_write[of s x] inv show ?thesis by auto
  next
    case False
    from write_sent[of x s] inv(2,3) show ?thesis
      using False subseq_append_le_same_iff by (auto intro: list_emb_append_mono[of _ xs handed "[x]" "[x]"] list_emb_append2)
  qed
  then show ?case
    unfolding handed_inv_def prod.case using ph inv(1)
    by (metis append.assoc append_Cons append_Nil)
next
  case (flush s err)
  then show ?case by (auto simp: handed_inv_def flush_sent up_flush)
next
  case (disturbed s s' ph)
  then show ?case by (auto simp: handed_inv_def env_sent env_up)
qed

lemma run_inv:
  "rtranclp (write_step crc vt env h) x y \<Longrightarrow> handed_inv crc h p sent up frame old steady x \<Longrightarrow>
     handed_inv crc h p sent up frame old steady y"
  by (induction rule: rtranclp_induct) (auto intro: step_inv)

end

section \<open>The callback of TinyUSB\<close>

text \<open>Control line messages for which \<open>allowed\<close> holds of the interface and the DTR line.\<close>

definition line_events :: "(u8 \<Rightarrow> bool \<Rightarrow> bool) \<Rightarrow> pico \<Rightarrow> pico \<Rightarrow> bool" where
  "line_events allowed s s' \<longleftrightarrow> (\<exists>i dtr rts. allowed i dtr \<and> s' = tud_cdc_line_state_cb i dtr rts s)"

definition stays_open :: "(u8 \<Rightarrow> bool \<Rightarrow> bool) \<Rightarrow> usb \<Rightarrow> pico \<Rightarrow> bool" where
  "stays_open allowed w s \<longleftrightarrow> pico_isConnected s \<and> usb_takes_all w \<and> (\<forall>dtr. allowed (m_intf s) dtr \<longrightarrow> dtr)"

interpretation usb_beside: disturbed_device "pico_vt w" "\<lambda>s. taken w usb_bytes (usb_calls s)"
    "stays_open allowed w" "line_events allowed" for w allowed
  by unfold_locales
    (auto simp: stays_open_def line_events_def line_state_connected pico_vt_def pico_writeByte_def pico_flush_def
      usb_takes_all_def)

section \<open>Properties\<close>

text \<open>C39: The port may be opened and closed while a packet is written: whatever control line
  messages arrive between the bytes, in every reachable state the bytes handed out so far are
  the beginning of the frame, those sent are some of them, in order, and \<open>writePacket\<close> can go on
  or ends with \<open>NONE\<close> after the whole frame has been handed out; nothing is lost when the port
  is open from the start, no message closes it, and TinyUSB takes every byte.\<close>

theorem usb_write_beside_callbacks:
  assumes "deref (packets b) a = Inr p" "packet_wf p"
    and "encodeStart crc (Some (bus_as_str hs)) a (m_encoder b) (packets b) = Inr (e, h, log)"
    and "rtranclp (write_step crc (pico_vt w) (line_events allowed) h) (device b, Encoding e None) (s, ph)"
  shows "\<exists>handed left xs. frame_bytes crc (getCommand p) (contents p) = handed @ left \<and>
    taken w usb_bytes (usb_calls s) = taken w usb_bytes (usb_calls (device b)) @ xs \<and> subseq xs handed \<and>
    (stays_open allowed w (device b) \<longrightarrow> xs = handed) \<and>
    (case ph of
       Encoding e' byte \<Rightarrow> left \<noteq> [] \<and> (\<exists>err e''. encodeByte crc h e' byte = Inr (err, e'', Some (hd left)))
     | Flushing err \<Rightarrow> left = [] \<and> err = NONE
     | Finished err \<Rightarrow> left = [] \<and> err = NONE)"
proof -
  let ?sent = "\<lambda>s. taken w usb_bytes (usb_calls s)" and ?q = "with_crc crc p"
  let ?frame = "frame_bytes crc (getCommand p) (contents p)" and ?steady = "stays_open allowed w (device b)"
  have start: "encoder_at h e ?q" "owed crc ?q e = ?frame"
    using encodeStart_wf[OF assms(1,2), of crc "Some (bus_as_str hs)" "m_encoder b"] assms(3)
    by (auto simp: getCommand_def)
  then have "handed_inv crc h ?q ?sent (stays_open allowed w) ?frame (?sent (device b)) ?steady (device b, Encoding e None)"
    by (simp add: handed_inv_def)
  from usb_beside.run_inv[OF assms(4) this] obtain handed xs where inv: "phase_ok h ?q ph"
    "?frame = handed @ phase_owed crc ?q ph" "?sent s = ?sent (device b) @ xs" "subseq xs handed" "?steady \<longrightarrow> xs = handed"
    by (auto simp: handed_inv_def)
  show ?thesis
  proof (intro exI conjI)
    show "?frame = handed @ phase_owed crc ?q ph" "?sent s = ?sent (device b) @ xs" "subseq xs handed"
      "?steady \<longrightarrow> xs = handed"
      by (fact inv(2-5))+
    show "case ph of
        Encoding e' byte \<Rightarrow> phase_owed crc ?q ph \<noteq> [] \<and>
          (\<exists>err e''. encodeByte crc h e' byte = Inr (err, e'', Some (hd (phase_owed crc ?q ph))))
      | Flushing err \<Rightarrow> phase_owed crc ?q ph = [] \<and> err = NONE
      | Finished err \<Rightarrow> phase_owed crc ?q ph = [] \<and> err = NONE"
    proof (cases ph)
      case (Encoding e' byte)
      with inv(1) encodeByte_owed[of h e' ?q crc byte] show ?thesis by auto
    qed (use inv(1) in auto)
  qed
qed

text \<open>The host closes the port after the first byte.\<close>

theorem usb_write_beside_callbacks_witness:
  "\<exists>e h log s1 s2 e1 x handed left xs.
    encodeStart crc8_poly07 (Some (bus_as_str ([] :: pico handler list))) 5 (new_encoder 0) [5 \<mapsto> sample_packet] = Inr (e, h, log) \<and>
    write_step crc8_poly07 (pico_vt eager_usb) (line_events (\<lambda>_ _. True)) h
      (line_states [(2, True, False)] (new_pico 2), Encoding e None) (s1, Encoding e1 x) \<and>
    s2 = tud_cdc_line_state_cb 2 False False s1 \<and> \<not> pico_isConnected s2 \<and>
    frame_bytes crc8_poly07 1 [2] = handed @ left \<and> taken eager_usb usb_bytes (usb_calls s2) = xs \<and> subseq xs handed \<and>
    left \<noteq> []"
proof -
  let ?s = "line_states [(2, True, False)] (new_pico 2)" and ?vt = "pico_vt eager_usb"
  let ?b = "new_bus 5 6 0 0 [5 \<mapsto> sample_packet] ?s 0" and ?env = "line_events (\<lambda>_ _. True)"
  have b: "deref (packets ?b) 5 = Inr sample_packet" "device ?b = ?s" "m_encoder ?b = new_encoder 0"
    "packets ?b = [5 \<mapsto> sample_packet]" "usb_calls ?s = []"
    by (simp_all add: new_bus_def deref_ok nullptr_def line_states_def new_pico_def)
  obtain e h log where start: "encodeStart crc8_poly07 (Some (bus_as_str ([] :: pico handler list))) 5 (m_encoder ?b) (packets ?b) = Inr (e, h, log)"
    "encoder_at h e (with_crc crc8_poly07 sample_packet)"
    "owed crc8_poly07 (with_crc crc8_poly07 sample_packet) e = frame_bytes crc8_poly07 1 [2]"
    using encodeStart_wf[OF b(1) sample_packet_props(1), of crc8_poly07 "Some (bus_as_str ([] :: pico handler list))" "m_encoder ?b"]
    by (metis sample_packet_props(2,3))
  obtain e1 x where enc: "encodeByte crc8_poly07 h e None = Inr (NOT_DONE, e1, Some x)"
    using encodeByte_owed[OF start(2), of crc8_poly07 None] unfolding start(3) ping_frame
    by (auto split: if_splits)
  let ?s1 = "vt_writeByte ?vt x ?s"
  let ?s2 = "tud_cdc_line_state_cb 2 False False ?s1"
  have one: "write_step crc8_poly07 ?vt ?env h (?s, Encoding e None) (?s1, Encoding e1 (Some x))"
    using write_step.turn[OF enc, of ?vt ?env ?s] by simp
  have two: "write_step crc8_poly07 ?vt ?env h (?s1, Encoding e1 (Some x)) (?s2, Encoding e1 (Some x))"
    by (rule write_step.disturbed) (auto simp: line_events_def)
  have run: "rtranclp (write_step crc8_poly07 ?vt ?env h) (device ?b, Encoding e None) (?s2, Encoding e1 (Some x))"
    unfolding b(2) by (rule rtranclp.rtrancl_into_rtrancl[OF r_into_rtranclp[of "write_step crc8_poly07 ?vt ?env h", OF one] two])
  have closed: "\<not> pico_isConnected ?s2"
    by (simp add: line_state_connected pico_vt_def pico_writeByte_def line_states_def new_pico_def)
  obtain handed left xs where sent: "frame_bytes crc8_poly07 1 [2] = handed @ left" "left \<noteq> []"
    "taken eager_usb usb_bytes (usb_calls ?s2) = xs" "subseq xs handed"
    using usb_write_beside_callbacks[OF b(1) sample_packet_props(1) start(1) run]
    by (auto simp: getCommand_def sample_packet_props b)
  show ?thesis
    by (rule exI[of _ e], rule exI[of _ h], rule exI[of _ log], rule exI[of _ ?s1], rule exI[of _ ?s2],
        rule exI[of _ e1], rule exI[of _ "Some x"], rule exI[of _ handed], rule exI[of _ left], rule exI[of _ xs])
      (intro conjI start(1)[unfolded b(3,4)] one refl closed sent)
qed

end
