(* ===== verification/Py_Threads.thy ===== *)
theory Py_Threads
  imports Py_Buses
begin

text \<open>
  The receiving thread and its caller at the same time. What a step of the thread leaves
  alone is stated as a relation between buses, its guarantee; a call of \<open>write_packet\<close> that
  is interleaved with the thread in any way relies on nothing else.
\<close>

section \<open>What reading leaves alone\<close>

text \<open>
  Only the packet \<open>r\<close> is written; it keeps its bytearray or gets a new one, and no other
  bytearray changes.
\<close>

definition private_kept :: "ref \<Rightarrow> py_heap \<Rightarrow> py_heap \<Rightarrow> bool" where
  "private_kept r h h' \<longleftrightarrow> packet_in r h' \<and> others_kept r h h' \<and>
     (pk_data (packet_at h' r) = pk_data (packet_at h r) \<or> length (hp_arrays h) \<le> pk_data (packet_at h' r))"

lemma private_kept_refl: "packet_in r h \<Longrightarrow> private_kept r h h"
  by (simp add: private_kept_def others_kept_def)

lemma private_kept_trans:
  assumes "private_kept r h1 h2" "private_kept r h2 h3"
  shows "private_kept r h1 h3"
  using assms unfolding private_kept_def others_kept_def by (auto dest: le_trans)

lemma private_kept_new_array: "packet_in r h \<Longrightarrow> private_kept r h (snd (new_array bs h))"
  by (auto simp: private_kept_def others_kept_def packet_in_def heap_ok_new_array)

lemma private_kept_write_array:
  "packet_in r h \<Longrightarrow> private_kept r h (write_array (pk_data (packet_at h r)) bs h)"
  by (auto simp: private_kept_def others_kept_def packet_in_def heap_ok_write)

text \<open>Writing the packet, with its bytearray or with one that has just been made.\<close>

lemma private_kept_write_packet:
  assumes "packet_in r h" "pk_data p = pk_data (packet_at h r)"
  shows "private_kept r h (write_packet_at r p h)"
  using assms packet_in_data[OF assms(1)]
  by (auto simp: private_kept_def others_kept_def packet_in_def intro!: heap_ok_write)

lemma private_kept_new_data:
  assumes "packet_in r h" "pk_data p = length (hp_arrays h)"
  shows "private_kept r h (write_packet_at r p (snd (new_array bs h)))"
  using assms
  by (auto simp: private_kept_def others_kept_def packet_in_def intro!: heap_ok_write heap_ok_new_array)

lemma private_kept_in: "private_kept r h h' \<Longrightarrow> packet_in r h'"
  by (simp add: private_kept_def)

lemma private_set_command: "packet_in r h \<Longrightarrow> private_kept r h (set_command c r h)"
  unfolding set_command_def by (rule private_kept_write_packet) simp_all

lemma private_append_byte: "packet_in r h \<Longrightarrow> append_byte byte r h = Inr h' \<Longrightarrow> private_kept r h h'"
  by (auto simp: append_byte_def bind_res_eq_Inr private_kept_write_array)

lemma private_fresh_data:
  "packet_in r h \<Longrightarrow> new_array bs h = (a, h1) \<Longrightarrow> private_kept r h (set_data (ByteArray a) r h1)"
  using private_kept_new_data[of r h "(packet_at h r)\<lparr>pk_data := a\<rparr>" bs] new_array_simps(1,4)[of bs h]
  by (simp add: set_data_def)

lemma private_extract_crc:
  assumes "packet_in r h" "extract_crc r h = Inr (c, h')"
  shows "private_kept r h h'"
proof -
  obtain x where x: "py_index (pkt_data h r) (- 1) = Inr x"
    using assms(2) by (auto simp: extract_crc_def bind_res_eq_Inr)
  let ?h1 = "write_packet_at r ((packet_at h r)\<lparr>pk_crc := uint x\<rparr>) h"
  let ?p = "(packet_at ?h1 r)\<lparr>pk_data := length (hp_arrays ?h1)\<rparr>"
  have h1: "private_kept r h ?h1"
    using assms(1) by (intro private_kept_write_packet) simp_all
  have "h' = write_packet_at r ?p (snd (new_array (butlast (pkt_data ?h1 r)) ?h1))"
    using assms(2) x by (simp add: extract_crc_def split_beta Let_def)
  with private_kept_new_data[OF private_kept_in[OF h1], of ?p] private_kept_trans[OF h1]
  show ?thesis by simp
qed

lemmas private_ops = private_kept_refl private_set_command private_append_byte private_fresh_data
  private_extract_crc private_kept_new_array

lemma private_decode_command:
  assumes "packet_in (pd_packet d) h" "decode_byte_command byte d h = Inr (err, d', h', out)"
  shows "private_kept (pd_packet d) h h' \<and> pd_packet d' = pd_packet d"
proof (cases "byte = PY_END \<and> \<not> pd_escape d")
  case True
  with assms show ?thesis by (auto simp: decode_byte_command_def private_ops)
next
  case False
  let ?h1 = "set_command byte (pd_packet d) h"
  obtain a h2 where new: "new_array [] ?h1 = (a, h2)" by (metis surj_pair)
  have h1: "private_kept (pd_packet d) h ?h1"
    by (rule private_set_command[OF assms(1)])
  have "private_kept (pd_packet d) ?h1 (set_data (ByteArray a) (pd_packet d) h2)"
    by (rule private_fresh_data[OF private_kept_in[OF h1] new])
  with private_kept_trans[OF h1] assms(2) new show ?thesis
    unfolding decode_byte_command_def if_not_P[OF False] by (auto simp: Let_def)
qed

lemma private_decode_data:
  assumes "packet_in (pd_packet d) h" "decode_byte_data crc_fn byte d h = Inr (err, d', h', out)"
  shows "private_kept (pd_packet d) h h' \<and> pd_packet d' = pd_packet d"
  using assms
  by (auto simp: decode_byte_data_def Let_def bind_res_eq_Inr private_ops split: if_splits
      dest: private_extract_crc private_append_byte)

lemma private_decode_byte:
  assumes "packet_in (pd_packet d) h" "decode_byte crc_fn byte d h = Inr (err, d', h', out)"
  shows "private_kept (pd_packet d) h h' \<and> pd_packet d' = pd_packet d"
  using assms private_decode_command[OF assms(1)] private_decode_data[OF assms(1)]
  by (auto simp: decode_byte_def decode_byte_idle_def Let_def private_ops split: if_splits)

section \<open>The guarantee of the thread\<close>

definition only_reads :: "'s py_bus \<Rightarrow> 's py_bus \<Rightarrow> bool" where
  "only_reads b b' \<longleftrightarrow> ib_encoder b' = ib_encoder b \<and> ib_packet b' = ib_packet b \<and> ib_fileno b' = ib_fileno b \<and>
     pd_packet (ib_decoder b') = pd_packet (ib_decoder b) \<and>
     private_kept (pd_packet (ib_decoder b)) (ib_heap b) (ib_heap b') \<and>
     (\<exists>n. ib_queue b' = ib_queue b @ replicate n (pd_packet (ib_decoder b)))"

lemma only_reads_refl: "packet_in (pd_packet (ib_decoder b)) (ib_heap b) \<Longrightarrow> only_reads b b"
  by (auto simp: only_reads_def private_ops intro: exI[of _ 0])

lemma only_reads_trans:
  assumes "only_reads b1 b2" "only_reads b2 b3"
  shows "only_reads b1 b3"
proof -
  obtain m n where "ib_queue b2 = ib_queue b1 @ replicate m (pd_packet (ib_decoder b1))"
    "ib_queue b3 = ib_queue b2 @ replicate n (pd_packet (ib_decoder b2))"
    using assms by (auto simp: only_reads_def)
  then have "\<exists>k. ib_queue b3 = ib_queue b1 @ replicate k (pd_packet (ib_decoder b1))"
    using assms(1) by (auto simp: only_reads_def replicate_add[symmetric])
  with assms show ?thesis
    using private_kept_trans unfolding only_reads_def by metis
qed

lemma only_reads_in: "only_reads b b' \<Longrightarrow> packet_in (pd_packet (ib_decoder b')) (ib_heap b')"
  by (simp add: only_reads_def private_kept_def)

lemma process_byte_only_reads:
  assumes "packet_in (pd_packet (ib_decoder b)) (ib_heap b)" "process_byte crc_fn vt b = Inr (err, b')"
  shows "only_reads b b'"
proof -
  have "private_kept (pd_packet (ib_decoder b)) h h' \<and> pd_packet d' = pd_packet (ib_decoder b)"
    if "decode_byte crc_fn byte (ib_decoder b) (ib_heap b) = Inr (e, d', h', out)" "h = ib_heap b" for byte e d' h h' out
    using private_decode_byte[OF assms(1)] that by simp
  with assms show ?thesis
    by (auto simp: process_byte_def bind_res_eq_Inr only_reads_def py_out_def private_ops
        split: if_splits option.splits intro: exI[of _ 0])
qed

lemma process_packet_only_reads:
  assumes "packet_in (pd_packet (ib_decoder b)) (ib_heap b)" "process_packet (pd_packet (ib_decoder b)) b = Inr b'"
  shows "only_reads b b'"
  using assms private_kept_new_array[OF assms(1)]
  by (auto simp: process_packet_def get_data_def bind_res_eq_Inr only_reads_def py_out_def split_beta Let_def private_ops
      split: if_splits intro: exI[of _ 0] exI[of _ 1])

lemma thread_input_only_reads:
  assumes "packet_in (pd_packet (ib_decoder b)) (ib_heap b)" "thread_input crc_fn vt b = (t, b')"
  shows "only_reads b b'"
proof (cases "process_byte crc_fn vt b")
  case (Inl ex)
  with assms show ?thesis by (auto simp: thread_input_def only_reads_refl)
next
  case (Inr r)
  obtain err b1 where r: "r = (err, b1)" by (cases r)
  have b1: "only_reads b b1"
    using process_byte_only_reads[OF assms(1)] Inr r by blast
  with process_packet_only_reads[OF only_reads_in[OF b1]] assms(2) Inr r show ?thesis
    by (auto simp: thread_input_def split: if_splits sum.splits intro: only_reads_trans)
qed

lemma thread_events_only_reads:
  "packet_in (pd_packet (ib_decoder b)) (ib_heap b) \<Longrightarrow> thread_events crc_fn vt evs b = (t, b') \<Longrightarrow> only_reads b b'"
proof (induction crc_fn vt evs b arbitrary: b' rule: thread_events.induct)
  case (2 crc_fn vt fd event evs b)
  obtain t1 b1 where input: "thread_input crc_fn vt b = (t1, b1)" by (metis surj_pair)
  then have b1: "only_reads b b1"
    using thread_input_only_reads[OF 2(4)] by blast
  have err: "only_reads b (py_out evs b)" for evs
    using only_reads_refl[OF 2(4)] by (simp add: only_reads_def py_out_def)
  have later: "only_reads b b'"
    if "fd = ib_fileno b" "and event POLLIN \<noteq> 0" "t1 = Running" "thread_events crc_fn vt evs b1 = (t, b')"
    using 2(1)[OF that(1,2) input[symmetric] that(3) only_reads_in[OF b1] that(4)[unfolded that(3)]]
      only_reads_trans[OF b1] by blast
  from 2 input b1 err later show ?case
    by (cases t1) (auto split: if_splits)
qed (simp add: only_reads_refl)

section \<open>A packet of the caller\<close>

text \<open>The packet \<open>r\<close> is not the one the decoder fills, and they share no bytearray.\<close>

definition separate :: "ref \<Rightarrow> 's py_bus \<Rightarrow> bool" where
  "separate r b \<longleftrightarrow> r \<noteq> pd_packet (ib_decoder b) \<and> packet_in r (ib_heap b) \<and>
     packet_in (pd_packet (ib_decoder b)) (ib_heap b) \<and>
     pk_data (packet_at (ib_heap b) r) \<noteq> pk_data (packet_at (ib_heap b) (pd_packet (ib_decoder b)))"

lemma only_reads_separate:
  assumes "only_reads b b'" "separate r b"
  shows "separate r b'" "get_command r (ib_heap b') = get_command r (ib_heap b)"
    "pkt_data (ib_heap b') r = pkt_data (ib_heap b) r"
proof -
  let ?p = "pd_packet (ib_decoder b)" and ?h = "ib_heap b" and ?h' = "ib_heap b'"
  have kept: "packet_in ?p ?h'" "length (hp_packets ?h') = length (hp_packets ?h)" "packet_at ?h' r = packet_at ?h r"
    "\<forall>a < length (hp_arrays ?h). a \<noteq> pk_data (packet_at ?h ?p) \<longrightarrow> array_at ?h' a = array_at ?h a"
    "pk_data (packet_at ?h' ?p) = pk_data (packet_at ?h ?p) \<or> length (hp_arrays ?h) \<le> pk_data (packet_at ?h' ?p)"
    and same: "pd_packet (ib_decoder b') = ?p"
    using assms by (auto simp: only_reads_def private_kept_def others_kept_def separate_def)
  have data: "pk_data (packet_at ?h r) < length (hp_arrays ?h)"
    using assms(2) packet_in_data by (auto simp: separate_def)
  show "separate r b'"
    using assms(2) kept data same by (auto simp: separate_def packet_in_def)
  show "get_command r ?h' = get_command r ?h" "pkt_data ?h' r = pkt_data ?h r"
    using kept data assms(2) by (auto simp: get_command_def pkt_data_def separate_def)
qed

section \<open>A call of \<open>write_packet\<close> beside the thread\<close>

text \<open>
  The caller is inside the loop of \<open>write_packet\<close>, or has left it with a code. A step is one
  turn of that loop, or one call of \<^verbatim>\<open>poll\<close> of the thread with any events.
\<close>

datatype caller = Writing | Written int

type_synonym 's py_system = "'s py_bus \<times> thread \<times> caller"

inductive py_system_step :: "crc_fn \<Rightarrow> 's py_bus_vt \<Rightarrow> 's py_system \<Rightarrow> 's py_system \<Rightarrow> bool" for crc_fn vt where
  thread_polls: "pv_is_open vt (ib_device b) \<Longrightarrow> thread_events crc_fn vt evs b = (t, b') \<Longrightarrow>
    py_system_step crc_fn vt (b, Running, k) (b', t, k)"
| thread_returns: "\<not> pv_is_open vt (ib_device b) \<Longrightarrow>
    py_system_step crc_fn vt (b, Running, k)
      (py_out [Py_debug ''incoming_data_thread: bus is closed: exiting'', Py_debug ''incoming_data_thread: exiting''] b,
       Returned, k)"
| byte_taken: "encode_byte crc_fn (ib_heap b) (ib_encoder b) = Inr ((err, byte), e) \<Longrightarrow>
    pv_write_byte vt byte (ib_device b) = Inr (True, s) \<Longrightarrow>
    py_system_step crc_fn vt (b, t, Writing)
      (b\<lparr>ib_encoder := e, ib_device := s\<rparr>, t, if err = ErrorCode_NOT_DONE then Writing else Written err)"
| byte_refused: "encode_byte crc_fn (ib_heap b) (ib_encoder b) = Inr ((err, byte), e) \<Longrightarrow>
    pv_write_byte vt byte (ib_device b) = Inr (False, s) \<Longrightarrow>
    py_system_step crc_fn vt (b, t, Writing) (b\<lparr>ib_encoder := e, ib_device := s\<rparr>, t, Written ErrorCode_OS)"

text \<open>
  What holds all the time: the bytes sent and those still owed are the frame.
\<close>

definition writing_inv ::
    "crc_fn \<Rightarrow> ('s \<Rightarrow> u8 list) \<Rightarrow> ('s \<Rightarrow> bool) \<Rightarrow> ref \<Rightarrow> u8 \<Rightarrow> u8 list \<Rightarrow> u8 list \<Rightarrow> 's py_system \<Rightarrow> bool" where
  "writing_inv crc_fn sent up r c ds wire x \<longleftrightarrow>
     (case x of (b, t, k) \<Rightarrow> up (ib_device b) \<and> separate r b \<and> packet_in (pd_packet (ib_decoder b)) (ib_heap b) \<and>
       (case k of
          Writing \<Rightarrow> pe_packet (ib_encoder b) = r \<and> py_encoder_at (ib_heap b) c ds (ib_encoder b) \<and>
            sent (ib_device b) @ py_owed crc_fn c ds (ib_encoder b) = wire
        | Written err \<Rightarrow> err = ErrorCode_NONE \<and> sent (ib_device b) = wire))"

lemma only_reads_inv:
  assumes "only_reads b b'" "writing_inv crc_fn sent up r c ds wire (b, t, k)"
    and "sent (ib_device b') = sent (ib_device b)" "up (ib_device b')"
  shows "writing_inv crc_fn sent up r c ds wire (b', t', k)"
proof -
  have sep: "separate r b" using assms(2) by (simp add: writing_inv_def)
  have "py_encoder_at (ib_heap b') c ds e" if "py_encoder_at (ib_heap b) c ds e" "pe_packet e = r" for e
    using that only_reads_separate[OF assms(1) sep] by (auto simp: py_encoder_at_def separate_def)
  with only_reads_separate(1)[OF assms(1) sep] assms only_reads_in[OF assms(1)] show ?thesis
    by (auto simp: writing_inv_def only_reads_def split: caller.splits)
qed

text \<open>What a byte handed out by \<open>encode_byte\<close> is, and what is owed after it.\<close>

lemma encode_byte_emits:
  assumes "py_encoder_at h c ds e" "encode_byte crc_fn h e = Inr ((err, byte), e')"
  obtains z rest where "byte = uint z" "py_owed crc_fn c ds e = z # rest" "pe_packet e' = pe_packet e"
    "if rest = [] then err = ErrorCode_NONE \<and> pe_state e' = PE_IDLE
     else err = ErrorCode_NOT_DONE \<and> py_encoder_at h c ds e' \<and> py_owed crc_fn c ds e' = rest"
proof -
  obtain err1 e1 z rest where "encode_byte crc_fn h e = Inr ((err1, uint z), e1)" "py_owed crc_fn c ds e = z # rest"
    "pe_packet e1 = pe_packet e" "if rest = [] then err1 = ErrorCode_NONE \<and> pe_state e1 = PE_IDLE
     else err1 = ErrorCode_NOT_DONE \<and> py_encoder_at h c ds e1 \<and> py_owed crc_fn c ds e1 = rest"
    using py_encode_byte_owed[OF assms(1), of crc_fn] unfolding py_encode_step_def by blast
  moreover have "err1 = err" "byte = uint z" "e1 = e'" using calculation(1) assms(2) by simp_all
  ultimately show thesis using that by blast
qed

locale py_duplex_device = py_byte_device vt sent up
  for vt :: "'s py_bus_vt" and sent :: "'s \<Rightarrow> u8 list" and up :: "'s \<Rightarrow> bool" +
  assumes avail_sent: "pv_is_data_available vt s = Inr (x, s') \<Longrightarrow> up s \<Longrightarrow> sent s' = sent s \<and> up s'"
    and read_sent: "pv_read_byte vt s = Inr (y, s') \<Longrightarrow> up s \<Longrightarrow> sent s' = sent s \<and> up s'"
begin

lemma process_byte_sent:
  assumes "process_byte crc_fn vt b = Inr (err, b')" "up (ib_device b)"
  shows "sent (ib_device b') = sent (ib_device b) \<and> up (ib_device b')"
proof -
  obtain avail s1 where s1: "pv_is_data_available vt (ib_device b) = Inr (avail, s1)"
    using assms(1) by (auto simp: process_byte_def bind_res_eq_Inr)
  note s1' = avail_sent[OF s1 assms(2)]
  with assms(1) s1 read_sent[of s1] show ?thesis
    by (auto simp: process_byte_def bind_res_eq_Inr py_out_def split: if_splits option.splits)
qed

lemma thread_input_sent:
  assumes "thread_input crc_fn vt b = (t, b')" "up (ib_device b)"
  shows "sent (ib_device b') = sent (ib_device b) \<and> up (ib_device b')"
  using assms process_byte_sent[OF _ assms(2)] process_packet_device
  by (fastforce simp: thread_input_def split: sum.splits if_splits)

lemma thread_events_sent:
  "thread_events crc_fn vt evs b = (t, b') \<Longrightarrow> up (ib_device b) \<Longrightarrow>
     sent (ib_device b') = sent (ib_device b) \<and> up (ib_device b')"
proof (induction evs arbitrary: b)
  case (Cons ev evs)
  obtain fd event where ev: "ev = (fd, event)" by (cases ev)
  obtain t1 b1 where input: "thread_input crc_fn vt b = (t1, b1)" by (metis surj_pair)
  have b1: "sent (ib_device b1) = sent (ib_device b) \<and> up (ib_device b1)"
    by (rule thread_input_sent[OF input Cons.prems(2)])
  with Cons input ev show ?case
    by (cases t1) (auto simp: py_out_def split: if_splits)
qed simp

lemma step_inv:
  assumes "py_system_step crc_fn vt x y" "writing_inv crc_fn sent up r c ds wire x"
  shows "writing_inv crc_fn sent up r c ds wire y"
  using assms
proof (induction rule: py_system_step.induct)
  case (thread_polls b evs t b' k)
  then have up: "up (ib_device b)" "packet_in (pd_packet (ib_decoder b)) (ib_heap b)" by (simp_all add: writing_inv_def)
  show ?case
    by (rule only_reads_inv[OF thread_events_only_reads[OF up(2) thread_polls(2)] thread_polls(3)])
      (use thread_events_sent[OF thread_polls(2) up(1)] in simp_all)
next
  case (thread_returns b k)
  have "only_reads b (py_out evs b)" for evs
    using thread_returns(2) only_reads_refl[of b] by (simp add: writing_inv_def only_reads_def py_out_def)
  from only_reads_inv[OF this thread_returns(2)] thread_returns(2) show ?case
    by (simp add: py_out_def writing_inv_def)
next
  case (byte_taken b err byte e s t)
  then have at: "py_encoder_at (ib_heap b) c ds (ib_encoder b)" "up (ib_device b)"
    by (simp_all add: writing_inv_def)
  obtain z rest where z: "byte = uint z" "py_owed crc_fn c ds (ib_encoder b) = z # rest" "pe_packet e = pe_packet (ib_encoder b)"
    "if rest = [] then err = ErrorCode_NONE \<and> pe_state e = PE_IDLE
     else err = ErrorCode_NOT_DONE \<and> py_encoder_at (ib_heap b) c ds e \<and> py_owed crc_fn c ds e = rest"
    by (rule encode_byte_emits[OF at(1) byte_taken(1)])
  have "sent s = sent (ib_device b) @ [z]" "up s"
    using write_sent[OF at(2), of z] byte_taken(2) z(1) by auto
  with byte_taken(3) z show ?case
    by (auto simp: writing_inv_def separate_def py_codes split: if_splits)
next
  case (byte_refused b err byte e s t)
  then have at: "py_encoder_at (ib_heap b) c ds (ib_encoder b)" "up (ib_device b)"
    by (simp_all add: writing_inv_def)
  obtain z :: u8 where "byte = uint z"
    by (rule encode_byte_emits[OF at(1) byte_refused(1)])
  with byte_refused(2) write_sent[OF at(2), of z] show ?case by auto
qed

lemma run_inv:
  "rtranclp (py_system_step crc_fn vt) x y \<Longrightarrow> writing_inv crc_fn sent up r c ds wire x \<Longrightarrow>
     writing_inv crc_fn sent up r c ds wire y"
  by (induction rule: rtranclp_induct) (auto intro: step_inv)

lemma caller_moves:
  assumes "writing_inv crc_fn sent up r c ds wire (b, t, Writing)"
  shows "\<exists>b' k. py_system_step crc_fn vt (b, t, Writing) (b', t, k) \<and>
    length (sent (ib_device b')) = Suc (length (sent (ib_device b)))"
proof -
  have at: "py_encoder_at (ib_heap b) c ds (ib_encoder b)" "up (ib_device b)"
    using assms by (simp_all add: writing_inv_def)
  obtain err e and z :: u8 where
    enc: "encode_byte crc_fn (ib_heap b) (ib_encoder b) = Inr ((err, uint z), e)"
    using py_encode_byte_owed[OF at(1), of crc_fn] unfolding py_encode_step_def by blast
  obtain s where wr: "pv_write_byte vt (uint z) (ib_device b) = Inr (True, s)" "sent s = sent (ib_device b) @ [z]"
    using write_sent[OF at(2), of z] by blast
  from byte_taken[OF enc wr(1), of t] wr(2) show ?thesis
    by (intro exI conjI) (assumption, simp)
qed

end

lemma ser_read_byte_calls:
  assumes "ser_read_byte w s = Inr (y, s')" "sb_serial s"
  shows "s' = s\<lparr>sb_calls := Ser_read # sb_calls s\<rparr>"
proof (cases "w (sb_calls s) Ser_read")
  case (Inr got)
  obtain n ds where "got = (n, ds)" by (cases got)
  with assms Inr show ?thesis by (cases ds) (auto simp: ser_read_byte_def ser_do_def call_def)
qed (use assms in \<open>simp add: ser_read_byte_def ser_do_def call_def\<close>)

lemma sock_read_byte_calls:
  assumes "sock_read_byte w s = Inr (y, s')"
  shows "s' = s\<lparr>kb_calls := Sk_recv (kb_socket s) # kb_calls s\<rparr>"
proof (cases "w (kb_calls s) (Sk_recv (kb_socket s))")
  case (Inr got)
  obtain n ds where "got = (n, ds)" by (cases got)
  with assms Inr show ?thesis by (cases ds) (auto simp: sock_read_byte_def sock_do_def call_def)
qed (use assms in \<open>simp add: sock_read_byte_def sock_do_def call_def\<close>)

interpretation tst_duplex: py_duplex_device tst_vt rsp_data "\<lambda>s. True"
  by unfold_locales (auto simp: tst_vt_def tst_read_byte_def split: if_splits)

interpretation ser_duplex: py_duplex_device "ser_vt w" "\<lambda>s. taken w ser_bytes (sb_calls s)"
    "\<lambda>s. sb_serial s \<and> ser_takes_all w" for w
  by unfold_locales
    (auto simp: ser_vt_def ser_is_data_available_def ser_poll_def ser_do_def call_def bind_res_eq_Inr
      split: if_splits dest!: ser_read_byte_calls)

interpretation sock_duplex: py_duplex_device "sock_vt w" "\<lambda>s. taken w (sock_bytes (kb_socket s)) (kb_calls s)"
    "\<lambda>s. sock_takes_all w" for w
  by unfold_locales
    (auto simp: sock_vt_def sock_is_data_available_def sock_poll_def sock_do_def call_def bind_res_eq_Inr
      split: if_splits dest!: sock_read_byte_calls)

section \<open>Properties\<close>

lemma encode_start_heap:
  assumes "encode_start crc_fn r e h = Inr (e', h', out)"
  obtains x where "h' = write_packet_at r ((packet_at h r)\<lparr>pk_crc := x\<rparr>) h"
  using assms by (auto simp: encode_start_def calc_and_store_crc_def bind_res_eq_Inr Let_def)

lemma write_starts:
  assumes "separate r b" "get_command r (ib_heap b) = uint c" "same_crc crc crc_fn" "up (ib_device b)"
    and "encode_start crc_fn r (ib_encoder b) (ib_heap b) = Inr (e, h, out)"
  shows "writing_inv crc_fn sent up r c (pkt_data (ib_heap b) r)
    (sent (ib_device b) @ frame_bytes crc c (pkt_data (ib_heap b) r))
    (py_out out (b\<lparr>ib_encoder := e, ib_heap := h\<rparr>), t, Writing)"
proof -
  have here: "packet_in r (ib_heap b)" using assms(1) by (simp add: separate_def)
  obtain e1 h1 out1 where start: "encode_start crc_fn r (ib_encoder b) (ib_heap b) = Inr (e1, h1, out1)"
    "py_encoder_at h1 c (pkt_data (ib_heap b) r) e1" "pe_state e1 = PE_IDLE" "pe_packet e1 = r" "packet_in r h1"
    by (rule encode_start_ok[OF here assms(2) refl])
  obtain x where h: "h = write_packet_at r ((packet_at (ib_heap b) r)\<lparr>pk_crc := x\<rparr>) (ib_heap b)"
    using encode_start_heap[OF assms(5)] .
  have "r < length (hp_packets (ib_heap b))" using here by (simp add: packet_in_def)
  with assms(1,4,5) start h py_owed_frame[OF assms(3) start(3)] show ?thesis
    by (auto simp: writing_inv_def separate_def py_out_def packet_in_def)
qed

text \<open>C30: A command is written intact whatever the receiving thread does meanwhile: when
  \<open>write_packet\<close> of a serial bus, whose port takes every byte, is called for a packet that is
  not the one the decoder fills and shares no bytearray with it, then after any interleaving
  of its turns with polls of the thread the bytes sent are a proper part of the frame, and
  the caller can send the next one; or it has returned \<open>NONE\<close> and the bytes sent are the frame,
  even if the thread has ended meanwhile.\<close>

theorem python_write_beside_thread:
  assumes "sb_serial (ib_device b)" "ser_takes_all w" "separate r b" "get_command r (ib_heap b) = uint c"
    and "same_crc crc crc_fn" "encode_start crc_fn r (ib_encoder b) (ib_heap b) = Inr (e, h, out)"
    and "rtranclp (py_system_step crc_fn (ser_vt w))
      (py_out out (b\<lparr>ib_encoder := e, ib_heap := h\<rparr>), t, Writing) (b', t', k)"
  shows "let old = taken w ser_bytes (sb_calls (ib_device b)); now = taken w ser_bytes (sb_calls (ib_device b'));
      frame = frame_bytes crc c (pkt_data (ib_heap b) r)
    in case k of
         Writing \<Rightarrow> (\<exists>owed. owed \<noteq> [] \<and> now @ owed = old @ frame) \<and>
           (\<exists>b'' k'. py_system_step crc_fn (ser_vt w) (b', t', Writing) (b'', t', k') \<and>
              length (taken w ser_bytes (sb_calls (ib_device b''))) = Suc (length now))
       | Written err \<Rightarrow> err = ErrorCode_NONE \<and> now = old @ frame"
proof -
  let ?sent = "\<lambda>s. taken w ser_bytes (sb_calls s)" and ?up = "\<lambda>s. sb_serial s \<and> ser_takes_all w"
  let ?ds = "pkt_data (ib_heap b) r"
  have "writing_inv crc_fn ?sent ?up r c ?ds (?sent (ib_device b) @ frame_bytes crc c ?ds)
      (py_out out (b\<lparr>ib_encoder := e, ib_heap := h\<rparr>), t, Writing)"
    using assms(1,2) by (intro write_starts[OF assms(3-5) _ assms(6)]) simp
  then have inv: "writing_inv crc_fn ?sent ?up r c ?ds (?sent (ib_device b) @ frame_bytes crc c ?ds) (b', t', k)"
    by (rule ser_duplex.run_inv[OF assms(7)])
  show ?thesis
  proof (cases k)
    case Writing
    with inv ser_duplex.caller_moves[of crc_fn w r c ?ds _ b' t'] show ?thesis
      by (auto simp: writing_inv_def Let_def intro: exI[of _ "py_owed crc_fn c ?ds (ib_encoder b')"])
  next
    case (Written err)
    with inv show ?thesis by (simp add: writing_inv_def Let_def)
  qed
qed

text \<open>A new bus beside a packet of the caller, which is the packet 0.\<close>

definition beside_bus :: "serial_bus py_bus" where
  "beside_bus = py_new_bus (snd (py_new_packet (Some 0x10) (Some (Bytes [0xC0, 0x7E])) \<lparr>hp_arrays = [], hp_packets = []\<rparr>))
     new_serial_bus"

lemma beside_bus_facts:
  "separate 0 beside_bus" "get_command 0 (ib_heap beside_bus) = uint (0x10 :: u8)"
  "pkt_data (ib_heap beside_bus) 0 = [0xC0, 0x7E]" "sb_serial (ib_device beside_bus)" "ser_takes_all quiet_port"
  by (simp_all add: beside_bus_def py_new_bus_def py_new_packet_def py_new_encoder_def py_new_decoder_def new_array_def
    separate_def packet_in_def heap_ok_def packet_at_def get_command_def pkt_data_def array_at_def new_serial_bus_def
    ser_takes_all_def quiet_port_def Let_def less_Suc_eq)

theorem python_write_beside_thread_witness:
  "\<exists>e h out b1 k1 t2 b2.
    encode_start py_crc8 0 (ib_encoder beside_bus) (ib_heap beside_bus) = Inr (e, h, out) \<and>
    py_system_step py_crc8 (ser_vt quiet_port)
      (py_out out (beside_bus\<lparr>ib_encoder := e, ib_heap := h\<rparr>), Running, Writing) (b1, Running, k1) \<and>
    py_system_step py_crc8 (ser_vt quiet_port) (b1, Running, k1) (b2, t2, k1) \<and>
    (case k1 of
       Writing \<Rightarrow> \<exists>owed. owed \<noteq> [] \<and>
         taken quiet_port ser_bytes (sb_calls (ib_device b2)) @ owed = frame_bytes crc8_poly07 0x10 [0xC0, 0x7E]
     | Written err \<Rightarrow> err = ErrorCode_NONE \<and>
         taken quiet_port ser_bytes (sb_calls (ib_device b2)) = frame_bytes crc8_poly07 0x10 [0xC0, 0x7E])"
proof -
  let ?sys = "py_system_step py_crc8 (ser_vt quiet_port)" and ?w = quiet_port
  have pkt: "packet_in 0 (ib_heap beside_bus)"
    using beside_bus_facts(1) by (simp add: separate_def)
  obtain e h out where start: "encode_start py_crc8 0 (ib_encoder beside_bus) (ib_heap beside_bus) = Inr (e, h, out)"
    using encode_start_ok[OF pkt beside_bus_facts(2) refl] by metis
  let ?b = "py_out out (beside_bus\<lparr>ib_encoder := e, ib_heap := h\<rparr>)"
  have up: "sb_serial (ib_device beside_bus) \<and> ser_takes_all ?w"
    using beside_bus_facts(4,5) by simp
  obtain b1 k1 where step: "?sys (?b, Running, Writing) (b1, Running, k1)"
    using ser_duplex.caller_moves[OF write_starts[OF beside_bus_facts(1,2) same_crc_poly07 _ start]] up by blast
  obtain t2 b2 where step2: "?sys (b1, Running, k1) (b2, t2, k1)"
    using py_system_step.thread_polls py_system_step.thread_returns by (metis surj_pair)
  have run: "rtranclp ?sys (?b, Running, Writing) (b2, t2, k1)"
    using step step2 by (meson converse_rtranclp_into_rtranclp r_into_rtranclp)
  have none: "taken ?w ser_bytes (sb_calls (ib_device beside_bus)) = []"
    by (simp add: beside_bus_def py_new_bus_def new_serial_bus_def split_beta Let_def)
  from python_write_beside_thread[OF beside_bus_facts(4,5,1,2) same_crc_poly07 start run] step step2 start
  show ?thesis
    unfolding none beside_bus_facts(3) Let_def append_Nil
    by (intro exI conjI) (assumption | cases k1; simp; blast)+
qed

end
