(* ===== verification/Py_Session.thy ===== *)
theory Py_Session
  imports Py_Threads Py_Logging
begin

text \<open>
  Sessions of a Python bus that lasts longer than one command: what a response that comes
  after the timeout does to the next command, and what the receiving thread makes of any
  frame, whoever sent it.
\<close>

section \<open>Writing a command\<close>

text \<open>Of the heap, \<open>write_packet\<close> changes the CRC of the packet and nothing else.\<close>

lemma write_packet_taken:
  assumes "packet_in r (ib_heap b)" "get_command r (ib_heap b) = uint c" "same_crc crc crc_fn"
    and "py_writes vt (ib_device b) (frame_bytes crc c (pkt_data (ib_heap b) r)) s1"
  obtains b1 x where "write_packet crc_fn vt r b = Some (Inr (ErrorCode_NONE, b1))"
    "ib_decoder b1 = ib_decoder b" "ib_device b1 = s1" "ib_queue b1 = ib_queue b" "ib_fileno b1 = ib_fileno b"
    "ib_heap b1 = write_packet_at r ((packet_at (ib_heap b) r)\<lparr>pk_crc := x\<rparr>) (ib_heap b)"
proof -
  obtain e1 h1 out1 where start: "encode_start crc_fn r (ib_encoder b) (ib_heap b) = Inr (e1, h1, out1)"
    "py_encoder_at h1 c (pkt_data (ib_heap b) r) e1" "pe_state e1 = PE_IDLE"
    by (rule encode_start_ok[OF assms(1,2) refl])
  obtain x where x: "h1 = write_packet_at r ((packet_at (ib_heap b) r)\<lparr>pk_crc := x\<rparr>) (ib_heap b)"
    using encode_start_heap[OF start(1)] .
  obtain e2 where loop: "py_write_loop crc_fn vt h1 e1 (ib_device b) = Some (Inr (ErrorCode_NONE, e2, s1))"
    using py_write_loop_taken[OF start(2), of vt "ib_device b" crc_fn s1] assms(4)
      py_owed_frame[OF assms(3) start(3)] by auto
  show thesis
    by (rule that[of "py_out out1 (b\<lparr>ib_encoder := e2, ib_heap := h1, ib_device := s1\<rparr>)" x])
      (use start(1) loop x in \<open>simp_all add: write_packet_def py_out_def\<close>)
qed

lemma crc_change_keeps:
  assumes "h' = write_packet_at r ((packet_at h r)\<lparr>pk_crc := x\<rparr>) h" "packet_in r h"
  shows "get_command q h' = get_command q h" "pkt_data h' q = pkt_data h q"
    "packet_in q h \<Longrightarrow> packet_in q h'" "py_decoder_ok d h \<Longrightarrow> py_decoder_ok d h'"
    "pk_data (packet_at h' q) = pk_data (packet_at h q)"
proof -
  have r: "r < length (hp_packets h)" "pk_data (packet_at h r) < length (hp_arrays h)"
    using assms(2) packet_in_data[OF assms(2)] by (simp_all add: packet_in_def)
  show data: "pk_data (packet_at h' q) = pk_data (packet_at h q)"
    using assms(1) r by (cases "q = r") simp_all
  show cmd: "get_command q' h' = get_command q' h" for q'
    using assms(1) r by (cases "q' = r") (simp_all add: get_command_def)
  show "pkt_data h' q = pkt_data h q"
    using assms(1) data by (simp add: pkt_data_def)
  have kept: "packet_in q' h \<Longrightarrow> packet_in q' h'" for q'
    using assms(1) r by (auto simp: packet_in_def intro: heap_ok_write)
  then show "packet_in q h \<Longrightarrow> packet_in q h'" .
  show "py_decoder_ok d h \<Longrightarrow> py_decoder_ok d h'"
    using kept cmd by (simp add: py_decoder_ok_def)
qed

lemma written_separate:
  assumes "ib_decoder b1 = ib_decoder b" "packet_in r (ib_heap b)"
    and "ib_heap b1 = write_packet_at r ((packet_at (ib_heap b) r)\<lparr>pk_crc := x\<rparr>) (ib_heap b)" "separate q b"
  shows "separate q b1"
  using assms(1,4) crc_change_keeps[OF assms(3,2)] by (simp add: separate_def)

lemma thread_only_reads:
  "packet_in (pd_packet (ib_decoder b)) (ib_heap b) \<Longrightarrow> incoming_data_thread crc_fn vt polls b = (t, b') \<Longrightarrow> only_reads b b'"
proof (induction crc_fn vt polls b arbitrary: b' rule: incoming_data_thread.induct)
  case (1 crc_fn vt polls b)
  have out: "only_reads b (py_out evs b)" for evs
    using only_reads_refl[OF 1(2)] by (simp add: only_reads_def py_out_def)
  show ?case
  proof (cases "pv_is_open vt (ib_device b)")
    case False
    with 1(3) out show ?thesis by auto
  next
    case open_bus: True
    show ?thesis
    proof (cases polls)
      case Nil
      with 1(3) open_bus only_reads_refl[OF 1(2)] show ?thesis by simp
    next
      case (Cons evs rest)
      obtain t1 b1 where step: "thread_events crc_fn vt evs b = (t1, b1)" by (metis surj_pair)
      note b1 = thread_events_only_reads[OF 1(2) step]
      show ?thesis
      proof (cases "t1 = Running")
        case True
        have "incoming_data_thread crc_fn vt rest b1 = (t, b')"
          using 1(3) open_bus Cons step True by (simp del: incoming_data_thread.simps add: incoming_data_thread.simps[of _ _ _ b])
        with 1(1)[OF _ Cons step[symmetric] True only_reads_in[OF b1]] open_bus True only_reads_trans[OF b1] show ?thesis
          by blast
      next
        case False
        with 1(3) open_bus Cons step b1 show ?thesis by (cases t1) simp_all
      qed
    qed
  qed
qed

section \<open>A response that comes too late\<close>

text \<open>A command whose response does not come, and one whose response is already there.\<close>

lemma command_times_out:
  assumes "write_packet crc_fn vt r b = Some (Inr (ErrorCode_NONE, b1))" "pv_is_open vt (ib_device b)" "ib_queue b1 = []"
  shows "send_command_get_response crc_fn vt r [] Running b = Some (Inr ((ErrorCode_TIMEOUT, None), Running,
    py_out (Py_error ''Timeout waiting for response'' [] # py_dump ''Timeout'' r (ib_heap b1)) b1))"
  using assms by (simp add: send_command_get_response_def)

lemma command_takes_queued:
  assumes "write_packet crc_fn vt r b = Some (Inr (ErrorCode_NONE, b1))" "pv_is_open vt (ib_device b)" "ib_queue b1 = q # qs"
  shows "send_command_get_response crc_fn vt r polls t b
    = Some (Inr ((ErrorCode_NONE, Some q), t, b1\<lparr>ib_queue := qs\<rparr>))"
  using assms by (simp add: send_command_get_response_def queue_get.simps[of _ _ _ _ b1] del: queue_get.simps)

text \<open>C27: A response that comes after the timeout answers the next command: when the first command
  times out, its response arrives before the second command is sent, and the device takes both
  commands, then \<open>send_command_get_response\<close> returns \<open>NONE\<close> and the response of the first command
  for the second one, whatever the device would still deliver, since nothing empties the queue
  before a command and nothing compares the response with it.\<close>

theorem late_response_answers_next_command:
  assumes "same_crc crc crc_fn" "py_decoder_ok (ib_decoder b) (ib_heap b)" "pd_state (ib_decoder b) = PD_IDLE"
    and "ib_queue b = []" "pv_is_open vt (ib_device b)"
    and "separate r1 b" "get_command r1 (ib_heap b) = uint c1" "separate r2 b" "get_command r2 (ib_heap b) = uint c2"
    and "py_writes vt (ib_device b) (frame_bytes crc c1 (pkt_data (ib_heap b) r1)) s1"
    and "py_reads vt s1 (frame_bytes crc c' ds) s2" "length ds < MAX_DATA_LEN" "c' \<noteq> 0x03" "pv_is_open vt s2"
    and "py_writes vt s2 (frame_bytes crc c2 (pkt_data (ib_heap b) r2)) s3"
  shows "\<exists>b1 b2 b3 rsp.
    send_command_get_response crc_fn vt r1 [] Running b = Some (Inr ((ErrorCode_TIMEOUT, None), Running, b1)) \<and>
    incoming_data_thread crc_fn vt (input_polls (length (frame_bytes crc c' ds)) b1) b1 = (Running, b2) \<and>
    (\<forall>polls. send_command_get_response crc_fn vt r2 polls Running b2
      = Some (Inr ((ErrorCode_NONE, Some rsp), Running, b3))) \<and>
    get_command rsp (ib_heap b3) = uint c' \<and> pkt_data (ib_heap b3) rsp = ds \<and> ib_device b3 = s3"
proof -
  let ?p = "pd_packet (ib_decoder b)" and ?n = "length (frame_bytes crc c' ds)"
  have in1: "packet_in r1 (ib_heap b)" using assms(6) by (simp add: separate_def)
  obtain w1 x1 where w1: "write_packet crc_fn vt r1 b = Some (Inr (ErrorCode_NONE, w1))"
    "ib_decoder w1 = ib_decoder b" "ib_device w1 = s1" "ib_queue w1 = ib_queue b"
    "ib_heap w1 = write_packet_at r1 ((packet_at (ib_heap b) r1)\<lparr>pk_crc := x1\<rparr>) (ib_heap b)"
    by (rule write_packet_taken[OF in1 assms(7,1,10)])
  obtain out where first: "send_command_get_response crc_fn vt r1 [] Running b
      = Some (Inr ((ErrorCode_TIMEOUT, None), Running, py_out out w1))"
    using command_times_out[OF w1(1) assms(5)] w1(4) assms(4) by metis
  let ?b1 = "py_out out w1"
  have b1: "ib_decoder ?b1 = ib_decoder b" "ib_device ?b1 = s1" "ib_queue ?b1 = []"
    "ib_heap ?b1 = write_packet_at r1 ((packet_at (ib_heap b) r1)\<lparr>pk_crc := x1\<rparr>) (ib_heap b)"
    using w1 assms(4) by (simp_all add: py_out_def)
  note keeps1 = crc_change_keeps[OF b1(4) in1]
  have ok1: "py_decoder_ok (ib_decoder ?b1) (ib_heap ?b1)" and sep1: "separate r2 ?b1"
    using keeps1(4)[OF assms(2)] written_separate[OF b1(1) in1 b1(4) assms(8)] b1(1) by simp_all
  obtain b2 where b2: "incoming_data_thread crc_fn vt (input_polls ?n ?b1 @ []) ?b1 = incoming_data_thread crc_fn vt [] b2"
    "ib_queue b2 = ib_queue ?b1 @ [?p]" "pd_packet (ib_decoder b2) = ?p" "ib_device b2 = s2"
    "get_command ?p (ib_heap b2) = uint c'" "pkt_data (ib_heap b2) ?p = ds"
    by (rule thread_queues_frame[OF assms(1) ok1 _ _ assms(12,13), of vt s2 "[]"])
      (use assms(3,11) b1(1,2) in \<open>simp_all del: incoming_data_thread.simps\<close>)
  have second: "incoming_data_thread crc_fn vt (input_polls ?n ?b1) ?b1 = (Running, b2)"
    using b2(1,4) assms(14) by (simp add: incoming_data_thread.simps[of _ _ _ b2] del: incoming_data_thread.simps)
  have "packet_in (pd_packet (ib_decoder ?b1)) (ib_heap ?b1)"
    using sep1 by (simp add: separate_def)
  note kept = only_reads_separate[OF thread_only_reads[OF this second] sep1]
  have in2: "packet_in r2 (ib_heap b2)" using kept(1) by (simp add: separate_def)
  have r2: "get_command r2 (ib_heap b2) = uint c2" "pkt_data (ib_heap b2) r2 = pkt_data (ib_heap b) r2"
    using kept(2,3) keeps1(1,2) assms(9) by simp_all
  obtain w2 x2 where w2: "write_packet crc_fn vt r2 b2 = Some (Inr (ErrorCode_NONE, w2))"
    "ib_device w2 = s3" "ib_queue w2 = ib_queue b2"
    "ib_heap w2 = write_packet_at r2 ((packet_at (ib_heap b2) r2)\<lparr>pk_crc := x2\<rparr>) (ib_heap b2)"
    by (rule write_packet_taken[OF in2 r2(1) assms(1), of vt s3]) (use assms(15) r2(2) b2(4) in simp_all)
  have third: "send_command_get_response crc_fn vt r2 polls Running b2
      = Some (Inr ((ErrorCode_NONE, Some ?p), Running, w2\<lparr>ib_queue := []\<rparr>))" for polls
    by (rule command_takes_queued[OF w2(1)]) (use assms(14) b2(2,4) b1(3) w2(3) in simp_all)
  show ?thesis
    by (intro exI conjI allI) (rule first, rule second, rule third,
      simp_all add: crc_change_keeps[OF w2(4) in2] b2(5,6) w2(2))
qed

text \<open>A bus beside two packets of the caller, a ping and a debug command; the ping's response is on its way.\<close>

definition session_bus :: "py_test_device py_bus" where
  "session_bus =
     py_new_bus (snd (py_new_packet (Some 5) None (snd (py_new_packet (Some 1) (Some (Bytes [2]))
         \<lparr>hp_arrays = [], hp_packets = []\<rparr>))))
       \<lparr>cmd_idx = 0, cmd_data = frame_bytes crc8_poly07 1 [2], rsp_data = []\<rparr>"

lemma session_bus_facts:
  "separate 0 session_bus" "separate 1 session_bus" "get_command 0 (ib_heap session_bus) = uint (1 :: u8)"
  "get_command 1 (ib_heap session_bus) = uint (5 :: u8)"
  "pkt_data (ib_heap session_bus) 0 = [2]" "pkt_data (ib_heap session_bus) 1 = []" "ib_queue session_bus = []"
  "py_decoder_ok (ib_decoder session_bus) (ib_heap session_bus)" "pd_state (ib_decoder session_bus) = PD_IDLE"
  "ib_device session_bus = \<lparr>cmd_idx = 0, cmd_data = frame_bytes crc8_poly07 1 [2], rsp_data = []\<rparr>"
  by (simp_all add: session_bus_def py_new_bus_def py_new_packet_def py_new_encoder_def py_new_decoder_def new_array_def
    separate_def packet_in_def heap_ok_def packet_at_def get_command_def pkt_data_def array_at_def py_decoder_ok_def
    Let_def less_Suc_eq)

theorem late_response_answers_next_command_witness:
  "\<exists>b1 b2 b3 rsp.
    send_command_get_response py_crc8 tst_vt 0 [] Running session_bus
      = Some (Inr ((ErrorCode_TIMEOUT, None), Running, b1)) \<and>
    incoming_data_thread py_crc8 tst_vt (input_polls (length (frame_bytes crc8_poly07 1 [2])) b1) b1 = (Running, b2) \<and>
    (\<forall>polls. send_command_get_response py_crc8 tst_vt 1 polls Running b2
      = Some (Inr ((ErrorCode_NONE, Some rsp), Running, b3))) \<and>
    get_command rsp (ib_heap b3) = uint (1 :: u8) \<and> pkt_data (ib_heap b3) rsp = [2] \<and>
    ib_device b3 = \<lparr>cmd_idx = length (frame_bytes crc8_poly07 1 [2]), cmd_data = frame_bytes crc8_poly07 1 [2],
      rsp_data = frame_bytes crc8_poly07 1 [2] @ frame_bytes crc8_poly07 5 []\<rparr>"
  by (rule late_response_answers_next_command[OF same_crc_poly07 session_bus_facts(8,9,7) tst_bus_idle(4)
        session_bus_facts(1,3,2,4)])
    (simp_all only: session_bus_facts(5,6,10) MAX_DATA_LEN_def tst_bus_idle(4),
      use tst_writes[of "\<lparr>cmd_idx = 0, cmd_data = frame_bytes crc8_poly07 1 [2], rsp_data = []\<rparr>"]
        tst_writes[of "\<lparr>cmd_idx = length (frame_bytes crc8_poly07 1 [2]), cmd_data = frame_bytes crc8_poly07 1 [2],
          rsp_data = frame_bytes crc8_poly07 1 [2]\<rparr>"] tst_reads_all in \<open>simp_all\<close>)

section \<open>What becomes of any frame\<close>

text \<open>
  The data of a log message, read as the thread does: a level, a length, that many bytes or as
  many as there are, of which the last is dropped unless it is the only one.
\<close>

definition shown_chars :: "u8 \<Rightarrow> u8 list \<Rightarrow> u8 list" where
  "shown_chars n rest = (let chars = take (unat n) rest in if length chars > 1 then butlast chars else chars)"

definition log_message :: "u8 list \<Rightarrow> (int \<times> nat list) py" where
  "log_message ds =
     (case ds of
        level # n # rest \<Rightarrow>
          (case utf8_decode (shown_chars n rest) of
             None \<Rightarrow> Inl UnicodeDecodeError
           | Some cs \<Rightarrow> Inr (if level < 6 then PYTHON_LOG_LEVEL ! unat level else 40, cs))
      | _ \<Rightarrow> Inl IndexError)"

lemma unpack_u8_end:
  assumes "unpacks_from h u []"
  shows "unpack_u8 h u = Inl IndexError"
proof -
  obtain i where "pu_idx u = int i" "i = length (bytes_in h (pu_data u))"
    using assms by (auto simp: unpacks_from_def)
  then show ?thesis by (simp add: unpack_u8_def py_index_def)
qed

lemma unpack_data_take: "unpacks_from h u bs \<Longrightarrow> fst (unpack_data h (uint n) u) = take (unat n) bs"
  by (auto simp: unpacks_from_def unpack_data_def uint_nat py_slice_nat simp del: of_nat_unat)

lemma py_unpack_str_cases:
  assumes "unpacks_from h u bs"
  shows "case py_unpack_str h u of
      Inl ex \<Rightarrow> bs = [] \<and> ex = IndexError \<or>
        (\<exists>n rest. bs = n # rest \<and> ex = UnicodeDecodeError \<and> utf8_decode (shown_chars n rest) = None)
    | Inr (cs, _) \<Rightarrow> \<exists>n rest. bs = n # rest \<and> utf8_decode (shown_chars n rest) = Some cs"
proof (cases bs)
  case Nil
  with assms show ?thesis by (simp add: py_unpack_str_def unpack_u8_end)
next
  case (Cons n rest)
  obtain u1 where u1: "unpack_u8 h u = Inr (uint n, u1)" "unpacks_from h u1 rest"
    using unpack_u8_at assms unfolding Cons by blast
  obtain u2 where u2: "unpack_data h (uint n) u1 = (take (unat n) rest, u2)"
    using unpack_data_take[OF u1(2), of n] by (metis prod.collapse)
  have "py_unpack_str h u = (case utf8_decode (shown_chars n rest) of
      None \<Rightarrow> Inl UnicodeDecodeError | Some cs \<Rightarrow> Inr (cs, u2))"
    unfolding py_unpack_str_def shown_chars_def Let_def u1(1) bind_res_Inr prod.case u2 py_slice_butlast by (rule refl)
  with Cons show ?thesis
    by (cases "utf8_decode (shown_chars n rest)") simp_all
qed

lemma process_packet_any_log:
  assumes "get_command r (ib_heap b) = PY_LOG" "pkt_data (ib_heap b) r = ds"
  shows "process_packet r b =
    (case log_message ds of
       Inl ex \<Rightarrow> Inl ex
     | Inr (level, cs) \<Rightarrow> Inr (py_out [Py_log level cs] (b\<lparr>ib_heap := snd (get_data r (ib_heap b))\<rparr>)))"
proof -
  define h where "h = snd (get_data r (ib_heap b))"
  define a where "a = fst (get_data r (ib_heap b))"
  have "array_at h a = ds"
    using assms(2) by (simp add: h_def a_def get_data_def)
  then have at: "unpacks_from h (py_new_unpacker (ByteArray a)) ds"
    by (simp add: unpacks_from_def py_new_unpacker_def)
  note unfold = process_packet_def split_beta Let_def h_def[symmetric] a_def[symmetric] assms(1) if_True refl
  show ?thesis
  proof (cases ds)
    case Nil
    with at unpack_u8_end[of h] show ?thesis
      unfolding unfold by (simp add: log_message_def)
  next
    case (Cons level bs)
    obtain u1 where u1: "unpack_u8 h (py_new_unpacker (ByteArray a)) = Inr (uint level, u1)" "unpacks_from h u1 bs"
      using unpack_u8_at at unfolding Cons by blast
    show ?thesis
    proof (cases "py_unpack_str h u1")
      case (Inl ex)
      with py_unpack_str_cases[OF u1(2)] Cons u1(1) show ?thesis
        unfolding unfold by (auto simp: log_message_def Let_def simp del: utf8_decode.simps)
    next
      case (Inr got)
      obtain cs u2 where "got = (cs, u2)" by (cases got)
      with Inr py_unpack_str_cases[OF u1(2)] Cons u1(1) logging_level[of level] show ?thesis
        unfolding unfold by (auto simp: log_message_def Let_def simp del: utf8_decode.simps)
    qed
  qed
qed

lemma thread_any_log:
  assumes "same_crc crc crc_fn" "py_decoder_ok (ib_decoder b) (ib_heap b)" "pd_state (ib_decoder b) = PD_IDLE"
    and "py_reads vt (ib_device b) (frame_bytes crc 0x03 ds) s'" "length ds < MAX_DATA_LEN" "pv_is_open vt s'"
  shows "\<exists>t b' out. incoming_data_thread crc_fn vt (input_polls (length (frame_bytes crc 0x03 ds)) b) b = (t, b') \<and>
    ib_queue b' = ib_queue b \<and> ib_device b' = s' \<and> ib_out b' = ib_out b @ out \<and>
    (case log_message ds of
       Inl ex \<Rightarrow> t = Raised ex
     | Inr (level, cs) \<Rightarrow> t = Running \<and> out \<noteq> [] \<and> last out = Py_log level cs)"
proof -
  let ?f = "frame_bytes crc 0x03 ds" and ?r = "pd_packet (ib_decoder b)"
  have idle: "py_receiver_of (ib_decoder b) (ib_heap b) = R_Idle \<or> py_receiver_of (ib_decoder b) (ib_heap b) = R_Command False"
    using assms(3) by (simp add: py_receiver_of_def)
  from py_decode_frame[OF assms(2,1,5) idle, of "0x03"]
  obtain d h out where dec: "py_decode_stream crc_fn ?f (ib_decoder b) (ib_heap b)
       = Inr (replicate (length ?f - 1) ErrorCode_NOT_DONE @ [ErrorCode_NONE], d, h, out)"
    "pd_packet d = ?r" "get_command ?r h = uint (0x03 :: u8)" "pkt_data h ?r = ds"
    by metis
  let ?b1 = "py_received s' d h out b"
  have run: "incoming_data_thread crc_fn vt (input_polls (length (butlast ?f) + 1) b @ []) b =
      (case process_packet (pd_packet d) ?b1 of
         Inl ex \<Rightarrow> (Raised ex, ?b1) | Inr b' \<Rightarrow> incoming_data_thread crc_fn vt [] b')"
    by (rule thread_frame[where x = "last ?f" and err = ErrorCode_NONE])
      (use assms(4) dec(1) frame_nonempty(1)[of crc "0x03" ds] in \<open>simp_all add: py_codes\<close>)
  have polls: "input_polls (length (butlast ?f) + 1) b @ [] = input_polls (length ?f) b"
    using frame_nonempty(1)[of crc "0x03" ds] by simp
  have log: "process_packet (pd_packet d) ?b1 =
     (case log_message ds of Inl ex \<Rightarrow> Inl ex
      | Inr (level, cs) \<Rightarrow> Inr (py_out [Py_log level cs] (?b1\<lparr>ib_heap := snd (get_data ?r (ib_heap ?b1))\<rparr>)))"
    using process_packet_any_log[of ?r ?b1 ds] dec(3,4) unfolding dec(2) by (simp add: PY_LOG_def)
  show ?thesis
  proof (cases "log_message ds")
    case (Inl ex)
    with run log show ?thesis
      unfolding polls by (intro exI[of _ "Raised ex"] exI[of _ ?b1] exI[of _ out]) (simp del: incoming_data_thread.simps)
  next
    case (Inr got)
    obtain level cs where got: "got = (level, cs)" by (cases got)
    let ?b2 = "py_out [Py_log level cs] (?b1\<lparr>ib_heap := snd (get_data ?r (ib_heap ?b1))\<rparr>)"
    have b2: "ib_device ?b2 = s'" "ib_queue ?b2 = ib_queue b" "ib_out ?b2 = ib_out b @ out @ [Py_log level cs]"
      by (simp_all add: py_out_def)
    have "incoming_data_thread crc_fn vt [] ?b2 = (Running, ?b2)"
      using b2(1) assms(6) by simp
    with run log b2 Inr got show ?thesis
      unfolding polls
      by (intro exI[of _ Running] exI[of _ ?b2] exI[of _ "out @ [Py_log level cs]"]) (simp del: incoming_data_thread.simps)
  qed
qed

text \<open>C28: What a frame does to the receiving thread, whoever sent it: a frame of any command but
  \<open>LOG\<close> puts the packet into the queue and the thread goes on; a \<open>LOG\<close> frame is logged, if it has
  a level, a length and characters that are UTF-8, and leaves the queue alone; any other \<open>LOG\<close>
  frame ends the thread, with \<open>IndexError\<close> when it has less than two bytes of data and with
  \<open>UnicodeDecodeError\<close> otherwise.\<close>

theorem frame_verdict:
  assumes "same_crc crc crc_fn" "py_decoder_ok (ib_decoder b) (ib_heap b)" "pd_state (ib_decoder b) = PD_IDLE"
    and "py_reads vt (ib_device b) (frame_bytes crc c ds) s'" "length ds < MAX_DATA_LEN" "pv_is_open vt s'"
  shows "\<exists>t b' out. incoming_data_thread crc_fn vt (input_polls (length (frame_bytes crc c ds)) b) b = (t, b') \<and>
    ib_device b' = s' \<and>
    (if c \<noteq> 0x03 then
       t = Running \<and> ib_queue b' = ib_queue b @ [pd_packet (ib_decoder b')] \<and>
       get_command (pd_packet (ib_decoder b')) (ib_heap b') = uint c \<and> pkt_data (ib_heap b') (pd_packet (ib_decoder b')) = ds
     else ib_queue b' = ib_queue b \<and> ib_out b' = ib_out b @ out \<and>
       (case log_message ds of
          Inl ex \<Rightarrow> t = Raised ex
        | Inr (level, cs) \<Rightarrow> t = Running \<and> out \<noteq> [] \<and> last out = Py_log level cs))"
proof (cases "c = 0x03")
  case True
  with thread_any_log[OF assms(1-3) assms(4)[unfolded True] assms(5,6)] show ?thesis
    by (simp del: incoming_data_thread.simps) blast
next
  case False
  obtain b' where b': "incoming_data_thread crc_fn vt (input_polls (length (frame_bytes crc c ds)) b @ []) b
      = incoming_data_thread crc_fn vt [] b'"
    "ib_queue b' = ib_queue b @ [pd_packet (ib_decoder b)]" "pd_packet (ib_decoder b') = pd_packet (ib_decoder b)"
    "ib_device b' = s'" "get_command (pd_packet (ib_decoder b)) (ib_heap b') = uint c"
    "pkt_data (ib_heap b') (pd_packet (ib_decoder b)) = ds"
    by (rule thread_queues_frame[OF assms(1-5) False])
  then have "incoming_data_thread crc_fn vt (input_polls (length (frame_bytes crc c ds)) b) b = (Running, b')"
    using assms(6) by (simp add: incoming_data_thread.simps[of _ _ _ b'] del: incoming_data_thread.simps)
  with b' False show ?thesis
    by (intro exI[of _ Running] exI[of _ b']) (simp del: incoming_data_thread.simps)
qed

text \<open>A log message without data.\<close>

theorem frame_verdict_witness:
  "\<exists>t b'. incoming_data_thread py_crc8 tst_vt (input_polls (length (frame_bytes crc8_poly07 0x03 []))
      (tst_bus (frame_bytes crc8_poly07 0x03 []))) (tst_bus (frame_bytes crc8_poly07 0x03 [])) = (t, b') \<and>
    t = Raised IndexError \<and> ib_queue b' = []"
proof -
  let ?b = "tst_bus (frame_bytes crc8_poly07 0x03 [])"
  have "py_reads tst_vt (ib_device ?b) (frame_bytes crc8_poly07 0x03 [])
      \<lparr>cmd_idx = length (frame_bytes crc8_poly07 0x03 []), cmd_data = frame_bytes crc8_poly07 0x03 [], rsp_data = []\<rparr>"
    by (simp only: tst_bus_fields(4) tst_reads_all)
  from frame_verdict[OF same_crc_poly07 tst_bus_idle(1,2) this _ tst_bus_idle(4)] show ?thesis
    by (simp add: log_message_def MAX_DATA_LEN_def tst_bus_fields(6) del: incoming_data_thread.simps) blast
qed

end
