(* ===== verification/Py_Dump.thy ===== *)
theory Py_Dump
  imports Py_Packing
begin

text \<open>
  \<open>dump_mem\<close> of \<^verbatim>\<open>duino_bus/dump_mem.py\<close>, which prints the data of a packet: one buffer is made
  for a line and reused for all of them, through memoryviews on its parts. The lines are
  compared with the ones written out from scratch.
\<close>

section \<open>Text\<close>

text \<open>A \<^verbatim>\<open>str\<close> is the list of its code points. \<open>format_hex w i\<close> is \<^verbatim>\<open>f'{i:0wx}'\<close>.\<close>

definition hex_digit :: "nat \<Rightarrow> nat" where
  "hex_digit d = (if d < 10 then 0x30 + d else 0x57 + d)"

fun hex_digits :: "nat \<Rightarrow> nat list" where
  "hex_digits n = (if n < 16 then [hex_digit n] else hex_digits (n div 16) @ [hex_digit (n mod 16)])"

declare hex_digits.simps [simp del]

definition format_hex :: "nat \<Rightarrow> int \<Rightarrow> nat list" where
  "format_hex w i =
     (let ds = hex_digits (nat \<bar>i\<bar>); sign = (if i < 0 then [0x2D] else []) in
      sign @ replicate (w - length sign - length ds) 0x30 @ ds)"

definition ascii_bytes :: "nat list \<Rightarrow> u8 list py" where
  "ascii_bytes cs = (if list_all (\<lambda>c. c < 0x80) cs then Inr (map word_of_nat cs) else Inl UnicodeEncodeError)"

fun join_spaced :: "nat list list \<Rightarrow> nat list" where
  "join_spaced [] = []"
| "join_spaced [s] = s"
| "join_spaced (s # t # ss) = s @ 0x20 # join_spaced (t # ss)"

definition hexlify :: "u8 list \<Rightarrow> u8 list py" where
  "hexlify buf = ascii_bytes (join_spaced (map (\<lambda>b. format_hex 2 (uint b)) buf))"

section \<open>Memoryviews\<close>

text \<open>
  A memoryview is a range of the buffer. An assignment to a slice raises \<open>ValueError\<close> when
  the sizes differ; it never resizes.
\<close>

type_synonym mem_view = "nat \<times> nat"

definition view_slice :: "mem_view \<Rightarrow> int \<Rightarrow> int \<Rightarrow> mem_view" where
  "view_slice v i j =
     (let lo = nat (py_bound (int (snd v)) i); hi = nat (py_bound (int (snd v)) j) in (fst v + lo, hi - lo))"

definition view_assign :: "mem_view \<Rightarrow> u8 list \<Rightarrow> u8 list \<Rightarrow> u8 list py" where
  "view_assign v bs buf =
     (if length bs = snd v then Inr (take (fst v) buf @ bs @ drop (fst v + snd v) buf) else Inl ValueError)"

definition view_bytes :: "mem_view \<Rightarrow> u8 list \<Rightarrow> u8 list" where
  "view_bytes v buf = take (snd v) (drop (fst v) buf)"

definition py_range :: "int \<Rightarrow> int \<Rightarrow> int list" where
  "py_range i j = map (\<lambda>k. i + int k) [0..<nat (j - i)]"

section \<open>\<open>dump_mem\<close>\<close>

text \<open>What is fixed before the first line.\<close>

record dump_layout =
  dl_out :: mem_view
  dl_prefix_len :: int
  dl_hex_offset :: int
  dl_ascii_offset :: int
  dl_hex :: mem_view
  dl_ascii :: mem_view

definition dump_layout :: "u8 list \<Rightarrow> int \<Rightarrow> bool \<Rightarrow> bool \<Rightarrow> (dump_layout \<times> u8 list) py" where
  "dump_layout prefix_bytes line_width show_ascii show_addr =
     (let prefix_len = int (length prefix_bytes);
          prefix_len = (if prefix_len > 0 then prefix_len + 1 else prefix_len);
          max_len = prefix_len;
          max_len = (if show_addr then max_len + 6 else max_len);
          hex_offset = max_len;
          max_len = max_len + (line_width * 3 - 1);
          ascii_offset = (if show_ascii then max_len + 1 else 0);
          max_len = (if show_ascii then max_len + (line_width + 1) else max_len)
      in if max_len < 0 then Inl ValueError
         else
           let buf = replicate (nat max_len) 0; out_line = (0, nat max_len) in
           bind_res
             (if prefix_len > 0 then
                bind_res (view_assign (view_slice out_line 0 (prefix_len - 1)) prefix_bytes buf)
                  (view_assign (view_slice out_line (prefix_len - 1) prefix_len) [0x20])
              else Inr buf) (\<lambda>buf.
           let line_hex = view_slice out_line hex_offset (hex_offset + line_width * 3) in
           bind_res
             (if show_ascii then view_assign (view_slice out_line (ascii_offset - 1) ascii_offset) [0x20] buf
              else Inr buf) (\<lambda>buf.
           Inr (\<lparr>dl_out = out_line, dl_prefix_len = prefix_len, dl_hex_offset = hex_offset,
                  dl_ascii_offset = ascii_offset, dl_hex = line_hex,
                  dl_ascii = (if show_ascii then view_slice out_line ascii_offset (ascii_offset + line_width) else (0, 0))\<rparr>,
                buf))))"

text \<open>\<open>line_ascii[i]\<close> is read first, so \<open>i\<close> is in range when it is assigned.\<close>

definition mask_char :: "mem_view \<Rightarrow> u8 list \<Rightarrow> int \<Rightarrow> u8 list py" where
  "mask_char v buf i =
     bind_res (py_index (view_bytes v buf) i) (\<lambda>char.
       if char < 0x20 \<or> char > 0x7E then view_assign (view_slice v i (i + 1)) [0x2E] buf else Inr buf)"

definition dump_line ::
    "dump_layout \<Rightarrow> u8 list \<Rightarrow> int \<Rightarrow> bool \<Rightarrow> bool \<Rightarrow> int \<Rightarrow> int \<Rightarrow> u8 list \<Rightarrow> (nat list \<times> u8 list) py" where
  "dump_line l data line_width show_ascii show_addr offset addr buf =
     bind_res
       (if show_addr then
          bind_res (ascii_bytes (format_hex 4 addr @ [0x3A, 0x20])) (\<lambda>bs.
            view_assign (view_slice (dl_out l) (dl_prefix_len l) (dl_prefix_len l + 6)) bs buf)
        else Inr buf) (\<lambda>buf.
     let line_bytes = min (int (length data) - offset) line_width;
         line_data = py_slice data offset (offset + line_bytes) in
     bind_res (hexlify line_data) (\<lambda>hex.
     bind_res (view_assign (view_slice (dl_hex l) 0 (line_bytes * 3 - 1)) hex buf) (\<lambda>buf.
     bind_res
       (if show_ascii then
          bind_res
            (if line_bytes < line_width then
               fold_res (\<lambda>buf i. view_assign (view_slice (dl_hex l) i (i + 1)) [0x20] buf) buf
                 (py_range (line_bytes * 3 - 1) (line_width * 3))
             else Inr buf) (\<lambda>buf.
          bind_res (view_assign (view_slice (dl_ascii l) 0 line_bytes) line_data buf) (\<lambda>buf.
          bind_res (fold_res (mask_char (dl_ascii l)) buf (py_range 0 line_bytes)) (\<lambda>buf.
            Inr (buf, dl_ascii_offset l + line_bytes))))
        else Inr (buf, dl_hex_offset l + line_bytes * 3 - 1)) (\<lambda>(buf, out_len).
     case utf8_decode (py_slice buf 0 out_len) of
       None \<Rightarrow> Inl UnicodeDecodeError
     | Some line \<Rightarrow> Inr (line, buf)))))"

text \<open>The lines logged, and the exception that ended the call, if any.\<close>

fun dump_lines ::
    "dump_layout \<Rightarrow> u8 list \<Rightarrow> int \<Rightarrow> bool \<Rightarrow> bool \<Rightarrow> int list \<Rightarrow> int \<Rightarrow> u8 list \<Rightarrow> nat list list \<times> py_exn option" where
  "dump_lines l data line_width show_ascii show_addr [] addr buf = ([], None)"
| "dump_lines l data line_width show_ascii show_addr (offset # offsets) addr buf =
     (case dump_line l data line_width show_ascii show_addr offset addr buf of
        Inl ex \<Rightarrow> ([], Some ex)
      | Inr (line, buf) \<Rightarrow>
          apfst ((#) line) (dump_lines l data line_width show_ascii show_addr offsets (addr + line_width) buf))"

text \<open>\<^verbatim>\<open>range(0, n, step)\<close> with a positive step.\<close>

definition range_step :: "int \<Rightarrow> int \<Rightarrow> int list" where
  "range_step n step = map (\<lambda>k. int k * step) [0..<nat ((n + step - 1) div step)]"

definition dump_mem ::
    "u8 list option \<Rightarrow> nat list \<Rightarrow> int \<Rightarrow> int \<Rightarrow> bool \<Rightarrow> bool \<Rightarrow> nat list list \<times> py_exn option" where
  "dump_mem buf prefix addr line_width show_ascii show_addr =
     (let line_width = (if line_width < 0 then 16 else line_width);
          prefix = (if length prefix > 0 then prefix @ [0x3A] else prefix)
      in case buf of
           None \<Rightarrow> ([prefix @ map of_char ''No data''], None)
         | Some data \<Rightarrow>
             if length data = 0 then ([prefix @ map of_char ''No data''], None)
             else
               (case utf8_encode prefix of
                  None \<Rightarrow> ([], Some UnicodeEncodeError)
                | Some prefix_bytes \<Rightarrow>
                    (case dump_layout prefix_bytes line_width show_ascii show_addr of
                       Inl ex \<Rightarrow> ([], Some ex)
                     | Inr (l, out_line) \<Rightarrow>
                         if line_width = 0 then ([], Some ValueError)
                         else dump_lines l data line_width show_ascii show_addr
                           (range_step (int (length data)) line_width) addr out_line)))"

section \<open>Lengths and bytes of the texts\<close>

lemma hex_digits_range: "list_all (\<lambda>c. c < 0x80) (hex_digits n)"
proof (induction n rule: hex_digits.induct)
  case (1 n)
  then show ?case
    by (subst hex_digits.simps) (auto simp: hex_digit_def)
qed

lemma hex_digits_length: "0 < k \<Longrightarrow> length (hex_digits n) \<le> k \<longleftrightarrow> n < 16 ^ k"
proof (induction k arbitrary: n)
  case (Suc k)
  show ?case
  proof (cases "k = 0")
    case True
    have "0 < length (hex_digits m)" for m
      by (subst hex_digits.simps) simp
    with True show ?thesis
      by (subst hex_digits.simps) (auto simp: Suc_le_eq)
  next
    case False
    have "n < 16 ^ Suc k" if "n < 16"
      using that one_le_power[of "16 :: nat" k] unfolding power_Suc by linarith
    moreover have "n div 16 < 16 ^ k \<longleftrightarrow> n < 16 ^ Suc k"
      by (simp add: div_less_iff_less_mult mult.commute)
    ultimately show ?thesis
      using Suc.IH[of "n div 16"] False by (subst hex_digits.simps) auto
  qed
qed simp

lemma hex_digits_nonempty: "0 < length (hex_digits n)"
  by (subst hex_digits.simps) simp

lemma format_hex_range: "list_all (\<lambda>c. c < 0x80) (format_hex w i)"
  using hex_digits_range[of "nat \<bar>i\<bar>"] by (auto simp: format_hex_def list_all_iff Let_def)

text \<open>The address fits its four places iff it is between \<open>-0xFFF\<close> and \<open>0xFFFF\<close>.\<close>

lemma format_addr_length: "length (format_hex 4 i) = 4 \<longleftrightarrow> - 0x1000 < i \<and> i < 0x10000"
proof -
  have "length (hex_digits (nat \<bar>i\<bar>)) \<le> 4 \<longleftrightarrow> nat \<bar>i\<bar> < 0x10000" "length (hex_digits (nat \<bar>i\<bar>)) \<le> 3 \<longleftrightarrow> nat \<bar>i\<bar> < 0x1000"
    using hex_digits_length[of 4] hex_digits_length[of 3] by simp_all
  then show ?thesis
    using hex_digits_nonempty[of "nat \<bar>i\<bar>"] by (auto simp: format_hex_def Let_def)
qed

lemma format_byte_length: "length (format_hex 2 (uint (b :: u8))) = 2"
proof -
  have "nat (uint b) < 16 ^ 2"
    using unsigned_less[of b, where ?'a = nat] by simp
  with hex_digits_length[of 2 "nat (uint b)"] hex_digits_nonempty[of "nat (uint b)"] show ?thesis
    by (simp add: format_hex_def Let_def)
qed

lemma ascii_bytes_ok: "list_all (\<lambda>c. c < 0x80) cs \<Longrightarrow> ascii_bytes cs = Inr (map word_of_nat cs)"
  by (simp add: ascii_bytes_def)

definition hex_text :: "u8 list \<Rightarrow> nat list" where
  "hex_text buf = join_spaced (map (\<lambda>b. format_hex 2 (uint b)) buf)"

lemma hex_text_props: "list_all (\<lambda>c. c < 0x80) (hex_text bs)" "length (hex_text bs) = 3 * length bs - 1"
proof -
  show "list_all (\<lambda>c. c < 0x80) (hex_text bs)"
    using format_hex_range[of 2]
    by (induction bs rule: induct_list012) (simp_all add: hex_text_def)
  show "length (hex_text bs) = 3 * length bs - 1"
    by (induction bs rule: induct_list012) (simp_all add: hex_text_def format_byte_length)
qed

lemma hexlify_ok: "hexlify bs = Inr (map word_of_nat (hex_text bs))"
  unfolding hexlify_def hex_text_def[symmetric] by (rule ascii_bytes_ok[OF hex_text_props(1)])

lemma utf8_encode_append:
  "utf8_encode xs = Some bs \<Longrightarrow> utf8_encode ys = Some cs \<Longrightarrow> utf8_encode (xs @ ys) = Some (bs @ cs)"
  by (induction xs arbitrary: bs) (auto split: option.splits)

lemma utf8_encode_ascii: "list_all (\<lambda>c. c < 0x80) cs \<Longrightarrow> utf8_encode cs = Some (map word_of_nat cs)"
  by (induction cs) (simp_all add: utf8_char_def)

section \<open>Assignments to parts of the line\<close>

lemma view_assign_mid:
  "length xs = s \<Longrightarrow> length ys = n \<Longrightarrow>
     view_assign (s, n) bs (xs @ ys @ zs) = (if length bs = n then Inr (xs @ bs @ zs) else Inl ValueError)"
  by (auto simp: view_assign_def)

lemma view_slice_in:
  "0 \<le> i \<Longrightarrow> i \<le> j \<Longrightarrow> j \<le> int n \<Longrightarrow> view_slice (s, n) i j = (s + nat i, nat j - nat i)"
  by (auto simp: view_slice_def py_bound_def Let_def)

lemma py_range_Suc: "py_range (int a) (int a + int (Suc n)) = int a # py_range (int (Suc a)) (int (Suc a) + int n)"
  by (rule nth_equalityI) (auto simp: py_range_def nth_Cons nat_add_distrib simp del: upt_Suc split: nat.splits)

lemma py_range_snoc: "py_range 0 (int (Suc n)) = py_range 0 (int n) @ [int n]"
  by (simp add: py_range_def nat_add_distrib)

lemma fill_view:
  assumes "length xs = s + a" "length ys = n" "a + n \<le> m"
  shows "fold_res (\<lambda>buf i. view_assign (view_slice (s, m) i (i + 1)) [c] buf) (xs @ ys @ zs)
      (py_range (int a) (int a + int n)) = Inr (xs @ replicate n c @ zs)"
  using assms
proof (induction n arbitrary: a xs ys)
  case 0
  then show ?case by (simp add: py_range_def)
next
  case (Suc n)
  obtain y ys' where ys: "ys = y # ys'" "length ys' = n"
    using Suc.prems(2) by (cases ys) auto
  have "view_slice (s, m) (int a) (int a + 1) = (s + a, 1)"
    using Suc.prems(3) by (subst view_slice_in) (auto simp: nat_add_distrib)
  then have "view_assign (view_slice (s, m) (int a) (int a + 1)) [c] (xs @ ys @ zs) = Inr ((xs @ [c]) @ ys' @ zs)"
    using view_assign_mid[of xs "s + a" "[y]" 1 "[c]" "ys' @ zs"] Suc.prems(1) ys(1) by simp
  with Suc.IH[of "xs @ [c]" "Suc a" ys'] Suc.prems ys(2) show ?case
    unfolding py_range_Suc fold_res.simps by simp
qed

definition shown :: "u8 \<Rightarrow> u8" where
  "shown b = (if b < 0x20 \<or> b > 0x7E then 0x2E else b)"

lemma mask_view:
  assumes "length xs = s" "n \<le> length ds" "length ds \<le> m"
  shows "fold_res (mask_char (s, m)) (xs @ ds @ zs) (py_range 0 (int n))
    = Inr (xs @ map shown (take n ds) @ drop n ds @ zs)"
  using assms(2)
proof (induction n)
  case 0
  then show ?case by (simp add: py_range_def)
next
  case (Suc n)
  let ?x = "ds ! n" and ?pre = "xs @ map shown (take n ds)" and ?post = "drop (Suc n) ds @ zs"
  have split: "drop n ds = ?x # drop (Suc n) ds" "take (Suc n) ds = take n ds @ [?x]"
    using Suc.prems by (simp_all add: Cons_nth_drop_Suc take_Suc_conv_app_nth)
  have n: "n < length (view_bytes (s, m) (?pre @ [?x] @ ?post))" "view_bytes (s, m) (?pre @ [?x] @ ?post) ! n = ?x"
    using Suc.prems assms(1,3) by (simp_all add: view_bytes_def nth_append)
  have "view_slice (s, m) (int n) (int n + 1) = (s + n, 1)"
    using Suc.prems assms(3) by (subst view_slice_in) (auto simp: nat_add_distrib)
  then have "mask_char (s, m) (?pre @ [?x] @ ?post) (int n) = Inr (?pre @ [shown ?x] @ ?post)"
    using view_assign_mid[of ?pre "s + n" "[?x]" 1 "[0x2E]" ?post] Suc.prems assms(1) py_index_nat[OF n(1)] n(2)
    by (simp add: mask_char_def shown_def)
  with Suc.IH Suc.prems split show ?case
    unfolding py_range_snoc fold_res_append by simp
qed

section \<open>A line\<close>

text \<open>
  The line as it is meant: prefix, address, the bytes in hex, and the characters in their
  column, whatever the previous line was.
\<close>

definition line_of :: "nat list \<Rightarrow> nat \<Rightarrow> bool \<Rightarrow> bool \<Rightarrow> int \<times> u8 list \<Rightarrow> nat list" where
  "line_of prefix w show_ascii show_addr x =
     (case x of (addr, ds) \<Rightarrow>
        (if prefix = [] then [] else prefix @ [0x3A, 0x20]) @
        (if show_addr then format_hex 4 addr @ [0x3A, 0x20] else []) @ hex_text ds @
        (if show_ascii then replicate (3 * (w - length ds) + 1) 0x20 @ map (unat \<circ> shown) ds else []))"

definition line_layout :: "nat \<Rightarrow> nat \<Rightarrow> bool \<Rightarrow> bool \<Rightarrow> dump_layout" where
  "line_layout p w show_ascii show_addr =
     (let hs = p + (if show_addr then 6 else 0) in
      \<lparr>dl_out = (0, hs + (3 * w - 1) + (if show_ascii then w + 1 else 0)), dl_prefix_len = int p, dl_hex_offset = int hs,
       dl_ascii_offset = (if show_ascii then int (hs + 3 * w) else 0),
       dl_hex = (hs, if show_ascii then 3 * w else 3 * w - 1),
       dl_ascii = (if show_ascii then (hs + 3 * w, w) else (0, 0))\<rparr>)"

lemma line_layout_fields [simp]:
  "dl_out (line_layout p w sa sd) = (0, p + (if sd then 6 else 0) + (3 * w - 1) + (if sa then w + 1 else 0))"
  "dl_prefix_len (line_layout p w sa sd) = int p" "dl_hex_offset (line_layout p w sa sd) = int (p + (if sd then 6 else 0))"
  "dl_ascii_offset (line_layout p w sa sd) = (if sa then int (p + (if sd then 6 else 0) + 3 * w) else 0)"
  "dl_hex (line_layout p w sa sd) = (p + (if sd then 6 else 0), if sa then 3 * w else 3 * w - 1)"
  "dl_ascii (line_layout p w sa sd) = (if sa then (p + (if sd then 6 else 0) + 3 * w, w) else (0, 0))"
  by (simp_all add: line_layout_def Let_def)

text \<open>The buffer before every line: the prefix and the column between hex and characters are in place.\<close>

definition line_buf :: "u8 list \<Rightarrow> nat \<Rightarrow> bool \<Rightarrow> bool \<Rightarrow> u8 list \<Rightarrow> bool" where
  "line_buf P w show_ascii show_addr buf \<longleftrightarrow>
     (\<exists>A H T. buf = P @ A @ H @ (if show_ascii then [0x20] else []) @ T \<and> length A = (if show_addr then 6 else 0) \<and>
        length H = 3 * w - 1 \<and> length T = (if show_ascii then w else 0))"

lemma addr_text_ok: "ascii_bytes (format_hex 4 addr @ [0x3A, 0x20]) = Inr (map word_of_nat (format_hex 4 addr @ [0x3A, 0x20]))"
  by (rule ascii_bytes_ok) (use format_hex_range[of 4 addr] in simp)

lemma write_addr:
  assumes "length P = p" "length A = 6" "p + 6 \<le> N"
  shows "bind_res (ascii_bytes (format_hex 4 addr @ [0x3A, 0x20])) (\<lambda>bs.
      view_assign (view_slice (0, N) (int p) (int p + 6)) bs (P @ A @ zs)) =
    (if length (format_hex 4 addr) = 4 then Inr (P @ map word_of_nat (format_hex 4 addr @ [0x3A, 0x20]) @ zs)
     else Inl ValueError)"
proof -
  have "view_slice (0, N) (int p) (int p + 6) = (p, 6)"
    using assms(3) by (subst view_slice_in) (auto simp: nat_add_distrib)
  with view_assign_mid[of P p A 6] assms(1,2) show ?thesis
    by (simp add: addr_text_ok)
qed

text \<open>The hex column; of the part behind it, \<open>rest\<close>, nothing changes.\<close>

lemma write_hex:
  assumes "length xs = s" "length H = 3 * w - 1" "0 < length ds" "length ds \<le> w" "3 * w - 1 \<le> m"
  shows "view_assign (view_slice (s, m) 0 (int (length ds) * 3 - 1)) (map word_of_nat (hex_text ds)) (xs @ H @ rest)
    = Inr (xs @ map word_of_nat (hex_text ds) @ drop (3 * length ds - 1) H @ rest)"
proof -
  let ?n = "3 * length ds - 1"
  have "view_slice (s, m) 0 (int (length ds) * 3 - 1) = (s, ?n)"
    using assms(3-5) by (subst view_slice_in) auto
  moreover have "xs @ H @ rest = xs @ take ?n H @ drop ?n H @ rest"
    by (metis append_assoc append_take_drop_id)
  moreover have "length (take ?n H) = ?n"
    using assms(2,4) by simp
  ultimately show ?thesis
    using view_assign_mid[of xs s "take ?n H" ?n "map word_of_nat (hex_text ds)" "drop ?n H @ rest"] assms(1)
    by (simp only: length_map hex_text_props(2) if_True)
qed

lemma write_ascii:
  assumes "length xs = s" "length T = w" "length ds \<le> w"
  shows "bind_res (view_assign (view_slice (s, w) 0 (int (length ds))) ds (xs @ T)) (\<lambda>buf.
      fold_res (mask_char (s, w)) buf (py_range 0 (int (length ds))))
    = Inr (xs @ map shown ds @ drop (length ds) T)"
proof -
  have "view_slice (s, w) 0 (int (length ds)) = (s, length ds)"
    using assms(3) by (subst view_slice_in) auto
  then have "view_assign (view_slice (s, w) 0 (int (length ds))) ds (xs @ T) = Inr (xs @ ds @ drop (length ds) T)"
    using view_assign_mid[of xs s "take (length ds) T" "length ds" ds "drop (length ds) T"] assms by simp
  with mask_view[OF assms(1) order_refl assms(3), of "drop (length ds) T"] show ?thesis by simp
qed

text \<open>A short last line is filled with spaces; after a full one there is one space anyway.\<close>

lemma write_padding:
  assumes "length xs = s" "length H = 3 * w - 1" "0 < n" "n \<le> w" "length hs = 3 * n - 1"
  shows "(if int n < int w then
      fold_res (\<lambda>buf i. view_assign (view_slice (s, 3 * w) i (i + 1)) [0x20] buf)
        (xs @ hs @ drop (3 * n - 1) H @ [0x20] @ T) (py_range (int n * 3 - 1) (int w * 3))
      else Inr (xs @ hs @ drop (3 * n - 1) H @ [0x20] @ T)) =
    Inr (xs @ hs @ replicate (3 * (w - n) + 1) 0x20 @ T)"
proof (cases "n < w")
  case True
  let ?a = "3 * n - 1" and ?k = "3 * (w - n) + 1"
  have ints: "int n * 3 - 1 = int ?a" "int w * 3 = int ?a + int ?k"
    using assms(3) True by auto
  have "fold_res (\<lambda>buf i. view_assign (view_slice (s, 3 * w) i (i + 1)) [0x20] buf)
      ((xs @ hs) @ (drop ?a H @ [0x20]) @ T) (py_range (int ?a) (int ?a + int ?k)) = Inr ((xs @ hs) @ replicate ?k 0x20 @ T)"
    by (rule fill_view) (use assms True in auto)
  with True show ?thesis
    unfolding ints by simp
next
  case False
  with assms show ?thesis by simp
qed

lemma line_text:
  assumes "utf8_encode (if prefix = [] then [] else prefix @ [0x3A, 0x20]) = Some P"
  shows "utf8_decode (P @ (if show_addr then map word_of_nat (format_hex 4 addr @ [0x3A, 0x20]) else []) @
      map word_of_nat (hex_text ds) @ (if show_ascii then replicate (3 * (w - length ds) + 1) 0x20 @ map shown ds else []))
    = Some (line_of prefix w show_ascii show_addr (addr, ds))"
proof (rule utf8_decode_encode)
  let ?rest = "(if show_addr then format_hex 4 addr @ [0x3A, 0x20] else []) @ hex_text ds @
    (if show_ascii then replicate (3 * (w - length ds) + 1) 0x20 @ map (unat \<circ> shown) ds else [])"
  have "unat (shown b) < 0x80" for b
    by (auto simp: shown_def word_less_nat_alt)
  then have "list_all (\<lambda>c. c < 0x80) ?rest"
    using format_hex_range[of 4 addr] hex_text_props(1)[of ds] by (auto simp: list_all_iff)
  from utf8_encode_append[OF assms utf8_encode_ascii[OF this]]
  show "utf8_encode (line_of prefix w show_ascii show_addr (addr, ds)) = Some (P @
      (if show_addr then map word_of_nat (format_hex 4 addr @ [0x3A, 0x20]) else []) @ map word_of_nat (hex_text ds) @
      (if show_ascii then replicate (3 * (w - length ds) + 1) 0x20 @ map shown ds else []))"
    by (auto simp: line_of_def comp_def split: if_splits)
qed

definition addr_fits :: "bool \<Rightarrow> int \<times> u8 list \<Rightarrow> bool" where
  "addr_fits show_addr x \<longleftrightarrow> (show_addr \<longrightarrow> - 0x1000 < fst x \<and> fst x < 0x10000)"

lemma dump_line_bad:
  assumes "line_buf P w show_ascii show_addr buf" "\<not> addr_fits show_addr (addr, ds)"
  shows "dump_line (line_layout (length P) w show_ascii show_addr) data (int w) show_ascii show_addr offset addr buf = Inl ValueError"
proof -
  obtain A H T where "buf = P @ A @ H @ (if show_ascii then [0x20] else []) @ T" "length A = 6"
    using assms by (auto simp: line_buf_def addr_fits_def)
  with write_addr[OF refl, of A P] assms(2) show ?thesis
    by (auto simp: dump_line_def addr_fits_def format_addr_length)
qed

lemma dump_line_ok:
  assumes "line_buf P w show_ascii show_addr buf" "0 < w" "off < length data" "addr_fits show_addr (addr, ds)"
    and "utf8_encode (if prefix = [] then [] else prefix @ [0x3A, 0x20]) = Some P" "ds = take w (drop off data)"
  shows "\<exists>buf'. dump_line (line_layout (length P) w show_ascii show_addr) data (int w) show_ascii show_addr (int off) addr buf
      = Inr (line_of prefix w show_ascii show_addr (addr, ds), buf') \<and> line_buf P w show_ascii show_addr buf'"
proof -
  let ?l = "line_layout (length P) w show_ascii show_addr" and ?n = "length ds"
  define A' where "A' = (if show_addr then map word_of_nat (format_hex 4 addr @ [0x3A, 0x20]) else [] :: u8 list)"
  let ?H = "map word_of_nat (hex_text ds) :: u8 list" and ?S = "if show_ascii then [0x20] else [] :: u8 list"
  obtain A H T where buf: "buf = P @ A @ H @ ?S @ T" "length A = (if show_addr then 6 else 0)"
    "length H = 3 * w - 1" "length T = (if show_ascii then w else 0)"
    using assms(1) by (auto simp: line_buf_def)
  have n: "0 < ?n" "?n \<le> w" "min (int (length data) - int off) (int w) = int ?n" "py_slice data (int off) (int off + int ?n) = ds"
    using assms(2,3,6) by (auto simp: py_slice_nat min_def)
  have A: "length A' = (if show_addr then 6 else 0)"
    using assms(4) by (simp add: A'_def addr_fits_def format_addr_length[symmetric])
  have addr: "(if show_addr then bind_res (ascii_bytes (format_hex 4 addr @ [0x3A, 0x20])) (\<lambda>bs.
      view_assign (view_slice (dl_out ?l) (dl_prefix_len ?l) (dl_prefix_len ?l + 6)) bs buf) else Inr buf)
    = Inr ((P @ A') @ H @ ?S @ T)"
    using write_addr[OF refl, of A P] buf(1,2) assms(4)
    by (auto simp: A'_def addr_fits_def format_addr_length)
  have hex: "view_assign (view_slice (dl_hex ?l) 0 (int ?n * 3 - 1)) ?H ((P @ A') @ H @ ?S @ T)
    = Inr ((P @ A') @ ?H @ drop (3 * ?n - 1) H @ ?S @ T)"
    using write_hex[OF _ buf(3) n(1,2), of "P @ A'"] A by simp
  obtain k where k: "?n = Suc k" using n(1) gr0_implies_Suc by blast
  note steps = dump_line_def addr bind_res_Inr Let_def n(3,4) hexlify_ok hex
  show ?thesis
  proof (cases show_ascii)
    case True
    let ?pad = "replicate (3 * (w - ?n) + 1) 0x20 :: u8 list" and ?T = "map shown ds @ drop ?n T"
    let ?pre = "P @ A' @ ?H @ ?pad"
    have views: "dl_hex ?l = (length (P @ A'), 3 * w)" "dl_ascii ?l = (length ?pre, w)"
      "dl_ascii_offset ?l + int ?n = int (length (?pre @ map shown ds))"
      using True A n(2) by (auto simp: hex_text_props(2) k)
    have S: "?S = [0x20]" using True by simp
    have pad: "(if int ?n < int w then
        fold_res (\<lambda>buf i. view_assign (view_slice (dl_hex ?l) i (i + 1)) [0x20] buf)
          ((P @ A') @ ?H @ drop (3 * ?n - 1) H @ ?S @ T) (py_range (int ?n * 3 - 1) (int w * 3))
        else Inr ((P @ A') @ ?H @ drop (3 * ?n - 1) H @ ?S @ T)) = Inr (?pre @ T)"
      unfolding views(1) S
      by (rule trans[OF write_padding[OF refl buf(3) n(1,2)]]) (simp_all add: hex_text_props(2))
    have asc: "bind_res (view_assign (view_slice (dl_ascii ?l) 0 (int ?n)) ds (?pre @ T)) (\<lambda>buf.
        bind_res (fold_res (mask_char (dl_ascii ?l)) buf (py_range 0 (int ?n))) (\<lambda>buf. Inr (buf, dl_ascii_offset ?l + int ?n)))
      = Inr (?pre @ ?T, int (length (?pre @ map shown ds)))"
      using write_ascii[OF refl _ n(2), of T ?pre] buf(4) True
      unfolding views bind_res_assoc[symmetric] by simp
    have "py_slice (?pre @ ?T) 0 (int (length (?pre @ map shown ds))) = ?pre @ map shown ds"
      using py_slice_nat[of "?pre @ ?T" 0 "length (?pre @ map shown ds)"] by simp
    then have "dump_line ?l data (int w) show_ascii show_addr (int off) addr buf
        = Inr (line_of prefix w show_ascii show_addr (addr, ds), ?pre @ ?T)"
      using line_text[OF assms(5), of show_addr addr ds show_ascii w, folded A'_def] True
      unfolding steps pad asc by simp
    moreover have "line_buf P w show_ascii show_addr (?pre @ ?T)"
      unfolding line_buf_def
      by (rule exI[of _ A'], rule exI[of _ "?H @ replicate (3 * (w - ?n)) 0x20"], rule exI[of _ ?T])
        (use True A n(2) buf(4) in \<open>auto simp: hex_text_props(2) k replicate_app_Cons_same\<close>)
    ultimately show ?thesis by blast
  next
    case False
    let ?buf = "(P @ A') @ ?H @ drop (3 * ?n - 1) H @ ?S @ T"
    have len: "dl_hex_offset ?l + int ?n * 3 - 1 = int (length (P @ A' @ ?H))"
      using A by (auto simp: hex_text_props(2) k)
    have "py_slice ?buf 0 (int (length (P @ A' @ ?H))) = P @ A' @ ?H"
      using py_slice_nat[of ?buf 0 "length (P @ A' @ ?H)"] by simp
    then have "dump_line ?l data (int w) show_ascii show_addr (int off) addr buf
        = Inr (line_of prefix w show_ascii show_addr (addr, ds), ?buf)"
      using line_text[OF assms(5), of show_addr addr ds show_ascii w, folded A'_def] False
      unfolding steps len by simp
    moreover have "line_buf P w show_ascii show_addr ?buf"
      unfolding line_buf_def
      by (rule exI[of _ A'], rule exI[of _ "?H @ drop (3 * ?n - 1) H"], rule exI[of _ T])
        (use False A n(2) buf(3,4) in \<open>auto simp: hex_text_props(2) k\<close>)
    ultimately show ?thesis by blast
  qed
qed

section \<open>All lines\<close>

text \<open>The data cut into lines, each with its address.\<close>

fun addressed :: "nat \<Rightarrow> int \<Rightarrow> u8 list \<Rightarrow> (int \<times> u8 list) list" where
  "addressed w addr [] = []"
| "addressed w addr (b # bs) = (addr, b # take (w - 1) bs) # addressed w (addr + int w) (drop (w - 1) bs)"

lemma addressed_unfold:
  assumes "0 < w" "bs \<noteq> []"
  shows "addressed w addr bs = (addr, take w bs) # addressed w (addr + int w) (drop w bs)"
  using assms by (cases bs; cases w) simp_all

text \<open>The offsets from \<open>off\<close> on.\<close>

definition offsets_from :: "nat \<Rightarrow> nat \<Rightarrow> nat \<Rightarrow> int list" where
  "offsets_from off n w = map (\<lambda>k. int (off + k * w)) [0..<(n + w - 1) div w]"

lemma range_step_offsets:
  assumes "0 < w"
  shows "range_step (int n) (int w) = offsets_from 0 n w"
proof -
  have "int n + int w - 1 = int (n + w - 1)" using assms by simp
  then have "nat ((int n + int w - 1) div int w) = (n + w - 1) div w"
    by (simp only: zdiv_int[symmetric] nat_int)
  then show ?thesis by (simp add: range_step_def offsets_from_def)
qed

lemma offsets_from_unfold:
  assumes "0 < w" "0 < n"
  shows "offsets_from off n w = int off # offsets_from (off + w) (n - w) w"
proof -
  have "(n + w - 1) div w = Suc ((n - w + w - 1) div w)"
  proof (cases "w \<le> n")
    case True
    then have "n + w - 1 = (n - w + w - 1) + w" using assms by simp
    then show ?thesis using assms(1) by (simp only: div_add_self2)
  next
    case False
    then have "n + w - 1 = (n - 1) + w" "n - w = 0" "n - 1 < w" using assms by simp_all
    then show ?thesis using assms(1) by (simp only: div_add_self2) simp
  qed
  then have "[0..<(n + w - 1) div w] = 0 # map Suc [0..<(n - w + w - 1) div w]"
    by (simp only: upt_conv_Cons zero_less_Suc map_Suc_upt)
  then show ?thesis
    unfolding offsets_from_def by (simp add: comp_def algebra_simps)
qed

lemma dump_lines_ok:
  assumes "0 < w" "utf8_encode (if prefix = [] then [] else prefix @ [0x3A, 0x20]) = Some P"
    and "line_buf P w show_ascii show_addr buf"
  shows "dump_lines (line_layout (length P) w show_ascii show_addr) data (int w) show_ascii show_addr
      (offsets_from off (length data - off) w) addr buf =
    (let lines = addressed w addr (drop off data) in
     (map (line_of prefix w show_ascii show_addr) (takeWhile (addr_fits show_addr) lines),
      if list_all (addr_fits show_addr) lines then None else Some ValueError))"
  using assms(3)
proof (induction "length data - off" arbitrary: off addr buf rule: less_induct)
  case less
  let ?ds = "take w (drop off data)" and ?l = "line_layout (length P) w show_ascii show_addr"
  show ?case
  proof (cases "off < length data")
    case False
    with assms(1) show ?thesis by (simp add: offsets_from_def)
  next
    case True
    then have lines: "addressed w addr (drop off data) = (addr, ?ds) # addressed w (addr + int w) (drop (off + w) data)"
      using addressed_unfold[OF assms(1), of "drop off data"] by (simp add: add.commute)
    have offs: "offsets_from off (length data - off) w
        = int off # offsets_from (off + w) (length data - (off + w)) w"
      using offsets_from_unfold[OF assms(1)] True by simp
    show ?thesis
    proof (cases "addr_fits show_addr (addr, ?ds)")
      case False
      with dump_line_bad[OF less.prems False] show ?thesis
        unfolding offs lines by simp
    next
      case fits: True
      obtain buf' where line: "dump_line ?l data (int w) show_ascii show_addr (int off) addr buf
          = Inr (line_of prefix w show_ascii show_addr (addr, ?ds), buf')" "line_buf P w show_ascii show_addr buf'"
        using dump_line_ok[OF less.prems assms(1) True fits assms(2) refl] by blast
      have "length data - (off + w) < length data - off" using True assms(1) by simp
      from less.hyps[OF this line(2), of "addr + int w"] line(1) fits show ?thesis
        unfolding offs lines by (simp add: Let_def)
    qed
  qed
qed

section \<open>The layout\<close>

lemma view_assign_zeros:
  "length xs = s \<Longrightarrow> length bs = n \<Longrightarrow>
     view_assign (s, n) bs (xs @ replicate (n + k) 0) = Inr (xs @ bs @ replicate k 0)"
  using view_assign_mid[of xs s "replicate n 0" n bs "replicate k 0"] by (simp add: replicate_add)

lemma layout_prefix:
  assumes "P = (if pb = [] then [] else pb @ [0x20])" "N = length P + k"
  shows "(if 0 < int (length P) then
      bind_res (view_assign (view_slice (0, N) 0 (int (length P) - 1)) pb (replicate N 0))
        (view_assign (view_slice (0, N) (int (length P) - 1) (int (length P))) [0x20])
      else Inr (replicate N 0)) = Inr (P @ replicate k 0)"
proof (cases "pb = []")
  case False
  have "view_slice (0, N) 0 (int (length P) - 1) = (0, length pb)"
    "view_slice (0, N) (int (length P) - 1) (int (length P)) = (length pb, 1)"
    using False assms by (subst view_slice_in; simp add: nat_add_distrib)+
  moreover have "replicate N 0 = replicate (length pb + (1 + k)) (0 :: u8)"
    using False assms by simp
  ultimately show ?thesis
    using False assms(1) view_assign_zeros[of "[]" 0 pb "length pb" "1 + k"]
      view_assign_zeros[of pb "length pb" "[0x20]" 1 k] by simp
qed (use assms in simp)

lemma layout_column:
  assumes "length xs = s" "N = s + 1 + w"
  shows "view_assign (view_slice (0, N) (int s) (int s + 1)) [0x20] (xs @ replicate (1 + w) 0)
    = Inr (xs @ [0x20] @ replicate w 0)"
proof -
  have "view_slice (0, N) (int s) (int s + 1) = (s, 1)"
    using assms(2) by (subst view_slice_in) (auto simp: nat_add_distrib)
  with view_assign_zeros[OF assms(1), of "[0x20]" 1 w] show ?thesis by simp
qed

lemma dump_layout_ok:
  assumes "0 < w" "P = (if pb = [] then [] else pb @ [0x20])"
  shows "\<exists>buf. dump_layout pb (int w) show_ascii show_addr = Inr (line_layout (length P) w show_ascii show_addr, buf) \<and>
    line_buf P w show_ascii show_addr buf"
proof -
  define a :: nat where "a = (if show_addr then 6 else 0)"
  define t where "t = (if show_ascii then 1 + w else 0)"
  let ?h = "3 * w - 1" and ?Z = "\<lambda>n. replicate n (0 :: u8)"
  let ?N = "length P + (a + ?h + t)"
  have ints: "(if 0 < int (length pb) then int (length pb) + 1 else int (length pb)) = int (length P)"
    "(if show_addr then int (length P) + 6 else int (length P)) = int (length P + a)"
    "int (length P + a) + (int w * 3 - 1) = int (length P + a + ?h)"
    "(if show_ascii then int (length P + a + ?h) + (int w + 1) else int (length P + a + ?h)) = int ?N"
    "(if show_ascii then int (length P + a + ?h) + 1 else 0) = (if show_ascii then int (length P + a + 3 * w) else 0)"
    using assms by (auto simp: a_def t_def)
  let ?col = "(P @ ?Z (a + ?h)) @ (if show_ascii then [0x20] else []) @ ?Z (if show_ascii then w else 0)"
  have zeros: "P @ ?Z (a + ?h + t) = (P @ ?Z (a + ?h)) @ ?Z t"
    by (simp add: replicate_add)
  have column: "(if show_ascii then view_assign (view_slice (0, ?N) ((if show_ascii then int (length P + a + 3 * w) else 0) - 1)
        (if show_ascii then int (length P + a + 3 * w) else 0)) [0x20] (P @ ?Z (a + ?h + t)) else Inr (P @ ?Z (a + ?h + t)))
      = Inr ?col"
  proof (cases show_ascii)
    case True
    let ?s = "length P + (a + ?h)"
    have col: "int (length P + a + 3 * w) = int ?s + 1" using assms(1) by simp
    have "view_assign (view_slice (0, ?N) (int ?s) (int ?s + 1)) [0x20] ((P @ ?Z (a + ?h)) @ ?Z (1 + w))
        = Inr ((P @ ?Z (a + ?h)) @ [0x20] @ ?Z w)"
      by (rule layout_column) (use True in \<open>simp_all add: t_def\<close>)
    moreover have t: "t = 1 + w" using True by (simp add: t_def)
    ultimately show ?thesis
      by (simp only: t zeros[unfolded t] True if_True col add_diff_cancel_right')
  next
    case False
    then show ?thesis unfolding zeros by (simp add: t_def)
  qed
  have views: "view_slice (0, ?N) (int (length P + a)) (int (length P + a) + int w * 3)
      = (length P + a, if show_ascii then 3 * w else 3 * w - 1)"
    "(if show_ascii then view_slice (0, ?N) (if show_ascii then int (length P + a + 3 * w) else 0)
        ((if show_ascii then int (length P + a + 3 * w) else 0) + int w) else (0, 0))
      = (if show_ascii then (length P + a + 3 * w, w) else (0, 0))"
    using assms(1) by (auto simp: t_def view_slice_def py_bound_def Let_def)
  have "dump_layout pb (int w) show_ascii show_addr = Inr (line_layout (length P) w show_ascii show_addr, ?col)"
    unfolding dump_layout_def Let_def ints
    by (simp only: of_nat_less_0_iff if_False nat_int layout_prefix[OF assms(2) refl] bind_res_Inr column views
        line_layout_def Let_def a_def[symmetric]) (simp add: t_def)
  moreover have "line_buf P w show_ascii show_addr ?col"
    unfolding line_buf_def
    by (rule exI[of _ "?Z a"], rule exI[of _ "?Z ?h"], rule exI[of _ "?Z (if show_ascii then w else 0)"])
      (simp add: replicate_add a_def)
  ultimately show ?thesis by blast
qed

section \<open>Properties\<close>

lemma dump_mem_shows:
  assumes "0 < w" "data \<noteq> []" "utf8_encode prefix = Some pb"
  shows "dump_mem (Some data) prefix addr (int w) show_ascii show_addr =
    (let lines = addressed w addr data in
     (map (line_of prefix w show_ascii show_addr) (takeWhile (addr_fits show_addr) lines),
      if list_all (addr_fits show_addr) lines then None else Some ValueError))"
proof -
  let ?full = "if prefix = [] then [] else prefix @ [0x3A]"
  define qb where "qb = (if prefix = [] then [] else pb @ [0x3A])"
  define P where "P = (if qb = [] then [] else qb @ [0x20])"
  have qb: "utf8_encode ?full = Some qb"
    using assms(3) utf8_encode_append[OF assms(3), of "[0x3A]" "[0x3A]"] by (auto simp: qb_def utf8_char_def)
  have P: "utf8_encode (if prefix = [] then [] else prefix @ [0x3A, 0x20]) = Some P"
    using utf8_encode_append[OF assms(3), of "[0x3A, 0x20]" "[0x3A, 0x20]"] by (auto simp: P_def qb_def utf8_char_def)
  obtain buf where buf: "dump_layout qb (int w) show_ascii show_addr = Inr (line_layout (length P) w show_ascii show_addr, buf)"
    "line_buf P w show_ascii show_addr buf"
    using dump_layout_ok[OF assms(1) P_def] by blast
  have "dump_mem (Some data) prefix addr (int w) show_ascii show_addr =
      dump_lines (line_layout (length P) w show_ascii show_addr) data (int w) show_ascii show_addr
        (offsets_from 0 (length data - 0) w) addr buf"
    using assms(1,2) qb buf(1) range_step_offsets[OF assms(1), of "length data"]
    by (cases "prefix = []") (simp_all add: dump_mem_def Let_def)
  with dump_lines_ok[OF assms(1) P buf(2), of data 0 addr] show ?thesis by simp
qed

text \<open>C33: A memory dump shows the data: for a line width of at least one and a prefix that has an
  UTF-8 encoding, the lines that \<open>dump_mem\<close> builds in its one reused buffer are the ones written
  out from scratch, each with the prefix, its address, its bytes in hex and, in a column of its
  own, its printable characters; but a line whose address does not fit four places, above
  \<open>0xFFFF\<close> or below \<open>-0xFFF\<close>, ends the call with \<open>ValueError\<close> after the lines before it.\<close>

theorem dump_mem_shows_data:
  assumes "0 < w" "data \<noteq> []" "utf8_encode prefix = Some pb"
  shows "dump_mem (Some data) prefix addr (int w) show_ascii show_addr =
    (let lines = addressed w addr data in
     (map (line_of prefix w show_ascii show_addr) (takeWhile (addr_fits show_addr) lines),
      if list_all (addr_fits show_addr) lines then None else Some ValueError))"
  by (rule dump_mem_shows[OF assms])

theorem dump_mem_shows_data_witness:
  "dump_mem (Some [0x41, 0, 0x7E, 0x7F]) [0x50] 0xFFFE 2 True True =
    ([[0x50, 0x3A, 0x20, 0x66, 0x66, 0x66, 0x65, 0x3A, 0x20, 0x34, 0x31, 0x20, 0x30, 0x30, 0x20, 0x41, 0x2E]],
     Some ValueError)"
  using dump_mem_shows_data[of 2 "[0x41, 0, 0x7E, 0x7F]" "[0x50]" "[0x50]" "0xFFFE" True True]
  by (simp add: utf8_char_def addr_fits_def line_of_def hex_text_def format_hex_def hex_digits.simps hex_digit_def shown_def)

lemma addressed_concat: "0 < w \<Longrightarrow> concat (map snd (addressed w addr bs)) = bs"
  by (induction w addr bs rule: addressed.induct) simp_all

lemma addressed_bounds:
  assumes "x \<in> set (addressed w addr bs)" "0 < w"
  shows "addr \<le> fst x \<and> fst x < addr + int (length bs)"
  using assms
proof (induction w addr bs rule: addressed.induct)
  case (2 w addr b bs)
  show ?case
  proof (cases "fst x = addr")
    case False
    with 2 have "addr + int w \<le> fst x" "fst x < addr + int w + int (length (drop (w - 1) bs))"
      by auto
    moreover have "bs \<noteq> [] \<or> x \<in> {(addr, b # take (w - 1) bs)}" using 2(2) by auto
    ultimately show ?thesis using False 2(3) by (cases "w - 1 \<le> length bs") auto
  qed simp
qed simp

text \<open>The dump of a packet never fails and leaves nothing out: \<open>Packet.dump\<close> calls \<open>dump_mem\<close> with
  the data, if there is any, and a label; for up to \<open>0x10000\<close> bytes and a label with an UTF-8
  encoding no exception is raised, and the lines printed show consecutive pieces of the data
  that make up all of it. A codec with debugging on goes on after it as without.\<close>

theorem packet_dump_is_complete:
  assumes "py_dump label r h = [e, Py_dump_mem data label]" "length data \<le> 0x10000"
    and "utf8_encode (map of_char label) = Some pb"
  shows "pkt_data h r = data \<and>
    (\<exists>lines. dump_mem (Some data) (map of_char label) 0 16 True True
        = (map (line_of (map of_char label) 16 True True) lines, None) \<and>
      concat (map snd lines) = data)"
proof -
  have data: "pkt_data h r = data" "data \<noteq> []"
    using assms(1) by (auto simp: py_dump_def Let_def split: if_splits)
  let ?lines = "addressed 16 0 data"
  have fits: "addr_fits True x" if "x \<in> set ?lines" for x
    using addressed_bounds[OF that] assms(2) by (simp add: addr_fits_def)
  then have all: "takeWhile (addr_fits True) ?lines = ?lines" "list_all (addr_fits True) ?lines"
    by (simp_all add: takeWhile_eq_all_conv list_all_iff)
  have "dump_mem (Some data) (map of_char label) 0 16 True True
      = (map (line_of (map of_char label) 16 True True) ?lines, None)"
    using dump_mem_shows[of 16 data "map of_char label" pb 0 True True] data(2) assms(3)
    unfolding Let_def all(1) by (simp add: all(2))
  with data(1) addressed_concat[of 16 0 data] show ?thesis
    by (intro conjI exI[of _ ?lines]) simp_all
qed

theorem packet_dump_is_complete_witness:
  "\<exists>h r. pkt_data h r = [0x41] \<and>
    (\<exists>lines. dump_mem (Some [0x41]) (map of_char ''Rcvd'') 0 16 True True
        = (map (line_of (map of_char ''Rcvd'') 16 True True) lines, None) \<and>
      concat (map snd lines) = [0x41])"
proof -
  let ?h = "snd (py_new_packet (Some 5) (Some (Bytes [0x41])) \<lparr>hp_arrays = [], hp_packets = []\<rparr>)"
  obtain e where "py_dump ''Rcvd'' 0 ?h = [e, Py_dump_mem [0x41] ''Rcvd'']"
    by (simp add: py_dump_def py_new_packet_def new_array_def pkt_data_def packet_at_def array_at_def Let_def)
  from packet_dump_is_complete[OF this] show ?thesis
    by (intro exI[of _ ?h] exI[of _ 0]) (simp add: utf8_char_def)
qed

end
