(* ===== verification/Codec_Tests.thy ===== *)
theory Codec_Tests
  imports Codec_Runs Core_Handler
begin

text \<open>
  The unit tests of the repository as programs over the model: \<^verbatim>\<open>tests/PacketTest.cpp\<close>,
  \<^verbatim>\<open>tests/PacketDecoderTest.cpp\<close> and \<^verbatim>\<open>tests/PacketEncoderTest.cpp\<close>, one definition per helper
  and per test, with the test's name and its own strings. A test is the conjunction of its
  expectations, or the fault it runs into; it passes if it is \<open>Inr True\<close>.

  The storage of a packet and its CRC start unwritten in the tests. What they hold is part of
  the parameter \<open>w\<close>, so that a test that passes for every \<open>w\<close> does not depend on it.
\<close>

section \<open>What the tests use\<close>

text \<open>
  \<open>Crc8\<close> and \<open>AsciiHexToBinary\<close> are functions of \<^verbatim>\<open>duino_util\<close>; \<open>raw_storage w x n\<close> and
  \<open>raw_crc w x\<close> are what the \<open>n\<close> bytes of the array \<open>x\<close> and the CRC of the packet over it hold
  before they are written, \<open>raw_char\<close> what the encoder's \<open>m_escapeChar\<close> holds.
\<close>

record test_world =
  world_crc :: crc_fns
  AsciiHexToBinary :: "string \<Rightarrow> u8 list"
  raw_storage :: "string \<Rightarrow> nat \<Rightarrow> u8 list"
  raw_crc :: "string \<Rightarrow> u8"
  raw_char :: u8

text \<open>Bytes written in hexadecimal, separated by spaces.\<close>

definition hex_char :: "nat \<Rightarrow> char" where
  "hex_char n = ''0123456789abcdef'' ! n"

definition hex_byte :: "u8 \<Rightarrow> string" where
  "hex_byte b = [hex_char (unat b div 16), hex_char (unat b mod 16)]"

fun hex_text :: "u8 list \<Rightarrow> string" where
  "hex_text [] = []"
| "hex_text [b] = hex_byte b"
| "hex_text (b # bs) = hex_byte b @ CHR '' '' # hex_text bs"

text \<open>
  What is documented of the two functions: \<open>Crc8\<close> is the CRC-8 that
  \<^verbatim>\<open>crcmod.predefined.mkCrcFun('crc-8')\<close> computes (polynomial 7), and \<open>AsciiHexToBinary\<close>
  reads hexadecimal bytes. An array of \<open>n\<close> bytes has \<open>n\<close> bytes.
\<close>

definition world_ok :: "test_world \<Rightarrow> bool" where
  "world_ok w \<longleftrightarrow> world_crc w = crc8_poly07 \<and> (\<forall>bs. AsciiHexToBinary w (hex_text bs) = bs) \<and>
     (\<forall>x n. length (raw_storage w x n) = n)"

definition passes :: "bool res \<Rightarrow> bool" where
  "passes t \<longleftrightarrow> t = Inr True"

text \<open>\<open>ASSERT_DEATH\<close>: the statement must abort at an assertion.\<close>

definition assert_death :: "'a res \<Rightarrow> bool res" where
  "assert_death r = Inr (case r of Inl f \<Rightarrow> f = Assert_Failed | Inr x \<Rightarrow> False)"

text \<open>A packet over a local array.\<close>

definition local_packet :: "test_world \<Rightarrow> string \<Rightarrow> nat \<Rightarrow> packet" where
  "local_packet w x n = new_packet n (raw_storage w x n) (raw_crc w x)"

text \<open>\<open>EXPECT_EQ(getData()[i], b)\<close> for the bytes \<open>bs\<close> from index \<open>i\<close> on.\<close>

fun expect_data :: "nat \<Rightarrow> u8 list \<Rightarrow> packet \<Rightarrow> bool res" where
  "expect_data i [] p = Inr True"
| "expect_data i (b # bs) p =
     bind_res (read_at (getData p) i) (\<lambda>x.
     bind_res (expect_data (Suc i) bs p) (\<lambda>ok. Inr (x = b \<and> ok)))"

section \<open>PacketTest.cpp\<close>

definition AsStrTest :: "bool res" where
  "AsStrTest = Inr (
     as_str NONE = ''NONE'' \<and> as_str NOT_DONE = ''NOT_DONE'' \<and> as_str CRC = ''CRC'' \<and>
     as_str TIMEOUT = ''TIMEOUT'' \<and> as_str TOO_MUCH_DATA = ''TOO_MUCH_DATA'' \<and>
     as_str TOO_SMALL = ''TOO_SMALL'' \<and> as_str BAD_STATE = ''BAD_STATE'' \<and> as_str OS = ''OS'' \<and>
     as_str (OTHER_ERROR 0xff) = ''???'')"

text \<open>The two tests of \<open>dump\<close> expect nothing but that it returns.\<close>

definition dump_test :: "test_world \<Rightarrow> u8 \<Rightarrow> bool res" where
  "dump_test w cmd =
     (let pkt = setCommand cmd (local_packet w ''pktData'' 16) in
      bind_res (setData 3 [0x11, 0x22, 0x33] pkt) (\<lambda>pkt.
      bind_res (dump ''Test'' None pkt) (\<lambda>log. Inr True)))"

definition DumpTest :: "test_world \<Rightarrow> bool res" where
  "DumpTest w = dump_test w PING"

definition UnrecognizedCommandTest :: "test_world \<Rightarrow> bool res" where
  "UnrecognizedCommandTest w = dump_test w 0xff"

definition AppendTooManyBytesTest :: "test_world \<Rightarrow> bool res" where
  "AppendTooManyBytesTest w =
     bind_res (appendByte 0x31 (local_packet w ''pktData'' 4)) (\<lambda>pkt.
     bind_res (appendByte 0x32 pkt) (\<lambda>pkt.
     bind_res (appendByte 0x33 pkt) (\<lambda>pkt.
     bind_res (appendByte 0x34 pkt) (\<lambda>pkt.
       assert_death (appendByte 0x35 pkt)))))"

definition ExtractCrcTest :: "test_world \<Rightarrow> bool res" where
  "ExtractCrcTest w = assert_death (extractCrc (local_packet w ''pktData'' 4))"

definition AppendStrTest :: "test_world \<Rightarrow> bool res" where
  "AppendStrTest w =
     bind_res (append_str [0x44, 0x61, 0x74, 0x61, 0x00] (local_packet w ''pktData'' 16)) (\<lambda>pkt.
     bind_res (read_data pkt) (\<lambda>pktDataVec.
       Inr (getDataLength pkt = 6 \<and> [0x05, 0x44, 0x61, 0x74, 0x61, 0x00] = pktDataVec)))"

definition packet_tests :: "test_world \<Rightarrow> bool res list" where
  "packet_tests w =
     [AsStrTest, DumpTest w, UnrecognizedCommandTest w, AppendTooManyBytesTest w, ExtractCrcTest w,
      AppendStrTest w]"

section \<open>PacketDecoderTest.cpp\<close>

record decoder_test =
  dt_data :: "u8 list"
  dt_packet :: packet
  dt_decoder :: decoder

definition PacketDecoderTest :: "test_world \<Rightarrow> string \<Rightarrow> decoder_test" where
  "PacketDecoderTest w str =
     \<lparr>dt_data = AsciiHexToBinary w str, dt_packet = local_packet w ''m_packetData'' 15,
      dt_decoder = new_decoder\<rparr>"

text \<open>The loop of \<open>decodeData\<close>.\<close>

fun decode_until ::
    "crc_fns \<Rightarrow> u8 list \<Rightarrow> decoder \<Rightarrow> packet \<Rightarrow> (error \<times> decoder \<times> packet) res" where
  "decode_until crc [] d p = Inr (NOT_DONE, d, p)"
| "decode_until crc (b # bs) d p =
     bind_res (decodeByte crc None b d p) (\<lambda>(err, d, p, log).
       if err \<noteq> NOT_DONE then Inr (err, d, p) else decode_until crc bs d p)"

definition decodeData :: "crc_fns \<Rightarrow> decoder_test \<Rightarrow> (error \<times> decoder_test) res" where
  "decodeData crc t =
     bind_res (decode_until crc (dt_data t) (dt_decoder t) (dt_packet t)) (\<lambda>(err, d, p).
       Inr (err, t\<lparr>dt_decoder := d, dt_packet := p\<rparr>))"

definition set_decoder_debug :: "decoder_test \<Rightarrow> decoder_test" where
  "set_decoder_debug t = t\<lparr>dt_decoder := decoder_setDebug True (dt_decoder t)\<rparr>"

text \<open>The tests that expect an error code and nothing more, and those that look at the packet.\<close>

definition expect_code :: "test_world \<Rightarrow> error \<Rightarrow> decoder_test \<Rightarrow> bool res" where
  "expect_code w code t = bind_res (decodeData (world_crc w) t) (\<lambda>(err, t). Inr (err = code))"

definition expect_packet :: "test_world \<Rightarrow> u8 \<Rightarrow> u8 list \<Rightarrow> u8 \<Rightarrow> decoder_test \<Rightarrow> bool res" where
  "expect_packet w cmd ds rcvdCrc t =
     bind_res (decodeData (world_crc w) t) (\<lambda>(err, t).
     bind_res (expect_data 0 ds (dt_packet t)) (\<lambda>ok.
       Inr (err = NONE \<and> getCommand (dt_packet t) = cmd \<and> getDataLength (dt_packet t) = length ds \<and>
         ok \<and> getCrc (dt_packet t) = rcvdCrc)))"

definition EmptyPacketTest :: "test_world \<Rightarrow> bool res" where
  "EmptyPacketTest w = expect_code w NOT_DONE (PacketDecoderTest w ''c0 c0'')"

definition EmptyPacket2Test :: "test_world \<Rightarrow> bool res" where
  "EmptyPacket2Test w = expect_code w NOT_DONE (PacketDecoderTest w ''aa bb c0 c0 c0 c0'')"

definition NoDataTest :: "test_world \<Rightarrow> bool res" where
  "NoDataTest w =
     bind_res (decodeData (world_crc w) (PacketDecoderTest w ''c0 01 07 c0'')) (\<lambda>(err, t).
       Inr (err = NONE \<and> getCommand (dt_packet t) = PING))"

definition CrcErrorTest :: "test_world \<Rightarrow> bool res" where
  "CrcErrorTest w = expect_code w CRC (PacketDecoderTest w ''c0 01 08 c0'')"

definition CrcErrorDebugTest :: "test_world \<Rightarrow> bool res" where
  "CrcErrorDebugTest w = expect_code w CRC (set_decoder_debug (PacketDecoderTest w ''c0 01 08 c0''))"

definition TooSmallTest :: "test_world \<Rightarrow> bool res" where
  "TooSmallTest w = expect_code w TOO_SMALL (PacketDecoderTest w ''c0 01 c0'')"

definition OneByteDataTest :: "test_world \<Rightarrow> bool res" where
  "OneByteDataTest w = expect_packet w PING [0x02] 0x1b (PacketDecoderTest w ''c0 01 02 1b c0'')"

definition OneByteDataDebugTest :: "test_world \<Rightarrow> bool res" where
  "OneByteDataDebugTest w =
     expect_packet w PING [0x02] 0x1b (set_decoder_debug (PacketDecoderTest w ''c0 01 02 1b c0''))"

definition TwoBytesDataTest :: "test_world \<Rightarrow> bool res" where
  "TwoBytesDataTest w = expect_packet w PING [0x02, 0x03] 0x48 (PacketDecoderTest w ''c0 01 02 03 48 c0'')"

definition EscapeEndCommandTest :: "test_world \<Rightarrow> bool res" where
  "EscapeEndCommandTest w =
     expect_packet w 0xc0 [0x02, 0x03] 0xae (PacketDecoderTest w ''c0 db dc 02 03 ae c0'')"

definition EscapeEndDataTest :: "test_world \<Rightarrow> bool res" where
  "EscapeEndDataTest w =
     expect_packet w PING [0xc0, 0x03] 0x8f (PacketDecoderTest w ''c0 01 db dc 03 8f c0'')"

definition EscapeEscTest :: "test_world \<Rightarrow> bool res" where
  "EscapeEscTest w =
     expect_packet w 0xdb [0x02, 0x03] 0xe0 (PacketDecoderTest w ''c0 db dd 02 03 e0 c0'')"

definition EscapeOtherTest :: "test_world \<Rightarrow> bool res" where
  "EscapeOtherTest w =
     expect_packet w PING [0x02, 0x03] 0x48 (PacketDecoderTest w ''c0 db 01 02 03 48 c0'')"

definition FullDataTest :: "test_world \<Rightarrow> bool res" where
  "FullDataTest w = expect_code w NONE
     (PacketDecoderTest w ''c0 00 01 02 03 04 05 06 07 08 09 0a 0b 0c 0d 0e 14 c0'')"

definition TooMuchDataTest :: "test_world \<Rightarrow> bool res" where
  "TooMuchDataTest w = expect_code w TOO_MUCH_DATA
     (PacketDecoderTest w ''c0 00 01 02 03 04 05 06 07 08 09 0a 0b 0c 0d 0e 0f e0 c0'')"

definition TooMuchDataDebugTest :: "test_world \<Rightarrow> bool res" where
  "TooMuchDataDebugTest w = expect_code w TOO_MUCH_DATA (set_decoder_debug
     (PacketDecoderTest w ''c0 00 01 02 03 04 05 06 07 08 09 0a 0b 0c 0d 0e 0f e0 c0''))"

definition BadStateTest :: "test_world \<Rightarrow> bool res" where
  "BadStateTest w =
     (let t = PacketDecoderTest w ''c0 00 01 07 c0'' in
      expect_code w BAD_STATE (t\<lparr>dt_decoder := (dt_decoder t)\<lparr>d_state := D_OTHER\<rparr>\<rparr>))"

definition decoder_tests :: "test_world \<Rightarrow> bool res list" where
  "decoder_tests w =
     [EmptyPacketTest w, EmptyPacket2Test w, NoDataTest w, CrcErrorTest w, CrcErrorDebugTest w,
      TooSmallTest w, OneByteDataTest w, OneByteDataDebugTest w, TwoBytesDataTest w,
      EscapeEndCommandTest w, EscapeEndDataTest w, EscapeEscTest w, EscapeOtherTest w, FullDataTest w,
      TooMuchDataTest w, TooMuchDataDebugTest w, BadStateTest w]"

section \<open>PacketEncoderTest.cpp\<close>

text \<open>The packet of a test is at address 10; the variable \<open>nextByte\<close> starts unwritten.\<close>

record encoder_test =
  et_packets :: packet_store
  et_encodedData :: "u8 option list"
  et_encoder :: encoder

definition PacketEncoderTest :: "test_world \<Rightarrow> u8 \<Rightarrow> string \<Rightarrow> bool \<Rightarrow> encoder_test res option" where
  "PacketEncoderTest w cmd str debug =
     (let data = AsciiHexToBinary w str;
          pkt = setCommand cmd (local_packet w ''m_packetData'' 16);
          started = bind_res (setData (length data) data pkt) (\<lambda>pkt.
            encodeStart (world_crc w) None 10 (encoder_setDebug debug (new_encoder (raw_char w))) [10 \<mapsto> pkt]) in
      case started of
        Inl f \<Rightarrow> Some (Inl f)
      | Inr (e, h, log) \<Rightarrow>
          map_option (\<lambda>r. bind_res r (\<lambda>(err, e, out).
            Inr \<lparr>et_packets = h, et_encodedData = out, et_encoder = e\<rparr>))
            (encode_loop (world_crc w) h e None []))"

definition matches :: "test_world \<Rightarrow> string \<Rightarrow> encoder_test \<Rightarrow> bool" where
  "matches w expectedAsciiHexData t \<longleftrightarrow>
     map Some (AsciiHexToBinary w expectedAsciiHexData) = et_encodedData t"

text \<open>A test whose constructor does not return does not pass.\<close>

definition expect_encoded :: "test_world \<Rightarrow> string \<Rightarrow> encoder_test res option \<Rightarrow> bool res" where
  "expect_encoded w expected t =
     (case t of None \<Rightarrow> Inr False | Some r \<Rightarrow> bind_res r (\<lambda>t. Inr (matches w expected t)))"

definition Encoder_NoDataTest :: "test_world \<Rightarrow> bool res" where
  "Encoder_NoDataTest w = expect_encoded w ''c0 01 07 c0'' (PacketEncoderTest w PING '''' False)"

definition Encoder_OneByteDataTest :: "test_world \<Rightarrow> bool res" where
  "Encoder_OneByteDataTest w =
     expect_encoded w ''c0 01 02 1b c0'' (PacketEncoderTest w PING ''02'' False)"

definition Encoder_OneByteDataDebugTest :: "test_world \<Rightarrow> bool res" where
  "Encoder_OneByteDataDebugTest w =
     expect_encoded w ''c0 01 02 1b c0'' (PacketEncoderTest w PING ''02'' True)"

definition Encoder_TwoBytesDataTest :: "test_world \<Rightarrow> bool res" where
  "Encoder_TwoBytesDataTest w =
     expect_encoded w ''c0 01 02 03 48 c0'' (PacketEncoderTest w PING ''02 03'' False)"

definition Encoder_EscapeEndTest :: "test_world \<Rightarrow> bool res" where
  "Encoder_EscapeEndTest w =
     expect_encoded w ''c0 db dc 02 03 ae c0'' (PacketEncoderTest w 0xc0 ''02 03'' False)"

definition Encoder_EscapeEscTest :: "test_world \<Rightarrow> bool res" where
  "Encoder_EscapeEscTest w =
     expect_encoded w ''c0 db dd 02 03 e0 c0'' (PacketEncoderTest w 0xdb ''02 03'' False)"

definition Encoder_BadStateTest :: "test_world \<Rightarrow> bool res" where
  "Encoder_BadStateTest w =
     (case PacketEncoderTest w PING '''' False of
        None \<Rightarrow> Inr False
      | Some r \<Rightarrow>
          bind_res r (\<lambda>t.
          bind_res (encodeStart (world_crc w) None 10 (et_encoder t) (et_packets t)) (\<lambda>(e, h, log).
          bind_res (encodeByte (world_crc w) h (e\<lparr>e_state := E_OTHER\<rparr>) None) (\<lambda>(err, e, nextByte).
            Inr (err = BAD_STATE)))))"

definition AppendDataFullTest :: "test_world \<Rightarrow> bool res" where
  "AppendDataFullTest w =
     bind_res (setData 0 [] (local_packet w ''packetData'' 4)) (\<lambda>packet.
       assert_death (appendData 5 [1, 2, 3, 4, 5] packet))"

definition encoder_tests :: "test_world \<Rightarrow> bool res list" where
  "encoder_tests w =
     [Encoder_NoDataTest w, Encoder_OneByteDataTest w, Encoder_OneByteDataDebugTest w,
      Encoder_TwoBytesDataTest w, Encoder_EscapeEndTest w, Encoder_EscapeEscTest w,
      Encoder_BadStateTest w, AppendDataFullTest w]"

section \<open>Reading the strings of the tests\<close>

lemma world_crc_ok: "world_ok w \<Longrightarrow> world_crc w = crc8_poly07"
  by (simp add: world_ok_def)

lemma hex_read: "world_ok w \<Longrightarrow> hex_text bs = str \<Longrightarrow> AsciiHexToBinary w str = bs"
  by (auto simp: world_ok_def)

lemma local_packet_wf:
  assumes "world_ok w" "n < size_range"
  shows "packet_wf (local_packet w x n)" "contents (local_packet w x n) = []" "m_maxDataLen (local_packet w x n) = n"
    "m_dataLen (local_packet w x n) = 0"
  using assms by (simp_all add: local_packet_def world_ok_def new_packet_def packet_wf_def contents_def)

lemma hex_strings:
  assumes "world_ok w"
  shows "AsciiHexToBinary w '''' = []"
    "AsciiHexToBinary w ''02'' = [0x02]"
    "AsciiHexToBinary w ''02 03'' = [0x02, 0x03]"
    "AsciiHexToBinary w ''c0 c0'' = [0xc0, 0xc0]"
    "AsciiHexToBinary w ''aa bb c0 c0 c0 c0'' = [0xaa, 0xbb, 0xc0, 0xc0, 0xc0, 0xc0]"
    "AsciiHexToBinary w ''c0 01 07 c0'' = [0xc0, 0x01, 0x07, 0xc0]"
    "AsciiHexToBinary w ''c0 01 08 c0'' = [0xc0, 0x01, 0x08, 0xc0]"
    "AsciiHexToBinary w ''c0 01 c0'' = [0xc0, 0x01, 0xc0]"
    "AsciiHexToBinary w ''c0 00 01 07 c0'' = [0xc0, 0x00, 0x01, 0x07, 0xc0]"
    "AsciiHexToBinary w ''c0 01 02 1b c0'' = [0xc0, 0x01, 0x02, 0x1b, 0xc0]"
    "AsciiHexToBinary w ''c0 01 02 03 48 c0'' = [0xc0, 0x01, 0x02, 0x03, 0x48, 0xc0]"
    "AsciiHexToBinary w ''c0 db dc 02 03 ae c0'' = [0xc0, 0xdb, 0xdc, 0x02, 0x03, 0xae, 0xc0]"
    "AsciiHexToBinary w ''c0 01 db dc 03 8f c0'' = [0xc0, 0x01, 0xdb, 0xdc, 0x03, 0x8f, 0xc0]"
    "AsciiHexToBinary w ''c0 db dd 02 03 e0 c0'' = [0xc0, 0xdb, 0xdd, 0x02, 0x03, 0xe0, 0xc0]"
    "AsciiHexToBinary w ''c0 db 01 02 03 48 c0'' = [0xc0, 0xdb, 0x01, 0x02, 0x03, 0x48, 0xc0]"
    "AsciiHexToBinary w ''c0 00 01 02 03 04 05 06 07 08 09 0a 0b 0c 0d 0e 14 c0'' =
       [0xc0, 0, 1, 2, 3, 4, 5, 6, 7, 8, 9, 0xa, 0xb, 0xc, 0xd, 0xe, 0x14, 0xc0]"
    "AsciiHexToBinary w ''c0 00 01 02 03 04 05 06 07 08 09 0a 0b 0c 0d 0e 0f e0 c0'' =
       [0xc0, 0, 1, 2, 3, 4, 5, 6, 7, 8, 9, 0xa, 0xb, 0xc, 0xd, 0xe, 0xf, 0xe0, 0xc0]"
  by (rule hex_read[OF assms], simp add: hex_byte_def hex_char_def)+

section \<open>The decoder tests pass\<close>

text \<open>\<open>decodeData\<close> on the abstract receiver: the first outcome that is not pending.\<close>

fun first_outcome :: "crc_fns \<Rightarrow> nat \<Rightarrow> u8 list \<Rightarrow> receiver \<Rightarrow> outcome" where
  "first_outcome crc cap [] r = Pending"
| "first_outcome crc cap (b # bs) r =
     (case receive crc cap b r of (out, r) \<Rightarrow> if out = Pending then first_outcome crc cap bs r else out)"

lemma decode_until_refines:
  assumes "packet_wf p" "decoder_ok d"
  shows "\<exists>d' p'. decode_until crc bs d p
      = Inr (outcome_error (first_outcome crc (m_maxDataLen p) bs (receiver_of d p)), d', p') \<and>
    delivered_in (first_outcome crc (m_maxDataLen p) bs (receiver_of d p)) p' \<and> packet_wf p'"
  using assms
proof (induction bs arbitrary: d p)
  case Nil
  then show ?case by simp
next
  case (Cons b bs)
  obtain d1 p1 log where step:
    "decodeByte crc None b d p
       = Inr (outcome_error (fst (receive crc (m_maxDataLen p) b (receiver_of d p))), d1, p1, log)"
    "receiver_of d1 p1 = snd (receive crc (m_maxDataLen p) b (receiver_of d p))"
    "step_frame d p d1 p1"
    "delivered_in (fst (receive crc (m_maxDataLen p) b (receiver_of d p))) p1"
    using decode_step_refines[OF Cons.prems, where crc = crc and bus = None and b = b] by metis
  note frame = step_frameD[OF step(3)]
  obtain out r where rec: "receive crc (m_maxDataLen p) b (receiver_of d p) = (out, r)" by fastforce
  have pending: "outcome_error out = NOT_DONE \<longleftrightarrow> out = Pending" by (cases out) simp_all
  show ?case
    using step rec frame(1,3) Cons.IH[OF frame(1,2)] pending by auto
qed

lemma expect_data_contents:
  "packet_wf p \<Longrightarrow> contents p = xs @ bs \<Longrightarrow> expect_data (length xs) bs p = Inr True"
proof (induction bs arbitrary: xs)
  case (Cons b bs)
  have "length xs < m_dataLen p"
    using length_contents[OF Cons.prems(1)] unfolding Cons.prems(2) by simp
  moreover have "getData p ! length xs = contents p ! length xs"
    using calculation by (simp add: getData_def contents_def)
  ultimately have "read_at (getData p) (length xs) = Inr b"
    using Cons.prems packet_wf_bounds(2)[OF Cons.prems(1)] by (simp add: read_at_def getData_def)
  with Cons.IH[of "xs @ [b]"] Cons.prems show ?case by simp
qed simp

lemma decodeData_outcome:
  assumes "world_ok w" "AsciiHexToBinary w str = bs" "first_outcome crc8_poly07 15 bs R_Idle = out"
    and "t = PacketDecoderTest w str \<or> t = set_decoder_debug (PacketDecoderTest w str)"
  obtains t' where "decodeData (world_crc w) t = Inr (outcome_error out, t')"
    "delivered_in out (dt_packet t')" "packet_wf (dt_packet t')"
proof -
  have p: "packet_wf (local_packet w x 15)" "m_maxDataLen (local_packet w x 15) = 15" for x
    using local_packet_wf[OF assms(1), of 15 x] by (simp_all add: size_range_def)
  have t: "dt_data t = bs" "dt_packet t = local_packet w ''m_packetData'' 15" "decoder_ok (dt_decoder t)"
    "receiver_of (dt_decoder t) q = R_Idle" for q
    using assms(2,4) by (auto simp: PacketDecoderTest_def set_decoder_debug_def)
  obtain d' p' where "decode_until crc8_poly07 bs (dt_decoder t) (dt_packet t) = Inr (outcome_error out, d', p')"
    "delivered_in out p'" "packet_wf p'"
    using decode_until_refines[of "dt_packet t" "dt_decoder t" crc8_poly07 bs] p t assms(3) by auto
  with that[of "t\<lparr>dt_decoder := d', dt_packet := p'\<rparr>"] t(1) world_crc_ok[OF assms(1)] show thesis
    by (simp add: decodeData_def)
qed

lemma expect_code_passes:
  assumes "world_ok w" "AsciiHexToBinary w str = bs" "outcome_error (first_outcome crc8_poly07 15 bs R_Idle) = code"
    and "t = PacketDecoderTest w str \<or> t = set_decoder_debug (PacketDecoderTest w str)"
  shows "passes (expect_code w code t)"
proof -
  obtain t' where "decodeData (world_crc w) t = Inr (code, t')"
    using decodeData_outcome[OF assms(1,2) refl assms(4)] unfolding assms(3) by metis
  then show ?thesis by (simp add: expect_code_def passes_def)
qed

lemma expect_packet_passes:
  assumes "world_ok w" "AsciiHexToBinary w str = bs" "first_outcome crc8_poly07 15 bs R_Idle = Delivered cmd ds x"
    and "t = PacketDecoderTest w str \<or> t = set_decoder_debug (PacketDecoderTest w str)"
  shows "passes (expect_packet w cmd ds x t)"
proof -
  obtain t' where t': "decodeData (world_crc w) t = Inr (NONE, t')" "m_command (dt_packet t') = cmd"
    "contents (dt_packet t') = ds" "m_crc (dt_packet t') = x" "packet_wf (dt_packet t')"
    using decodeData_outcome[OF assms] by auto
  moreover have "m_dataLen (dt_packet t') = length ds"
    using t'(3,5) by auto
  moreover have "expect_data 0 ds (dt_packet t') = Inr True"
    using expect_data_contents[OF t'(5), of "[]" ds] t'(3) by simp
  ultimately show ?thesis
    by (simp add: passes_def expect_packet_def getCommand_def getDataLength_def getCrc_def)
qed

text \<open>The outcomes of the strings, each by running the abstract receiver.\<close>

lemma test_crcs:
  "frame_crc crc8_poly07 0x01 [] = 0x07"
  "frame_crc crc8_poly07 0x01 [0x02] = 0x1b"
  "frame_crc crc8_poly07 0x01 [0x02, 0x03] = 0x48"
  "frame_crc crc8_poly07 0xc0 [0x02, 0x03] = 0xae"
  "frame_crc crc8_poly07 0x01 [0xc0, 0x03] = 0x8f"
  "frame_crc crc8_poly07 0xdb [0x02, 0x03] = 0xe0"
  "frame_crc crc8_poly07 0 [1, 2, 3, 4, 5, 6, 7, 8, 9, 0xa, 0xb, 0xc, 0xd, 0xe] = 0x14"
  by (simp_all add: crc8_examples) code_simp+

lemma test_outcomes:
  "first_outcome crc8_poly07 15 [0xc0, 0xc0] R_Idle = Pending"
  "first_outcome crc8_poly07 15 [0xaa, 0xbb, 0xc0, 0xc0, 0xc0, 0xc0] R_Idle = Pending"
  "first_outcome crc8_poly07 15 [0xc0, 0x01, 0x07, 0xc0] R_Idle = Delivered 0x01 [] 0x07"
  "first_outcome crc8_poly07 15 [0xc0, 0x01, 0x08, 0xc0] R_Idle = Bad_Crc"
  "first_outcome crc8_poly07 15 [0xc0, 0x01, 0xc0] R_Idle = Too_Small"
  "first_outcome crc8_poly07 15 [0xc0, 0x01, 0x02, 0x1b, 0xc0] R_Idle = Delivered 0x01 [0x02] 0x1b"
  "first_outcome crc8_poly07 15 [0xc0, 0x01, 0x02, 0x03, 0x48, 0xc0] R_Idle = Delivered 0x01 [0x02, 0x03] 0x48"
  "first_outcome crc8_poly07 15 [0xc0, 0xdb, 0xdc, 0x02, 0x03, 0xae, 0xc0] R_Idle = Delivered 0xc0 [0x02, 0x03] 0xae"
  "first_outcome crc8_poly07 15 [0xc0, 0x01, 0xdb, 0xdc, 0x03, 0x8f, 0xc0] R_Idle = Delivered 0x01 [0xc0, 0x03] 0x8f"
  "first_outcome crc8_poly07 15 [0xc0, 0xdb, 0xdd, 0x02, 0x03, 0xe0, 0xc0] R_Idle = Delivered 0xdb [0x02, 0x03] 0xe0"
  "first_outcome crc8_poly07 15 [0xc0, 0xdb, 0x01, 0x02, 0x03, 0x48, 0xc0] R_Idle = Delivered 0x01 [0x02, 0x03] 0x48"
  by (simp_all add: receive_end_def frame_consts unescape_def test_crcs)

lemma test_outcomes_long:
  "outcome_error (first_outcome crc8_poly07 15
     [0xc0, 0, 1, 2, 3, 4, 5, 6, 7, 8, 9, 0xa, 0xb, 0xc, 0xd, 0xe, 0x14, 0xc0] R_Idle) = NONE"
  "outcome_error (first_outcome crc8_poly07 15
     [0xc0, 0, 1, 2, 3, 4, 5, 6, 7, 8, 9, 0xa, 0xb, 0xc, 0xd, 0xe, 0xf, 0xe0, 0xc0] R_Idle) = TOO_MUCH_DATA"
  by (simp_all add: receive_end_def frame_consts unescape_def test_crcs)

lemma decoder_tests_pass:
  assumes "world_ok w"
  shows "list_all passes (decoder_tests w)"
proof -
  note code = expect_code_passes[OF assms] and packet = expect_packet_passes[OF assms]
  note defs = EmptyPacketTest_def EmptyPacket2Test_def CrcErrorTest_def CrcErrorDebugTest_def
    TooSmallTest_def OneByteDataTest_def OneByteDataDebugTest_def TwoBytesDataTest_def
    EscapeEndCommandTest_def EscapeEndDataTest_def EscapeEscTest_def EscapeOtherTest_def FullDataTest_def
    TooMuchDataTest_def TooMuchDataDebugTest_def PING_def
  have codes: "passes (EmptyPacketTest w)" "passes (EmptyPacket2Test w)" "passes (CrcErrorTest w)"
    "passes (CrcErrorDebugTest w)" "passes (TooSmallTest w)" "passes (FullDataTest w)"
    "passes (TooMuchDataTest w)" "passes (TooMuchDataDebugTest w)"
    unfolding defs by (rule code, rule hex_strings[OF assms], simp only: test_outcomes test_outcomes_long outcome_error.simps, blast)+
  have packets: "passes (OneByteDataTest w)" "passes (OneByteDataDebugTest w)" "passes (TwoBytesDataTest w)"
    "passes (EscapeEndCommandTest w)" "passes (EscapeEndDataTest w)" "passes (EscapeEscTest w)"
    "passes (EscapeOtherTest w)"
    unfolding defs by (rule packet, rule hex_strings[OF assms], rule test_outcomes, blast)+
  have "passes (NoDataTest w)"
  proof -
    obtain t where "decodeData (world_crc w) (PacketDecoderTest w ''c0 01 07 c0'') = Inr (NONE, t)"
      "m_command (dt_packet t) = 0x01"
      using decodeData_outcome[OF assms hex_strings(6)[OF assms] test_outcomes(3)] by auto
    then show ?thesis by (simp add: NoDataTest_def passes_def getCommand_def PING_def)
  qed
  moreover have "passes (BadStateTest w)"
    using hex_strings(9)[OF assms]
    by (simp add: BadStateTest_def expect_code_def decodeData_def PacketDecoderTest_def new_decoder_def
        decodeByte_def frame_consts passes_def)
  ultimately show ?thesis
    using codes packets by (simp add: decoder_tests_def)
qed

section \<open>The packet and encoder tests pass\<close>

lemma dump_test_passes:
  assumes "world_ok w"
  shows "passes (dump_test w cmd)"
proof -
  let ?p = "setCommand cmd (local_packet w ''pktData'' 16)"
  have p: "packet_wf ?p" "m_maxDataLen ?p = 16" "m_dataLen ?p = 0"
    using local_packet_wf[OF assms, of 16 "''pktData''"] by (simp_all add: setCommand_def size_range_def)
  then have "setData 3 [0x11, 0x22, 0x33] ?p = Inr (put [0x11, 0x22, 0x33] (?p\<lparr>m_dataLen := 0\<rparr>))"
    by (simp add: setData_put)
  moreover have "packet_wf (put [0x11, 0x22, 0x33] (?p\<lparr>m_dataLen := 0\<rparr>))"
    using p by (intro put_wf) simp_all
  ultimately show ?thesis
    by (simp add: dump_test_def dump_def read_data_wf passes_def Let_def)
qed

lemma append_too_many:
  assumes "world_ok w"
  shows "passes (AppendTooManyBytesTest w)"
proof -
  let ?p = "local_packet w ''pktData'' 4"
  note p = local_packet_wf[OF assms, of 4 "''pktData''"]
  have wf: "packet_wf (put bs ?p)" if "length bs \<le> 4" for bs
    using p that by (intro put_wf) (simp_all add: size_range_def)
  have step: "appendByte b (put bs ?p) = Inr (put (bs @ [b]) ?p)" if "length bs < 4" for b bs
    using appendByte_put[OF wf, of bs b] p that by (simp add: put_put size_range_def)
  note steps = step[of "[]"] step[of "[0x31]"] step[of "[0x31, 0x32]"] step[of "[0x31, 0x32, 0x33]"]
  have "appendByte 0x35 (put [0x31, 0x32, 0x33, 0x34] ?p) = Inl Assert_Failed"
    using p by (simp add: appendByte_full size_range_def)
  with steps show ?thesis
    by (simp add: AppendTooManyBytesTest_def assert_death_def passes_def)
qed

lemma append_str_test:
  assumes "world_ok w"
  shows "passes (AppendStrTest w)"
proof -
  let ?p = "local_packet w ''pktData'' 16" and ?s = "[0x44, 0x61, 0x74, 0x61, 0x00] :: u8 list"
  note p = local_packet_wf[OF assms, of 16 "''pktData''"]
  have p1: "packet_wf (put [5] ?p)" "packet_wf (put (5 # ?s) ?p)"
    using p by (auto intro!: put_wf simp: size_range_def)
  have "strnlen ?s 256 = Inr 4" using strnlen_cstring[of "[0x44, 0x61, 0x74, 0x61]" 256 "[]"] by simp
  moreover have "append_word (5 :: u8) ?p = Inr (put [5] ?p)"
    using p by (simp add: append_word_def sizeof_def appendData_put size_range_def)
  moreover have "appendData 5 ?s (put [5] ?p) = Inr (put (5 # ?s) ?p)"
    using p p1(1) by (simp add: appendData_put put_put size_range_def)
  moreover have "read_data (put (5 # ?s) ?p) = Inr (5 # ?s)"
    using p p1(2) by (simp add: read_data_wf contents_put size_range_def)
  ultimately show ?thesis
    using p by (simp add: AppendStrTest_def append_str_def passes_def getDataLength_def Let_def size_range_def)
qed

lemma packet_tests_pass:
  assumes "world_ok w"
  shows "list_all passes (packet_tests w)"
proof -
  have "passes AsStrTest" by (simp add: AsStrTest_def passes_def)
  moreover have "passes (ExtractCrcTest w)"
    using local_packet_wf(4)[OF assms, of 4 "''pktData''"]
    by (simp add: ExtractCrcTest_def extractCrc_empty assert_death_def passes_def size_range_def)
  ultimately show ?thesis
    using dump_test_passes[OF assms] append_too_many[OF assms] append_str_test[OF assms]
    by (simp add: packet_tests_def DumpTest_def UnrecognizedCommandTest_def)
qed

text \<open>The constructor encodes the packet whatever was in memory.\<close>

lemma PacketEncoderTest_frame:
  assumes "world_ok w" "AsciiHexToBinary w str = ds" "length ds \<le> 16"
  obtains h e q where "PacketEncoderTest w cmd str dbg = Some (Inr
      \<lparr>et_packets = h, et_encodedData = map Some (frame_bytes crc8_poly07 cmd ds), et_encoder = e\<rparr>)"
    "deref h 10 = Inr q" "packet_wf q"
proof -
  let ?p = "setCommand cmd (local_packet w ''m_packetData'' 16)"
  let ?q = "put ds (?p\<lparr>m_dataLen := 0\<rparr>)" and ?e = "encoder_setDebug dbg (new_encoder (raw_char w))"
  have p: "packet_wf ?p" "m_maxDataLen ?p = 16" "m_dataLen ?p = 0" "m_command ?p = cmd" "contents ?p = []"
    using local_packet_wf[OF assms(1), of 16 "''m_packetData''"]
    by (simp_all add: setCommand_def size_range_def)
  have q: "packet_wf ?q" "m_command ?q = cmd" "contents ?q = ds"
    using p assms(3) by (auto intro!: put_wf)
  have data: "setData (length ds) ds ?p = Inr ?q"
    using p assms(3) by (simp add: setData_put)
  have at: "deref [10 \<mapsto> ?q] 10 = Inr ?q" by (simp add: deref_ok nullptr_def)
  let ?h = "[10 \<mapsto> with_crc crc8_poly07 ?q]"
  obtain e1 log where start: "encodeStart crc8_poly07 None 10 ?e [10 \<mapsto> ?q] = Inr (e1, ?h, log)"
    "encoder_at ?h e1 (with_crc crc8_poly07 ?q)"
    "owed crc8_poly07 (with_crc crc8_poly07 ?q) e1 = frame_bytes crc8_poly07 cmd ds"
    using encodeStart_wf[OF at q(1), of crc8_poly07 None ?e] unfolding q(2,3) fun_upd_upd by metis
  obtain e2 where "encode_loop crc8_poly07 ?h e1 None [] = Some (Inr (NONE, e2, map Some (frame_bytes crc8_poly07 cmd ds)))"
    using encode_loop_owed[OF start(2), of crc8_poly07 None "[]"] start(3) by auto
  then have "PacketEncoderTest w cmd str dbg = Some (Inr
      \<lparr>et_packets = ?h, et_encodedData = map Some (frame_bytes crc8_poly07 cmd ds), et_encoder = e2\<rparr>)"
    using data start(1) assms(2) world_crc_ok[OF assms(1)] by (simp add: PacketEncoderTest_def Let_def)
  moreover have "deref ?h 10 = Inr (with_crc crc8_poly07 ?q)" by (simp add: deref_ok nullptr_def)
  ultimately show thesis
    using that[of ?h e2] q(1) by simp
qed

lemma expect_encoded_passes:
  assumes "world_ok w" "AsciiHexToBinary w str = ds" "length ds \<le> 16"
    and "AsciiHexToBinary w expected = bs" "frame_bytes crc8_poly07 cmd ds = bs"
  shows "passes (expect_encoded w expected (PacketEncoderTest w cmd str dbg))"
proof -
  obtain h e where "PacketEncoderTest w cmd str dbg = Some (Inr
      \<lparr>et_packets = h, et_encodedData = map Some (frame_bytes crc8_poly07 cmd ds), et_encoder = e\<rparr>)"
    using PacketEncoderTest_frame[OF assms(1-3)] by metis
  then show ?thesis
    using assms(4,5) by (simp add: expect_encoded_def matches_def passes_def)
qed

lemma test_frames:
  "frame_bytes crc8_poly07 0x01 [] = [0xc0, 0x01, 0x07, 0xc0]"
  "frame_bytes crc8_poly07 0x01 [0x02] = [0xc0, 0x01, 0x02, 0x1b, 0xc0]"
  "frame_bytes crc8_poly07 0x01 [0x02, 0x03] = [0xc0, 0x01, 0x02, 0x03, 0x48, 0xc0]"
  "frame_bytes crc8_poly07 0xc0 [0x02, 0x03] = [0xc0, 0xdb, 0xdc, 0x02, 0x03, 0xae, 0xc0]"
  "frame_bytes crc8_poly07 0xdb [0x02, 0x03] = [0xc0, 0xdb, 0xdd, 0x02, 0x03, 0xe0, 0xc0]"
  by (simp_all add: frame_bytes_def slip_def frame_consts test_crcs)

lemma encoder_tests_pass:
  assumes "world_ok w"
  shows "list_all passes (encoder_tests w)"
proof -
  note encodes = expect_encoded_passes[OF assms] and hex = hex_strings[OF assms]
  note defs = Encoder_NoDataTest_def Encoder_OneByteDataTest_def Encoder_OneByteDataDebugTest_def
    Encoder_TwoBytesDataTest_def Encoder_EscapeEndTest_def Encoder_EscapeEscTest_def PING_def
  have "passes (Encoder_NoDataTest w)" "passes (Encoder_OneByteDataTest w)" "passes (Encoder_OneByteDataDebugTest w)"
    "passes (Encoder_TwoBytesDataTest w)" "passes (Encoder_EscapeEndTest w)" "passes (Encoder_EscapeEscTest w)"
    unfolding defs by (rule encodes, rule hex, simp, rule hex, rule test_frames)+
  moreover have "passes (Encoder_BadStateTest w)"
  proof -
    obtain h e q where t: "PacketEncoderTest w PING '''' False = Some (Inr
        \<lparr>et_packets = h, et_encodedData = map Some (frame_bytes crc8_poly07 PING []), et_encoder = e\<rparr>)"
      "deref h 10 = Inr q" "packet_wf q"
      using PacketEncoderTest_frame[OF assms hex(1), of PING False] by auto
    obtain e1 h1 log where "encodeStart crc8_poly07 None 10 e h = Inr (e1, h1, log)"
      using encodeStart_wf[OF t(2,3)] by metis
    with t(1) world_crc_ok[OF assms] show ?thesis
      by (simp add: Encoder_BadStateTest_def encodeByte_def passes_def)
  qed
  moreover have "passes (AppendDataFullTest w)"
    using local_packet_wf[OF assms, of 4 "''packetData''"]
    by (simp add: AppendDataFullTest_def setData_empty appendData_full assert_death_def passes_def size_range_def)
  ultimately show ?thesis
    by (simp add: encoder_tests_def)
qed

end
