(* ===== verification/Bus_Tests.thy ===== *)
theory Bus_Tests
  imports Codec_Tests Conversations
begin

text \<open>
  The other unit tests of the repository over the model: \<^verbatim>\<open>tests/PackerTest.cpp\<close>,
  \<^verbatim>\<open>tests/UnpackerTest.cpp\<close>, \<^verbatim>\<open>tests/CorePacketHandlerTest.cpp\<close> and \<^verbatim>\<open>tests/BusTest.cpp\<close>, in
  the manner of \<open>Codec_Tests\<close>; and the theorem that all tests pass.
\<close>

section \<open>PackerTest.cpp\<close>

definition PackerTest :: "test_world \<Rightarrow> packet" where
  "PackerTest w = local_packet w ''m_packetData'' 16"

definition packer_matches :: "test_world \<Rightarrow> string \<Rightarrow> packet \<Rightarrow> bool res" where
  "packer_matches w expectedAsciiHexData p =
     (let expectedData = AsciiHexToBinary w expectedAsciiHexData in
      if length expectedData \<noteq> getDataLength p then Inr False
      else bind_res (read_data p) (\<lambda>data. Inr (data = expectedData)))"

text \<open>Successive \<open>EXPECT_TRUE(pack(x))\<close> and \<open>EXPECT_FALSE(pack(x))\<close>, then \<open>matches\<close> if it is asked.\<close>

fun expect_packs :: "(item \<times> bool) list \<Rightarrow> packet \<Rightarrow> (bool \<times> packet) res" where
  "expect_packs [] p = Inr (True, p)"
| "expect_packs ((x, expected) # xs) p =
     bind_res (pack_item x p) (\<lambda>(ok, p).
     bind_res (expect_packs xs p) (\<lambda>(others, p). Inr (ok = expected \<and> others, p)))"

definition pack_test :: "test_world \<Rightarrow> (item \<times> bool) list \<Rightarrow> string option \<Rightarrow> bool res" where
  "pack_test w xs expected =
     bind_res (expect_packs xs (PackerTest w)) (\<lambda>(ok, p).
       case expected of
         None \<Rightarrow> Inr ok
       | Some str \<Rightarrow> bind_res (packer_matches w str p) (\<lambda>same. Inr (ok \<and> same)))"

text \<open>The characters of a string literal.\<close>

definition literal :: "string \<Rightarrow> u8 list" where
  "literal s = map of_char s"

definition Pack1Test :: "test_world \<Rightarrow> bool res" where
  "Pack1Test w = pack_test w [(U8 0x11, True)] (Some ''11'')"

definition Pack2Test :: "test_world \<Rightarrow> bool res" where
  "Pack2Test w = pack_test w [(U16 0x2211, True)] (Some ''11 22'')"

definition Pack4Test :: "test_world \<Rightarrow> bool res" where
  "Pack4Test w = pack_test w [(U32 0x44332211, True)] (Some ''11 22 33 44'')"

definition PackStrTest :: "test_world \<Rightarrow> bool res" where
  "PackStrTest w = pack_test w [(Str (literal ''ABC''), True)] (Some ''04 41 42 43 00'')"

definition PackMultiTest :: "test_world \<Rightarrow> bool res" where
  "PackMultiTest w = pack_test w
     [(U8 0x11, True), (Str (literal ''ABC''), True), (U16 0x5544, True), (U32 0x66554433, True)]
     (Some ''11 04 41 42 43 00 44 55 33 44 55 66'')"

definition PackStrTooLongTest :: "test_world \<Rightarrow> bool res" where
  "PackStrTooLongTest w = pack_test w [(Str (literal ''123456789 123456''), False)] None"

definition PackStrTooLong2Test :: "test_world \<Rightarrow> bool res" where
  "PackStrTooLong2Test w = pack_test w
     [(U32 0, True), (U32 0, True), (U32 0, True), (U32 0, True), (Str (literal ''123456789 123456''), False)] None"

definition PackDataTooLongTest :: "test_world \<Rightarrow> bool res" where
  "PackDataTooLongTest w = pack_test w [(Str (literal ''123456789 1234''), True), (U8 0, False)] None"

definition PackData2TooLongTest :: "test_world \<Rightarrow> bool res" where
  "PackData2TooLongTest w = pack_test w [(Str (literal ''123456789 1234''), True), (U16 0, False)] None"

definition PackData4TooLongTest :: "test_world \<Rightarrow> bool res" where
  "PackData4TooLongTest w = pack_test w [(Str (literal ''123456789 1234''), True), (U32 0, False)] None"

definition packer_tests :: "test_world \<Rightarrow> bool res list" where
  "packer_tests w =
     [Pack1Test w, Pack2Test w, Pack4Test w, PackStrTest w, PackMultiTest w, PackStrTooLongTest w,
      PackStrTooLong2Test w, PackDataTooLongTest w, PackData2TooLongTest w, PackData4TooLongTest w]"

section \<open>UnpackerTest.cpp\<close>

text \<open>The packet of the test, and the unpacker.\<close>

definition UnpackerTest :: "test_world \<Rightarrow> string \<Rightarrow> (packet \<times> unpacker) res" where
  "UnpackerTest w str =
     (let hexData = AsciiHexToBinary w str in
      bind_res (appendData (length hexData) hexData (local_packet w ''m_packetData'' 64)) (\<lambda>p.
        Inr (p, unpacker_setData p empty_unpacker)))"

text \<open>
  What a test expects of \<open>unpack\<close>: that it returns false, that it returns true, or that it
  returns true and this value.
\<close>

datatype unpack_expectation = Fails kind | Succeeds kind | Gives item

fun expectation_kind :: "unpack_expectation \<Rightarrow> kind" where
  "expectation_kind (Fails k) = k"
| "expectation_kind (Succeeds k) = k"
| "expectation_kind (Gives x) = kind_of x"

fun expectation_met :: "unpack_expectation \<Rightarrow> item option \<Rightarrow> bool" where
  "expectation_met (Fails k) y \<longleftrightarrow> y = None"
| "expectation_met (Succeeds k) y \<longleftrightarrow> y \<noteq> None"
| "expectation_met (Gives x) y \<longleftrightarrow> y = Some x"

fun expect_unpacks :: "unpack_expectation list \<Rightarrow> unpacker \<Rightarrow> bool res" where
  "expect_unpacks [] u = Inr True"
| "expect_unpacks (e # es) u =
     bind_res (unpack_item (expectation_kind e) u) (\<lambda>(y, u).
     bind_res (expect_unpacks es u) (\<lambda>ok. Inr (expectation_met e y \<and> ok)))"

definition unpack_test :: "test_world \<Rightarrow> string \<Rightarrow> unpack_expectation list \<Rightarrow> bool res" where
  "unpack_test w str es = bind_res (UnpackerTest w str) (\<lambda>(p, u). expect_unpacks es u)"

definition Unpack1Test :: "test_world \<Rightarrow> bool res" where
  "Unpack1Test w = unpack_test w ''11'' [Gives (U8 0x11), Fails K8]"

definition Unpack2Test :: "test_world \<Rightarrow> bool res" where
  "Unpack2Test w = unpack_test w ''11 22'' [Gives (U16 0x2211), Fails K16]"

definition Unpack4Test :: "test_world \<Rightarrow> bool res" where
  "Unpack4Test w = unpack_test w ''11 22 33 44'' [Gives (U32 0x44332211), Fails K32]"

definition UnpackStrTest :: "test_world \<Rightarrow> bool res" where
  "UnpackStrTest w = unpack_test w ''04 41 42 43 00'' [Gives (Str (literal ''ABC'')), Fails K8]"

definition UnpackNoStrTest :: "test_world \<Rightarrow> bool res" where
  "UnpackNoStrTest w = unpack_test w ''11'' [Succeeds K8, Fails KStr]"

definition UnpackMultiTest :: "test_world \<Rightarrow> bool res" where
  "UnpackMultiTest w = unpack_test w ''11 04 41 42 43 00 44 55''
     [Gives (U8 0x11), Gives (Str (literal ''ABC'')), Gives (U16 0x5544), Fails K8]"

definition UnpackBadStrTest :: "test_world \<Rightarrow> bool res" where
  "UnpackBadStrTest w = unpack_test w ''04 41 42 43'' [Fails KStr]"

definition PacketConstructorTest :: "test_world \<Rightarrow> bool res" where
  "PacketConstructorTest w =
     bind_res (UnpackerTest w ''11'') (\<lambda>(p, u). expect_unpacks [Gives (U8 0x11), Fails K8] (new_unpacker p))"

definition UnpackDataTest :: "test_world \<Rightarrow> bool res" where
  "UnpackDataTest w =
     bind_res (UnpackerTest w ''41 42 43 00'') (\<lambda>(p, u).
     bind_res (unpack_bytes 4 u) (\<lambda>(data, u).
       case data of
         None \<Rightarrow> Inr False
       | Some data \<Rightarrow>
           bind_res (read_at data 0) (\<lambda>d0.
           bind_res (read_at data 1) (\<lambda>d1.
           bind_res (read_at data 2) (\<lambda>d2.
           bind_res (read_at data 3) (\<lambda>d3.
           bind_res (expect_unpacks [Fails K8] u) (\<lambda>ok.
             Inr (d0 = 0x41 \<and> d1 = 0x42 \<and> d2 = 0x43 \<and> d3 = 0x00 \<and> ok))))))))"

definition UnpackNoDataTest :: "test_world \<Rightarrow> bool res" where
  "UnpackNoDataTest w =
     bind_res (UnpackerTest w ''11'') (\<lambda>(p, u).
     bind_res (unpack_item K8 u) (\<lambda>(data8, u).
     bind_res (unpack_bytes 1 u) (\<lambda>(dataStr, u).
     bind_res (expect_unpacks [Fails K8, Fails K16, Fails K32] u) (\<lambda>ok.
       Inr (data8 \<noteq> None \<and> dataStr = None \<and> ok)))))"

definition unpacker_tests :: "test_world \<Rightarrow> bool res list" where
  "unpacker_tests w =
     [Unpack1Test w, Unpack2Test w, Unpack4Test w, UnpackStrTest w, UnpackNoStrTest w, UnpackMultiTest w,
      UnpackBadStrTest w, PacketConstructorTest w, UnpackDataTest w, UnpackNoDataTest w]"

section \<open>CorePacketHandlerTest.cpp\<close>

text \<open>The handler of these tests is not registered with a bus; the bus only holds its packets.\<close>

definition TestData :: "test_world \<Rightarrow> unit bus" where
  "TestData w = new_bus 10 20 nullptr nullptr
     [10 \<mapsto> local_packet w ''m_cmdData'' 16, 20 \<mapsto> local_packet w ''m_rspData'' 16] () (raw_char w)"

definition core_test ::
    "test_world \<Rightarrow> monitor \<Rightarrow> u8 \<Rightarrow> (bool \<Rightarrow> packet \<Rightarrow> bool) \<Rightarrow> bool res" where
  "core_test w m cmd expected =
     bind_res (deref (packets (TestData w)) 10) (\<lambda>c.
     bind_res (core_handlePacket m False 10 20 (store_packet 10 (setCommand cmd c) (TestData w))) (\<lambda>(handled, b).
     bind_res (deref (packets b) 20) (\<lambda>rsp. Inr (expected handled rsp))))"

definition PingTest :: "test_world \<Rightarrow> monitor \<Rightarrow> bool res" where
  "PingTest w m = core_test w m PING (\<lambda>handled rsp.
     handled = True \<and> getCommand rsp = PING \<and> getDataLength rsp = 0)"

definition UnhandledTest :: "test_world \<Rightarrow> monitor \<Rightarrow> bool res" where
  "UnhandledTest w m = core_test w m 0xff (\<lambda>handled rsp. handled = False)"

definition as_strTest :: "bool res" where
  "as_strTest = Inr (core_as_str PING = ''PING'' \<and> core_as_str 0 = ''???'')"

definition core_tests :: "test_world \<Rightarrow> monitor \<Rightarrow> bool res list" where
  "core_tests w m = [PingTest w m, UnhandledTest w m, as_strTest]"

section \<open>BusTest.cpp\<close>

definition BusTest :: "test_world \<Rightarrow> test_device bus" where
  "BusTest w = new_bus 10 20 nullptr nullptr
     [10 \<mapsto> local_packet w ''m_cmdPacketData'' 15, 20 \<mapsto> local_packet w ''m_rspPacketData'' 15]
     \<lparr>m_decodeIdx = 0, m_dataToDecode = [], m_encodedData = []\<rparr> (raw_char w)"

text \<open>The loop of \<open>processBytes\<close>, \<open>n\<close> turns before its end.\<close>

fun process_loop ::
    "crc_fns \<Rightarrow> test_device handler list \<Rightarrow> error \<Rightarrow> nat \<Rightarrow> test_device bus \<Rightarrow> (bool \<times> test_device bus) res" where
  "process_loop crc hs expectedError 0 b = Inr (True, b)"
| "process_loop crc hs expectedError (Suc n) b =
     (let (available, d) = vt_isDataAvailable test_vt (device b) in
      bind_res (processByte crc test_vt hs (b\<lparr>device := d\<rparr>)) (\<lambda>(err, b).
      bind_res (process_loop crc hs expectedError n b) (\<lambda>(ok, b).
        Inr (available \<and> err = (if n = 0 then expectedError else NOT_DONE) \<and> ok, b))))"

definition processBytes ::
    "test_world \<Rightarrow> test_device handler list \<Rightarrow> string \<Rightarrow> error \<Rightarrow> test_device bus \<Rightarrow> (bool \<times> test_device bus) res" where
  "processBytes w hs str expectedError b =
     (let data = AsciiHexToBinary w str in
      process_loop (world_crc w) hs expectedError (length data)
        (b\<lparr>device := (device b)\<lparr>m_dataToDecode := data\<rparr>\<rparr>))"

text \<open>\<open>writePacket\<close> of the helper class; a packet that is never written does not pass.\<close>

definition test_writePacket :: "test_world \<Rightarrow> string \<Rightarrow> test_device bus \<Rightarrow> bool res" where
  "test_writePacket w str b =
     (let expectedData = AsciiHexToBinary w str in
      bind_res (processBytes w [] str NONE b) (\<lambda>(ok, b).
        case writePacket (world_crc w) test_vt [] 10 b of
          None \<Rightarrow> Inr False
        | Some r \<Rightarrow> bind_res r (\<lambda>(err, b). Inr (ok \<and> expectedData = m_encodedData (device b)))))"

definition ProcessByteTest :: "test_world \<Rightarrow> bool res" where
  "ProcessByteTest w = bind_res (processBytes w [] ''c0 01 07 c0'' NONE (BusTest w)) (\<lambda>(ok, b). Inr ok)"

definition ProcessByteNoDataTest :: "test_world \<Rightarrow> bool res" where
  "ProcessByteNoDataTest w =
     bind_res (processByte (world_crc w) test_vt [] (BusTest w)) (\<lambda>(err, b). Inr (err = NOT_DONE))"

definition WritePacketTest :: "test_world \<Rightarrow> bool res" where
  "WritePacketTest w = test_writePacket w ''c0 01 07 c0'' (BusTest w)"

text \<open>The tests of \<open>handlePacket\<close>, with \<open>TestHandler\<close> registered.\<close>

definition handler_test ::
    "test_world \<Rightarrow> string \<Rightarrow> bool \<Rightarrow> (packet \<Rightarrow> bool res) \<Rightarrow> bool res" where
  "handler_test w str handled expected =
     (let hs = add test_handler [] in
      bind_res (processBytes w hs str NONE (BusTest w)) (\<lambda>(ok, b).
        case handlePacket (world_crc w) test_vt hs b of
          None \<Rightarrow> Inr False
        | Some r \<Rightarrow>
            bind_res r (\<lambda>(result, b).
            bind_res (deref (packets b) 20) (\<lambda>rsp.
            bind_res (expected rsp) (\<lambda>as_expected. Inr (ok \<and> result = handled \<and> as_expected))))))"

definition HandlerWithResponseTest :: "test_world \<Rightarrow> bool res" where
  "HandlerWithResponseTest w = handler_test w ''c0 01 02 1b c0'' True (\<lambda>rsp.
     bind_res (expect_data 0 [2] rsp) (\<lambda>ok.
       Inr (getCommand rsp = 1 \<and> getDataLength rsp = 1 \<and> ok \<and> getCrc rsp = 0x1b)))"

definition HandlerNoResponseTest :: "test_world \<Rightarrow> bool res" where
  "HandlerNoResponseTest w = handler_test w ''c0 02 03 23 c0'' True (\<lambda>rsp. Inr (getCommand rsp = 0))"

definition HandlerUnhandledTest :: "test_world \<Rightarrow> bool res" where
  "HandlerUnhandledTest w = handler_test w ''c0 03 04 23 c0'' False (\<lambda>rsp. Inr True)"

definition bus_tests :: "test_world \<Rightarrow> bool res list" where
  "bus_tests w =
     [ProcessByteTest w, ProcessByteNoDataTest w, WritePacketTest w, HandlerWithResponseTest w,
      HandlerNoResponseTest w, HandlerUnhandledTest w]"

section \<open>The packer tests pass\<close>

lemma more_hex_strings:
  assumes "world_ok w"
  shows "AsciiHexToBinary w ''11'' = [0x11]"
    "AsciiHexToBinary w ''11 22'' = [0x11, 0x22]"
    "AsciiHexToBinary w ''11 22 33 44'' = [0x11, 0x22, 0x33, 0x44]"
    "AsciiHexToBinary w ''04 41 42 43 00'' = [0x04, 0x41, 0x42, 0x43, 0x00]"
    "AsciiHexToBinary w ''11 04 41 42 43 00 44 55 33 44 55 66'' =
       [0x11, 0x04, 0x41, 0x42, 0x43, 0x00, 0x44, 0x55, 0x33, 0x44, 0x55, 0x66]"
    "AsciiHexToBinary w ''11 04 41 42 43 00 44 55'' = [0x11, 0x04, 0x41, 0x42, 0x43, 0x00, 0x44, 0x55]"
    "AsciiHexToBinary w ''04 41 42 43'' = [0x04, 0x41, 0x42, 0x43]"
    "AsciiHexToBinary w ''41 42 43 00'' = [0x41, 0x42, 0x43, 0x00]"
    "AsciiHexToBinary w ''c0 02 03 23 c0'' = [0xc0, 0x02, 0x03, 0x23, 0xc0]"
    "AsciiHexToBinary w ''c0 03 04 23 c0'' = [0xc0, 0x03, 0x04, 0x23, 0xc0]"
  by (rule hex_read[OF assms], simp add: hex_byte_def hex_char_def)+

lemma literals:
  "literal ''ABC'' = [0x41, 0x42, 0x43]"
  "literal ''123456789 1234'' = [0x31, 0x32, 0x33, 0x34, 0x35, 0x36, 0x37, 0x38, 0x39, 0x20, 0x31, 0x32, 0x33, 0x34]"
  "literal ''123456789 123456'' =
     [0x31, 0x32, 0x33, 0x34, 0x35, 0x36, 0x37, 0x38, 0x39, 0x20, 0x31, 0x32, 0x33, 0x34, 0x35, 0x36]"
  by (simp_all add: literal_def)

lemma le_bytes_examples:
  "le_bytes 2 (0x2211 :: u16) = [0x11, 0x22]" "le_bytes 4 (0x44332211 :: u32) = [0x11, 0x22, 0x33, 0x44]"
  "le_bytes 2 (0x5544 :: u16) = [0x44, 0x55]" "le_bytes 4 (0x66554433 :: u32) = [0x33, 0x44, 0x55, 0x66]"
  by code_simp+

text \<open>A value that does not fit is refused.\<close>

lemma pack_item_refused:
  assumes "packet_wf p" "item_ok x" "m_maxDataLen p < m_dataLen p + length (item_bytes x)"
  shows "\<exists>p'. pack_item x p = Inr (False, p')"
proof (cases x)
  case (Str s)
  let ?l = "word_of_nat (length s + 1) :: u8"
  have n: "strnlen (s @ [0]) 256 = Inr (length s)"
    using assms(2) Str strnlen_cstring[of s 256 "[]"] by simp
  show ?thesis
  proof (cases "m_dataLen p < m_maxDataLen p")
    case True
    have "pack_word ?l p = Inr (True, put [?l] p)"
      using assms(1) True by (simp add: pack_word_fits)
    moreover have "packet_wf (put [?l] p)"
      using assms(1) True by (intro put_wf) simp_all
    ultimately show ?thesis
      using n assms Str True unat_string_length[of s]
      by (auto simp: pack_str_def getSpaceRemaining_wf Let_def)
  next
    case False
    then have "pack_word ?l p = Inr (False, p)"
      using assms(1) by (simp add: pack_word_full)
    with n Str show ?thesis by (simp add: pack_str_def Let_def)
  qed
qed (use assms in \<open>simp_all add: pack_word_full del: le_bytes.simps\<close>)

lemma item_bytes_nonempty: "item_bytes x \<noteq> []"
proof -
  have "0 < length (item_bytes x)" by (cases x) (simp_all del: le_bytes.simps)
  then show ?thesis by auto
qed

lemma expect_packs_append:
  "expect_packs (xs @ ys) p = bind_res (expect_packs xs p) (\<lambda>(ok1, p).
     bind_res (expect_packs ys p) (\<lambda>(ok2, p). Inr (ok1 \<and> ok2, p)))"
  by (induction xs p rule: expect_packs.induct) (auto simp: bind_res_assoc split: bind_res_split)

lemma expect_packs_fit:
  "packet_wf p \<Longrightarrow> list_all item_ok xs \<Longrightarrow> m_dataLen p + length (items_bytes xs) \<le> m_maxDataLen p \<Longrightarrow>
     expect_packs (map (\<lambda>x. (x, True)) xs) p = Inr (True, put (items_bytes xs) p)"
proof (induction xs arbitrary: p)
  case (Cons x xs)
  have "pack_item x p = Inr (True, put (item_bytes x) p)"
    using Cons.prems by (intro pack_item_fits) auto
  moreover have "expect_packs (map (\<lambda>x. (x, True)) xs) (put (item_bytes x) p)
      = Inr (True, put (items_bytes xs) (put (item_bytes x) p))"
    using Cons.prems by (intro Cons.IH put_wf) auto
  ultimately show ?case
    using Cons.prems(1) by (simp add: put_put packet_wf_bounds)
qed simp

lemma pack_test_matches:
  assumes "world_ok w" "list_all item_ok xs" "length (items_bytes xs) \<le> 16"
    and "AsciiHexToBinary w str = items_bytes xs" "es = map (\<lambda>x. (x, True)) xs"
  shows "passes (pack_test w es (Some str))"
proof -
  let ?p = "PackerTest w"
  have p: "packet_wf ?p" "contents ?p = []" "m_maxDataLen ?p = 16" "m_dataLen ?p = 0"
    using local_packet_wf[OF assms(1), of 16 "''m_packetData''"] by (simp_all add: PackerTest_def size_range_def)
  have "packet_wf (put (items_bytes xs) ?p)"
    using p assms(3) by (intro put_wf) simp_all
  moreover have "expect_packs es ?p = Inr (True, put (items_bytes xs) ?p)"
    using p assms(2,3,5) by (simp add: expect_packs_fit)
  ultimately show ?thesis
    using assms(4) p
    by (simp add: pack_test_def packer_matches_def read_data_wf getDataLength_def passes_def)
qed

lemma pack_test_refuses:
  assumes "world_ok w" "list_all item_ok (xs @ [x])" "length (items_bytes xs) \<le> 16"
    and "16 < length (items_bytes xs) + length (item_bytes x)" "es = map (\<lambda>x. (x, True)) xs @ [(x, False)]"
  shows "passes (pack_test w es None)"
proof -
  let ?p = "PackerTest w"
  have p: "packet_wf ?p" "contents ?p = []" "m_maxDataLen ?p = 16" "m_dataLen ?p = 0"
    using local_packet_wf[OF assms(1), of 16 "''m_packetData''"] by (simp_all add: PackerTest_def size_range_def)
  have "packet_wf (put (items_bytes xs) ?p)"
    using p assms(3) by (intro put_wf) simp_all
  then obtain p' where "pack_item x (put (items_bytes xs) ?p) = Inr (False, p')"
    using pack_item_refused[of "put (items_bytes xs) ?p" x] p assms(2,4) by auto
  moreover have "expect_packs (map (\<lambda>x. (x, True)) xs) ?p = Inr (True, put (items_bytes xs) ?p)"
    using p assms(2,3) by (simp add: expect_packs_fit)
  ultimately show ?thesis
    by (simp add: pack_test_def expect_packs_append assms(5) passes_def)
qed

lemma packer_tests_pass:
  assumes "world_ok w"
  shows "list_all passes (packer_tests w)"
proof -
  note packs = pack_test_matches[OF assms] and refuses = pack_test_refuses[OF assms]
  note facts = more_hex_strings[OF assms] le_bytes_examples literals string_bytes_def
  let ?s14 = "Str [0x31, 0x32, 0x33, 0x34, 0x35, 0x36, 0x37, 0x38, 0x39, 0x20, 0x31, 0x32, 0x33, 0x34]"
  have "passes (Pack1Test w)" "passes (Pack2Test w)" "passes (Pack4Test w)" "passes (PackStrTest w)"
    "passes (PackMultiTest w)"
    using packs[of "[U8 0x11]"] packs[of "[U16 0x2211]"] packs[of "[U32 0x44332211]"]
      packs[of "[Str [0x41, 0x42, 0x43]]"] packs[of "[U8 0x11, Str [0x41, 0x42, 0x43], U16 0x5544, U32 0x66554433]"]
    by (simp_all add: facts Pack1Test_def Pack2Test_def Pack4Test_def PackStrTest_def PackMultiTest_def
        del: le_bytes.simps)
  moreover have "passes (PackStrTooLongTest w)" "passes (PackStrTooLong2Test w)"
    using refuses[of "[]"] refuses[of "[U32 0, U32 0, U32 0, U32 0]"]
    by (simp_all add: literals string_bytes_def PackStrTooLongTest_def PackStrTooLong2Test_def del: le_bytes.simps)
  moreover have "passes (PackDataTooLongTest w)" "passes (PackData2TooLongTest w)" "passes (PackData4TooLongTest w)"
    using refuses[of "[?s14]"] item_bytes_nonempty[of "U16 0"] item_bytes_nonempty[of "U32 0"]
    by (simp_all add: literals PackDataTooLongTest_def PackData2TooLongTest_def PackData4TooLongTest_def
        del: le_bytes.simps)
  ultimately show ?thesis
    by (simp add: packer_tests_def)
qed

section \<open>The unpacker tests pass\<close>

lemma UnpackerTest_at:
  assumes "world_ok w" "AsciiHexToBinary w str = bs" "length bs \<le> 64"
  obtains p u where "UnpackerTest w str = Inr (p, u)" "packet_wf p" "u = new_unpacker p"
    "unpacker_at u bs" "u_dataRemaining u = length bs"
proof -
  let ?p = "local_packet w ''m_packetData'' 64"
  let ?q = "put bs ?p"
  have p: "packet_wf ?p" "contents ?p = []" "m_maxDataLen ?p = 64" "m_dataLen ?p = 0"
    using local_packet_wf[OF assms(1), of 64 "''m_packetData''"] by (simp_all add: size_range_def)
  have q: "packet_wf ?q" "contents ?q = bs"
    using p assms(3) by (auto intro!: put_wf)
  have "appendData (length bs) bs ?p = Inr ?q"
    using p assms(3) by (simp add: appendData_put)
  moreover have "unpacker_setData ?q empty_unpacker = new_unpacker ?q"
    by (simp add: unpacker_setData_def empty_unpacker_def new_unpacker_def)
  ultimately have "UnpackerTest w str = Inr (?q, new_unpacker ?q)"
    using assms(2) by (simp add: UnpackerTest_def)
  from that[OF this q(1) refl] unpacker_at_contents[OF q(1)] q(2) show thesis by simp
qed

text \<open>Values that are there are given, and then nothing is left.\<close>

lemma expect_gives:
  "list_all item_ok xs \<Longrightarrow> unpacker_at u (items_bytes xs @ later) \<Longrightarrow>
     \<exists>u'. expect_unpacks (map Gives xs @ es) u = expect_unpacks es u' \<and> unpacker_at u' later \<and>
       u_dataRemaining u' = u_dataRemaining u - length (items_bytes xs)"
proof (induction xs arbitrary: u)
  case (Cons x xs)
  obtain u1 where u1: "unpack_item (kind_of x) u = Inr (Some x, u1)" "unpacker_at u1 (items_bytes xs @ later)"
    "u_dataRemaining u1 = u_dataRemaining u - length (item_bytes x)"
    using unpack_item_bytes[of u x "items_bytes xs @ later"] Cons.prems by auto
  obtain u2 where u2: "expect_unpacks (map Gives xs @ es) u1 = expect_unpacks es u2" "unpacker_at u2 later"
    "u_dataRemaining u2 = u_dataRemaining u1 - length (items_bytes xs)"
    using Cons.IH[OF _ u1(2)] Cons.prems(1) by auto
  have "expect_unpacks (map Gives (x # xs) @ es) u = expect_unpacks es u2"
    using u1(1) u2(1) by (cases "expect_unpacks es u2") simp_all
  with u1(3) u2(2,3) show ?case by auto
qed auto

lemma unpack_nothing_left: "u_dataRemaining u = 0 \<Longrightarrow> unpack_item k u = Inr (None, u)"
  by (cases k) (simp_all add: unpack_word_def unpack_str_def Let_def)

lemma expect_fails: "u_dataRemaining u = 0 \<Longrightarrow> expect_unpacks (map Fails ks) u = Inr True"
  by (induction ks) (simp_all add: unpack_nothing_left)

lemma expect_all:
  assumes "list_all item_ok xs" "unpacker_at u (items_bytes xs)" "u_dataRemaining u = length (items_bytes xs)"
  shows "expect_unpacks (map Gives xs @ map Fails ks) u = Inr True"
  using expect_gives[OF assms(1), of u "[]" "map Fails ks"] assms(2,3) by (auto simp: expect_fails)

lemma unpack_test_passes:
  assumes "world_ok w" "AsciiHexToBinary w str = items_bytes xs" "list_all item_ok xs" "length (items_bytes xs) \<le> 64"
    and "es = map Gives xs @ map Fails ks"
  shows "passes (unpack_test w str es)"
proof -
  obtain p u where "UnpackerTest w str = Inr (p, u)" "unpacker_at u (items_bytes xs)"
    "u_dataRemaining u = length (items_bytes xs)"
    using UnpackerTest_at[OF assms(1,2,4)] by metis
  with expect_all[OF assms(3)] show ?thesis
    by (simp add: unpack_test_def passes_def assms(5))
qed

text \<open>A single byte \<open>0x11\<close>, which several tests unpack first.\<close>

lemma unpack_11:
  assumes "world_ok w"
  obtains p u u' where "UnpackerTest w ''11'' = Inr (p, u)" "u = new_unpacker p" "unpacker_at u [0x11]"
    "u_dataRemaining u = 1" "unpack_item K8 u = Inr (Some (U8 0x11), u')" "u_dataRemaining u' = 0"
proof -
  have len: "length [0x11 :: u8] \<le> 64" by simp
  obtain p u where u: "UnpackerTest w ''11'' = Inr (p, u)" "u = new_unpacker p" "unpacker_at u [0x11]"
    "u_dataRemaining u = length [0x11 :: u8]"
    using UnpackerTest_at[OF assms more_hex_strings(1)[OF assms] len] by metis
  then obtain u' where "unpack_item (kind_of (U8 0x11)) u = Inr (Some (U8 0x11), u')" "u_dataRemaining u' = 0"
    using unpack_item_bytes[of u "U8 0x11" "[]"] by auto
  with u that show thesis by simp
qed

lemma unpack_no_string:
  assumes "world_ok w"
  shows "passes (UnpackNoStrTest w)" "passes (UnpackNoDataTest w)" "passes (PacketConstructorTest w)"
proof -
  obtain p u u' where u: "UnpackerTest w ''11'' = Inr (p, u)" "u = new_unpacker p" "unpacker_at u [0x11]"
    "u_dataRemaining u = 1" "unpack_item K8 u = Inr (Some (U8 0x11), u')" "u_dataRemaining u' = 0"
    using unpack_11[OF assms] by metis
  show "passes (UnpackNoStrTest w)"
    using u(1,5) unpack_nothing_left[OF u(6)]
    by (simp add: UnpackNoStrTest_def unpack_test_def passes_def del: unpack_item.simps)
  show "passes (UnpackNoDataTest w)"
    using u(1,5,6) unpack_nothing_left[OF u(6)]
    by (simp add: UnpackNoDataTest_def unpack_bytes_def passes_def del: unpack_item.simps)
  show "passes (PacketConstructorTest w)"
    using u(1,2,5) unpack_nothing_left[OF u(6)]
    by (simp add: PacketConstructorTest_def passes_def del: unpack_item.simps)
qed

lemma unpack_bad_string:
  assumes "world_ok w"
  shows "passes (UnpackBadStrTest w)"
proof -
  let ?bs = "[0x04, 0x41, 0x42, 0x43] :: u8 list"
  have len: "length ?bs \<le> 64" by simp
  obtain p u where u: "UnpackerTest w ''04 41 42 43'' = Inr (p, u)" "unpacker_at u ?bs" "u_dataRemaining u = length ?bs"
    using UnpackerTest_at[OF assms more_hex_strings(7)[OF assms] len] by metis
  then obtain rest where rest: "u_data u = ?bs @ rest" by (auto simp: unpacker_at_def)
  have "unpack_word u = Inr (Some (4 :: u8), u\<lparr>u_data := drop 1 (u_data u), u_dataRemaining := 3\<rparr>)"
    using unpack_word_ok[of u, where 'a = 8] u(3) rest by simp
  with u(1) show ?thesis
    by (simp add: UnpackBadStrTest_def unpack_test_def unpack_str_def passes_def)
qed

lemma unpack_four_bytes:
  assumes "world_ok w"
  shows "passes (UnpackDataTest w)"
proof -
  let ?bs = "[0x41, 0x42, 0x43, 0x00] :: u8 list"
  have len: "length ?bs \<le> 64" by simp
  obtain p u where u: "UnpackerTest w ''41 42 43 00'' = Inr (p, u)" "unpacker_at u ?bs" "u_dataRemaining u = length ?bs"
    using UnpackerTest_at[OF assms more_hex_strings(8)[OF assms] len] by metis
  then obtain rest where rest: "u_data u = ?bs @ rest" by (auto simp: unpacker_at_def)
  have "unpack_bytes 4 u = Inr (Some (?bs @ rest), u\<lparr>u_data := drop 4 (u_data u), u_dataRemaining := 0\<rparr>)"
    using u(3) rest by (simp add: unpack_bytes_def)
  with u(1) show ?thesis
    by (simp add: UnpackDataTest_def read_at_def unpack_nothing_left passes_def del: unpack_item.simps)
qed

lemma unpacker_tests_pass:
  assumes "world_ok w"
  shows "list_all passes (unpacker_tests w)"
proof -
  note unpacks = unpack_test_passes[OF assms] and facts = more_hex_strings[OF assms] le_bytes_examples literals string_bytes_def
  have "passes (Unpack1Test w)" "passes (Unpack2Test w)" "passes (Unpack4Test w)" "passes (UnpackStrTest w)"
    "passes (UnpackMultiTest w)"
    using unpacks[of "''11''" "[U8 0x11]" _ "[K8]"] unpacks[of "''11 22''" "[U16 0x2211]" _ "[K16]"]
      unpacks[of "''11 22 33 44''" "[U32 0x44332211]" _ "[K32]"]
      unpacks[of "''04 41 42 43 00''" "[Str [0x41, 0x42, 0x43]]" _ "[K8]"]
      unpacks[of "''11 04 41 42 43 00 44 55''" "[U8 0x11, Str [0x41, 0x42, 0x43], U16 0x5544]" _ "[K8]"]
    by (simp_all add: facts Unpack1Test_def Unpack2Test_def Unpack4Test_def UnpackStrTest_def UnpackMultiTest_def
        del: le_bytes.simps)
  then show ?thesis
    using unpack_no_string[OF assms] unpack_bad_string[OF assms] unpack_four_bytes[OF assms]
    by (simp add: unpacker_tests_def)
qed

section \<open>The handler and bus tests pass\<close>

text \<open>What \<open>core_handles\<close> and the bus need of the two packets of a test.\<close>

lemma core_tests_pass:
  assumes "world_ok w"
  shows "list_all passes (core_tests w m)"
proof -
  let ?c = "local_packet w ''m_cmdData'' 16" and ?r = "local_packet w ''m_rspData'' 16"
  note c = local_packet_wf[OF assms, of 16 "''m_cmdData''"] and r = local_packet_wf[OF assms, of 16 "''m_rspData''"]
  define b where "b cmd = store_packet 10 (setCommand cmd ?c) (TestData w)" for cmd
  have at: "deref (packets (TestData w)) 10 = Inr ?c" "deref (packets (b cmd)) 10 = Inr (setCommand cmd ?c)"
    "deref (packets (b cmd)) 20 = Inr ?r" for cmd
    by (simp_all add: TestData_def new_bus_def b_def store_packet_def deref_ok nullptr_def)
  have "handlePing 10 20 (b PING) = Inr (store_packet 20 (?r\<lparr>m_command := PING, m_dataLen := 0\<rparr>) (b PING))"
    using at(2,3)[of PING] c r
    by (simp add: handlePing_def getDataLength_def setCommand_def setData_empty emptied_def size_range_def
        deref_store[OF at(3)] deref_store_other[OF at(2)] store_packet_def)
  then have "core_handlePacket m False 10 20 (b PING)
      = Inr (True, store_packet 20 (?r\<lparr>m_command := PING, m_dataLen := 0\<rparr>) (b PING))"
    using at(2)[of PING] by (simp add: core_handlePacket_def getCommand_def setCommand_def)
  moreover have test: "core_test w m cmd expected = bind_res (core_handlePacket m False 10 20 (b cmd))
      (\<lambda>(handled, b). bind_res (deref (packets b) 20) (\<lambda>rsp. Inr (expected handled rsp)))" for cmd expected
    using at(1) by (simp add: core_test_def b_def)
  ultimately have "passes (PingTest w m)"
    using deref_store[OF at(3)] by (simp add: PingTest_def getCommand_def getDataLength_def passes_def)
  moreover have "passes (UnhandledTest w m)"
    using at(2,3)[of "0xff"]
    by (simp add: UnhandledTest_def test core_handlePacket_def getCommand_def setCommand_def core_commands passes_def)
  moreover have "passes as_strTest"
    by (simp add: as_strTest_def core_as_str_def core_commands passes_def)
  ultimately show ?thesis by (simp add: core_tests_def)
qed

text \<open>The loop of \<open>processBytes\<close> sees what \<open>process_bytes\<close> returns, as long as there are bytes.\<close>

lemma process_loop_codes:
  assumes "process_bytes crc test_vt hs n b = Inr (errs, b')" "m_decodeIdx (device b) + n \<le> length (m_dataToDecode (device b))"
    and "errs = replicate (n - 1) NOT_DONE @ [expected] \<or> n = 0"
  shows "process_loop crc hs expected n b = Inr (True, b')"
  using assms
proof (induction n arbitrary: b errs)
  case 0
  then show ?case by simp
next
  case (Suc n)
  obtain err b1 errs1 where step: "processByte crc test_vt hs b = Inr (err, b1)"
    "process_bytes crc test_vt hs n b1 = Inr (errs1, b')" "errs = err # errs1"
    using Suc.prems(1) by (auto simp: bind_res_eq_Inr)
  have avail: "test_isDataAvailable (device b)"
    using Suc.prems(2) by (simp add: test_isDataAvailable_def)
  then have "device b1 = (device b)\<lparr>m_decodeIdx := m_decodeIdx (device b) + 1\<rparr>"
    using step(1) by (auto simp: processByte_def test_readByte_def bind_res_eq_Inr log_bus_def)
  then have more: "m_decodeIdx (device b1) + n \<le> length (m_dataToDecode (device b1))"
    using Suc.prems(2) by simp
  have codes: "err = (if n = 0 then expected else NOT_DONE)" "errs1 = replicate (n - 1) NOT_DONE @ [expected] \<or> n = 0"
    using Suc.prems(3) step(3) by (cases n; simp)+
  have loop: "process_loop crc hs expected n b1 = Inr (True, b')"
    using Suc.IH[OF step(2) more codes(2)] .
  have "vt_isDataAvailable test_vt (device b) = (True, device b)"
    using avail by (simp add: test_vt_def)
  then show ?case
    using step(1) loop codes(1) by simp
qed

lemma BusTest_packets:
  assumes "world_ok w"
  shows "deref (packets (BusTest w)) (m_cmdPacket (BusTest w)) = Inr (local_packet w ''m_cmdPacketData'' 15)"
    "deref (packets (BusTest w)) (m_rspPacket (BusTest w)) = Inr (local_packet w ''m_rspPacketData'' 15)"
    "m_cmdPacket (BusTest w) = 10" "m_rspPacket (BusTest w) = 20" "m_decoder (BusTest w) = new_decoder"
    "device (BusTest w) = \<lparr>m_decodeIdx = 0, m_dataToDecode = [], m_encodedData = []\<rparr>"
  by (simp_all add: BusTest_def new_bus_def deref_ok nullptr_def)

text \<open>A frame goes through \<open>processBytes\<close> as expected.\<close>

lemma processBytes_frame:
  assumes "world_ok w" "AsciiHexToBinary w str = frame_bytes crc8_poly07 c ds" "length ds < 15"
  obtains b d q where "processBytes w hs str NONE (BusTest w) = Inr (True, b)"
    "deref (packets b) 10 = Inr q" "packet_wf q" "m_command q = c" "contents q = ds"
    "m_cmdPacket b = 10" "m_rspPacket b = 20" "m_encodedData (device b) = []"
    "deref (packets b) 20 = Inr (local_packet w ''m_rspPacketData'' 15)"
proof -
  let ?f = "frame_bytes crc8_poly07 c ds"
  let ?b = "(BusTest w)\<lparr>device := (device (BusTest w))\<lparr>m_dataToDecode := ?f\<rparr>\<rparr>"
  note bus = BusTest_packets[OF assms(1)]
  have p: "packet_wf (local_packet w ''m_cmdPacketData'' 15)" "m_maxDataLen (local_packet w ''m_cmdPacketData'' 15) = 15"
    using local_packet_wf[OF assms(1), of 15] by (simp_all add: size_range_def)
  have reads: "reads test_vt (device ?b) ?f ((device ?b)\<lparr>m_decodeIdx := length ?f\<rparr>)"
    using test_reads[of ?f "device ?b"] bus(6) by simp
  have at: "deref (packets ?b) (m_cmdPacket ?b) = Inr (local_packet w ''m_cmdPacketData'' 15)"
    "decoder_ok (m_decoder ?b)" "d_state (m_decoder ?b) = D_IDLE"
    using bus(1,3,5) by (simp_all add: new_decoder_def decoder_ok_def)
  have fit: "length ds < m_maxDataLen (local_packet w ''m_cmdPacketData'' 15)" using assms(3) p(2) by simp
  obtain d' q log where got: "process_bytes crc8_poly07 test_vt hs (length ?f) ?b
       = Inr (replicate (length ?f - 1) NOT_DONE @ [NONE], received ((device ?b)\<lparr>m_decodeIdx := length ?f\<rparr>) d' q log ?b)"
    "step_frame (m_decoder ?b) (local_packet w ''m_cmdPacketData'' 15) d' q" "m_command q = c" "contents q = ds"
    using process_frame[OF reads at(1) p(1) at(2,3) fit, of hs] by metis
  let ?b' = "received ((device ?b)\<lparr>m_decodeIdx := length ?f\<rparr>) d' q log ?b"
  have "process_loop crc8_poly07 hs NONE (length ?f) ?b = Inr (True, ?b')"
    using process_loop_codes[OF got(1)] bus(6) by simp
  then have "processBytes w hs str NONE (BusTest w) = Inr (True, ?b')"
    using assms(2) world_crc_ok[OF assms(1)] by (simp add: processBytes_def Let_def)
  moreover have "deref (packets ?b') 10 = Inr q" "deref (packets ?b') 20 = Inr (local_packet w ''m_rspPacketData'' 15)"
    using bus(1-4) by (simp_all add: deref_ok)
  ultimately show thesis
    using that[of ?b' q] got(3,4) step_frameD(1)[OF got(2)] bus(3,4,6) by simp
qed

lemma more_frames:
  "frame_bytes crc8_poly07 2 [3] = [0xc0, 0x02, 0x03, 0x23, 0xc0]"
  "frame_bytes crc8_poly07 3 [4] = [0xc0, 0x03, 0x04, 0x23, 0xc0]"
proof -
  have "frame_crc crc8_poly07 2 [3] = 0x23" "frame_crc crc8_poly07 3 [4] = 0x23" by code_simp+
  then show "frame_bytes crc8_poly07 2 [3] = [0xc0, 0x02, 0x03, 0x23, 0xc0]"
    "frame_bytes crc8_poly07 3 [4] = [0xc0, 0x03, 0x04, 0x23, 0xc0]"
    by (simp_all add: frame_bytes_def slip_def frame_consts)
qed

lemma process_and_write_pass:
  assumes "world_ok w"
  shows "passes (ProcessByteTest w)" "passes (ProcessByteNoDataTest w)" "passes (WritePacketTest w)"
proof -
  have f: "AsciiHexToBinary w ''c0 01 07 c0'' = frame_bytes crc8_poly07 1 []"
    using hex_strings(6)[OF assms] test_frames(1) by simp
  have len: "length ([] :: u8 list) < 15" by simp
  obtain b q where b: "processBytes w [] ''c0 01 07 c0'' NONE (BusTest w) = Inr (True, b)"
    "deref (packets b) 10 = Inr q" "packet_wf q" "m_command q = 1" "contents q = []" "m_encodedData (device b) = []"
    using processBytes_frame[OF assms f len, of "[]"] by metis
  show "passes (ProcessByteTest w)"
    using b(1) by (simp add: ProcessByteTest_def passes_def)
  show "passes (ProcessByteNoDataTest w)"
    using BusTest_packets(6)[OF assms]
    by (simp add: ProcessByteNoDataTest_def processByte_def test_readByte_def test_isDataAvailable_def passes_def)
  obtain b' where "writePacket crc8_poly07 test_vt [] 10 b = Some (Inr (NONE, b'))"
    "m_encodedData (device b') = frame_bytes crc8_poly07 1 []"
    using tb.writePacket_all_sent[OF b(2,3) TrueI, of crc8_poly07 "[]"] b(4-6) by auto
  then show "passes (WritePacketTest w)"
    using b(1) f world_crc_ok[OF assms]
    by (simp add: WritePacketTest_def test_writePacket_def passes_def Let_def)
qed

text \<open>A test with the handler: what is left is to run \<open>handlePacket\<close> on the emptied response.\<close>

lemma handler_test_passes:
  assumes "world_ok w" "AsciiHexToBinary w str = frame_bytes crc8_poly07 c ds" "length ds < 15"
    and "\<And>b q r. deref (packets b) 10 = Inr q \<Longrightarrow> deref (packets b) 20 = Inr (emptied r) \<Longrightarrow> packet_wf q \<Longrightarrow>
      packet_wf r \<Longrightarrow> m_maxDataLen r = 15 \<Longrightarrow> m_command q = c \<Longrightarrow> contents q = ds \<Longrightarrow>
      m_cmdPacket b = 10 \<Longrightarrow> m_rspPacket b = 20 \<Longrightarrow>
      \<exists>b' rsp. dispatch crc8_poly07 test_vt [setBus test_handler] [setBus test_handler] b = Some (Inr (handled, b')) \<and>
        deref (packets b') 20 = Inr rsp \<and> expected rsp = Inr True"
  shows "passes (handler_test w str handled expected)"
proof -
  let ?r = "local_packet w ''m_rspPacketData'' 15"
  have hs: "add test_handler [] = [setBus test_handler]" by (simp add: add_def)
  have r: "packet_wf ?r" "m_maxDataLen ?r = 15"
    using local_packet_wf[OF assms(1), of 15] by (simp_all add: size_range_def)
  obtain b q where b: "processBytes w [setBus test_handler] str NONE (BusTest w) = Inr (True, b)"
    "deref (packets b) 10 = Inr q" "packet_wf q" "m_command q = c" "contents q = ds"
    "m_cmdPacket b = 10" "m_rspPacket b = 20" "deref (packets b) 20 = Inr ?r"
    using processBytes_frame[OF assms(1-3), of "[setBus test_handler]"] by metis
  let ?b0 = "store_packet 20 (emptied ?r) b"
  have at: "deref (packets ?b0) 10 = Inr q" "deref (packets ?b0) 20 = Inr (emptied ?r)"
    using b(2,8) by (simp_all add: deref_ok)
  obtain b' rsp where "dispatch crc8_poly07 test_vt [setBus test_handler] [setBus test_handler] ?b0
      = Some (Inr (handled, b'))" "deref (packets b') 20 = Inr rsp" "expected rsp = Inr True"
    using assms(4)[OF at b(3) r b(4,5)] b(6,7) by auto
  moreover have "handlePacket crc8_poly07 test_vt [setBus test_handler] b
      = dispatch crc8_poly07 test_vt [setBus test_handler] [setBus test_handler] ?b0"
    using handlePacket_starts_dispatch[of b ?r] b(7,8) by simp
  ultimately show ?thesis
    using b(1) world_crc_ok[OF assms(1)] by (simp add: handler_test_def hs passes_def)
qed

lemma handler_tests_pass:
  assumes "world_ok w"
  shows "passes (HandlerNoResponseTest w)" "passes (HandlerUnhandledTest w)"
proof -
  note hex = more_hex_strings[OF assms, folded more_frames]
  show "passes (HandlerNoResponseTest w)"
    unfolding HandlerNoResponseTest_def
    by (rule handler_test_passes[OF assms hex(9)])
      (simp_all add: setBus_def test_handler_def test_handlePacket_def getCommand_def send_response_def
        getDataLength_def)
  show "passes (HandlerUnhandledTest w)"
    unfolding HandlerUnhandledTest_def
    by (rule handler_test_passes[OF assms hex(10)])
      (simp_all add: setBus_def test_handler_def test_handlePacket_def getCommand_def log_bus_def)
qed

lemma handler_response_passes:
  assumes "world_ok w"
  shows "passes (HandlerWithResponseTest w)"
proof -
  have hex: "AsciiHexToBinary w ''c0 01 02 1b c0'' = frame_bytes crc8_poly07 1 [2]"
    using hex_strings(10)[OF assms] test_frames(2) by simp
  show ?thesis
    unfolding HandlerWithResponseTest_def
  proof (rule handler_test_passes[OF assms hex])
    fix b :: "test_device bus" and q r
    assume b: "deref (packets b) 10 = Inr q" "deref (packets b) 20 = Inr (emptied r)" "packet_wf q" "packet_wf r"
      "m_maxDataLen r = 15" "m_command q = 1" "contents q = [2]" "m_cmdPacket b = 10" "m_rspPacket b = 20"
    let ?r = "put [2] ((emptied r)\<lparr>m_command := 1\<rparr>)" and ?hs = "[setBus test_handler] :: test_device handler list"
    have q: "m_dataLen q = 1" using length_contents[OF b(3)] unfolding b(7) by simp
    have r: "packet_wf ?r" "contents ?r = [2]" "m_command ?r = 1"
      using put_emptied[OF b(4), of "[2]" 1] b(5) by simp_all
    have same: "(emptied r)\<lparr>m_command := x, m_dataLen := 0\<rparr> = (emptied r)\<lparr>m_command := x\<rparr>" for x
      by (simp add: emptied_def)
    have "setData 1 (m_data q) ((emptied r)\<lparr>m_command := 1\<rparr>) = Inr ?r"
      using setData_put[of "(emptied r)\<lparr>m_command := 1\<rparr>" 1 "m_data q"] b(4,5,7) q packet_wf_bounds(2)[OF b(3)]
      by (simp add: same contents_def)
    then have "test_handlePacket True 10 20 b = Inr (True, store_packet 20 ?r b)"
      using b(1,2,6) q
      by (simp add: test_handlePacket_def getCommand_def setCommand_def getDataLength_def getData_def
          deref_store[OF b(2)] deref_store_other[OF b(1)])
    then have sends: "dispatch crc8_poly07 test_vt ?hs ?hs b = send_response crc8_poly07 test_vt ?hs (store_packet 20 ?r b)"
      using b(8,9) by (simp add: setBus_def test_handler_def)
    have "deref (packets (store_packet 20 ?r b)) (m_rspPacket (store_packet 20 ?r b)) = Inr ?r" "m_command ?r \<noteq> 0"
      using b(2,9) r(3) by (simp_all add: deref_store)
    then obtain b' where b': "send_response crc8_poly07 test_vt ?hs (store_packet 20 ?r b) = Some (Inr (True, b'))"
      "deref (packets b') 20 = Inr (with_crc crc8_poly07 ?r)"
      using send_response_frame[OF _ r(1), of "store_packet 20 ?r b" crc8_poly07 test_vt ?hs] b(9)
      by (metis store_packet_fields(2))
    let ?s = "with_crc crc8_poly07 ?r"
    have s: "m_command ?s = 1" "contents ?s = [2]" "packet_wf ?s" "m_crc ?s = 0x1b"
      using r test_crcs(2) by simp_all
    have "m_dataLen ?s = 1" using length_contents[OF s(3)] unfolding s(2) by simp
    then have "bind_res (expect_data 0 [2] ?s) (\<lambda>ok.
       Inr (getCommand ?s = 1 \<and> getDataLength ?s = 1 \<and> ok \<and> getCrc ?s = 0x1b)) = (Inr True :: bool res)"
      using expect_data_contents[OF s(3), of "[]" "[2]"] s(1,2,4)
      by (simp only: list.size append_Nil bind_res_Inr getCommand_def getDataLength_def getCrc_def simp_thms)
    with sends b' show "\<exists>b' rsp. dispatch crc8_poly07 test_vt ?hs ?hs b = Some (Inr (True, b')) \<and>
        deref (packets b') 20 = Inr rsp \<and>
        bind_res (expect_data 0 [2] rsp) (\<lambda>ok.
          Inr (getCommand rsp = 1 \<and> getDataLength rsp = 1 \<and> ok \<and> getCrc rsp = 0x1b)) = (Inr True :: bool res)"
      by metis
  qed simp
qed

lemma bus_tests_pass:
  assumes "world_ok w"
  shows "list_all passes (bus_tests w)"
  using process_and_write_pass[OF assms] handler_tests_pass[OF assms] handler_response_passes[OF assms]
  by (simp add: bus_tests_def)

section \<open>Properties\<close>

text \<open>C19: The unit tests of the library pass: every test of the seven test files, run on the
  model with its own strings and expectations, meets all of them, whatever the arrays, the CRC
  fields and the escape character hold before they are written, and whatever the monitors of
  the handler report.\<close>

theorem unit_tests_pass:
  assumes "world_ok w"
  shows "list_all passes (packet_tests w @ decoder_tests w @ encoder_tests w @ packer_tests w @
    unpacker_tests w @ core_tests w m @ bus_tests w)"
  using packet_tests_pass[OF assms] decoder_tests_pass[OF assms] encoder_tests_pass[OF assms]
    packer_tests_pass[OF assms] unpacker_tests_pass[OF assms] core_tests_pass[OF assms] bus_tests_pass[OF assms]
  by simp

text \<open>A world in which memory starts as zeros, with a reader of hexadecimal text.\<close>

definition hex_value :: "char \<Rightarrow> nat" where
  "hex_value ch = (if of_char ch < (58 :: nat) then of_char ch - 48 else of_char ch - 87)"

fun read_hex :: "string \<Rightarrow> u8 list" where
  "read_hex (a # b # sp # rest) = word_of_nat (16 * hex_value a + hex_value b) # read_hex rest"
| "read_hex [a, b] = [word_of_nat (16 * hex_value a + hex_value b)]"
| "read_hex str = []"

definition zero_world :: test_world where
  "zero_world = \<lparr>world_crc = crc8_poly07, AsciiHexToBinary = read_hex,
     raw_storage = (\<lambda>x n. replicate n 0), raw_crc = (\<lambda>x. 0), raw_char = 0\<rparr>"

lemma hex_value_char:
  assumes "n < 16"
  shows "hex_value (hex_char n) = n"
proof -
  have "\<forall>n \<in> set [0..<16]. hex_value (hex_char n) = n"
    by (simp add: hex_value_def hex_char_def upt_rec)
  with assms show ?thesis by simp
qed

lemma read_hex_text: "read_hex (hex_text bs) = bs"
proof -
  have digits: "word_of_nat (16 * hex_value (hex_char (unat b div 16)) + hex_value (hex_char (unat b mod 16))) = b" for b :: u8
    using unsigned_less[of b, where 'a = nat] by (simp add: hex_value_char less_mult_imp_div_less)
  show ?thesis
    by (induction bs rule: hex_text.induct)
      (simp_all only: hex_text.simps hex_byte_def append.simps read_hex.simps digits)
qed

lemma zero_world_ok: "world_ok zero_world"
  by (simp add: world_ok_def zero_world_def read_hex_text)

theorem unit_tests_pass_witness:
  "list_all passes (packet_tests zero_world @ decoder_tests zero_world @ encoder_tests zero_world @
     packer_tests zero_world @ unpacker_tests zero_world @ core_tests zero_world host_monitor @
     bus_tests zero_world)"
  by (rule unit_tests_pass[OF zero_world_ok])

end
