(* ===== verification/Spec2Isabelle.thy ===== *)
theory Spec2Isabelle
  imports Prelude Append_Buffer Packets Decoder Crc_Laws Encoder Framing Packing Bus Test_Bus
    Core_Handler Conversations Bus_Log Bus_System Driver Serial_Buses Os Linux_Serial Socket_Bus
    Packet_Api Codec_Runs Py_Packet Py_Codec Py_Refines Py_Interop Py_Packing Py_Bus Py_Link
    Py_Logging Py_Buses Py_System
    Slow_Link Usb_Callbacks Py_Threads Py_Session Py_Dump Core_Server Codec_Tests Bus_Tests
begin

text \<open>
  Verification of the library \<^verbatim>\<open>duino_bus\<close>, in C++ (directory \<^verbatim>\<open>src/src\<close> of the repository) and
  in its Python port for the host (directory \<^verbatim>\<open>src/duino_bus\<close>): packets with a command byte and
  some data that travel over a byte stream (a serial port, USB, a TCP socket) in SLIP-like
  frames protected by an 8-bit CRC.

  \<^bold>\<open>The program.\<close> A \<open>Packet\<close> is a command, a CRC and a view of caller-owned storage with a
  length and a capacity. \<open>PacketEncoder\<close> turns a packet into the bytes of a frame one call at
  a time; \<open>PacketDecoder\<close> is the state machine that takes bytes and fills a packet. \<open>Packer\<close>
  and \<open>Unpacker\<close> write and read typed values in a packet's data. \<open>IBus\<close> owns a decoder and an
  encoder, reads and writes bytes through virtual methods, and hands received packets to
  the registered \<open>IPacketHandler\<close>s; \<open>CorePacketHandler\<close> is the handler of the library, and
  \<open>BusLog\<close> a logger that sends its messages over a bus. \<open>ArduinoSerialBus\<close>, \<open>PicoUsbBus\<close>,
  \<open>LinuxSerialBus\<close> and \<open>SocketBus\<close> are the concrete buses. The Python port has the same parts
  (\<open>Packet\<close>, \<open>PacketEncoder\<close>, \<open>PacketDecoder\<close>, \<open>Packer\<close>, \<open>Unpacker\<close>, \<open>IBus\<close>, \<open>SerialBus\<close>,
  \<open>SocketBus\<close>); its bus has a thread that receives packets, logs the log messages and queues
  the others for \<open>send_command_get_response\<close>.

  \<^bold>\<open>Theories\<close>, in the order in which they build on each other:

  \<^item> \<open>Prelude\<close>: byte and result types (a failing assertion, an access out of bounds, a null
    pointer and the use of an unwritten variable are values of \<open>fault\<close>), \<^verbatim>\<open>size_t\<close> arithmetic,
    \<^verbatim>\<open>memcpy\<close> and \<^verbatim>\<open>strnlen\<close>, byte order, the calls of the logging library.
  \<^item> \<open>Append_Buffer\<close>: the locale \<open>append_buffer\<close>, what a bounded buffer promises to its clients.
  \<^item> \<open>Packets\<close> (\<^verbatim>\<open>Packet.cpp\<close>, \<^verbatim>\<open>Packet.h\<close>): the record \<open>packet\<close>, one definition per method,
    the invariant \<open>packet_wf\<close>; the interpretation \<open>pk\<close> of \<open>append_buffer\<close>.
  \<^item> \<open>Decoder\<close> (\<^verbatim>\<open>PacketDecoder.cpp\<close>): \<open>decodeByte\<close> with one definition per state; the abstract
    \<open>receiver\<close>, a machine over lists of bytes without storage, and the proof that the
    decoder refines it (\<open>decode_step_refines\<close>).
  \<^item> \<open>Crc_Laws\<close>: what is used of the CRC function (\<open>crc_laws\<close>), with the CRC-8 of polynomial 7
    as the concrete function of the examples.
  \<^item> \<open>Encoder\<close> (\<^verbatim>\<open>PacketEncoder.cpp\<close>): \<open>encodeStart\<close> and \<open>encodeByte\<close>, the frame a packet stands
    for (\<open>frame_bytes\<close>), and the bytes an encoder still owes (\<open>owed\<close>).
  \<^item> \<open>Framing\<close>: encoder and decoder together: round trips, streams of frames, line noise, a byte
    damaged on the wire (\<open>spells\<close>: the byte sequences a decoder takes for a byte).
  \<^item> \<open>Packing\<close> (\<^verbatim>\<open>Packer.cpp\<close>, \<^verbatim>\<open>Unpacker.cpp\<close>): the values and their layout.
  \<^item> \<open>Bus\<close> (\<^verbatim>\<open>Bus.cpp\<close>): \<open>processByte\<close>, \<open>writePacket\<close>, \<open>handlePacket\<close> and the handler list; the
    locales \<open>byte_device\<close> and \<open>lossless_device\<close>, what \<open>writePacket\<close> relies on in a device.
  \<^item> \<open>Test_Bus\<close> (\<^verbatim>\<open>tests/BusTest.cpp\<close>): the bus of the tests, an instance for examples.
  \<^item> \<open>Core_Handler\<close> (\<^verbatim>\<open>CorePacketHandler.cpp\<close>): the handler, and the locale \<open>packet_handler\<close>
    (what a handler owes the bus) with its two interpretations.
  \<^item> \<open>Conversations\<close>: whole exchanges, from the bytes of a command to those of the response.
  \<^item> \<open>Bus_Log\<close> (\<^verbatim>\<open>BusLog.cpp\<close>): the log frame, and logging while debugging is on.
  \<^item> \<open>Bus_System\<close>: the bus as a transition system (\<open>bus_step\<close>) over all its operations in any
    order, its invariant \<open>bus_inv\<close>, and what cannot go wrong in a reachable state.
  \<^item> \<open>Driver\<close>, \<open>Serial_Buses\<close> (\<^verbatim>\<open>ArduinoSerialBus.cpp\<close>, \<^verbatim>\<open>PicoUsbBus.cpp\<close>), \<open>Os\<close>, \<open>Linux_Serial\<close>
    (\<^verbatim>\<open>LinuxSerialBus.cpp\<close>), \<open>Socket_Bus\<close> (\<^verbatim>\<open>SocketBus.cpp\<close>): the concrete buses over the calls
    they make, each an interpretation of \<open>lossless_device\<close>, and the descriptors and address
    lists they leave open.
  \<^item> \<open>Slow_Link\<close>: \<open>processByte\<close> on a device that delivers its bytes at any pace.
  \<^item> \<open>Usb_Callbacks\<close>: \<open>writePacket\<close> turn by turn (\<open>write_step\<close>, tied to \<open>write_loop\<close> by
    \<open>write_loop_steps\<close>) while other code touches the device between two bytes; the locale
    \<open>disturbed_device\<close>, with the callback of TinyUSB as its interpretation.
  \<^item> \<open>Core_Server\<close>: the loop of an application, \<open>processByte\<close> and \<open>handlePacket\<close> in turn
    (\<open>poll_bus\<close>), as a refinement of an abstract server over the bytes read
    (\<open>server_run\<close>: the receiver of \<open>Decoder\<close>, the reply of each command as a list of bytes, the
    debug flag); the simulation \<open>serves\<close>, and the locale \<open>serving_device\<close>, interpreted on all
    five buses.
  \<^item> \<open>Packet_Api\<close>: any sequence of calls of the public methods of \<open>Packet\<close>; no sequence within
    their contract leaves the storage.
  \<^item> \<open>Codec_Runs\<close>: whole runs of decoder and encoder: refinement of the receiver and of the
    queue of owed bytes, recovery, and that debugging changes only the log.
  \<^item> \<open>Codec_Tests\<close>, \<open>Bus_Tests\<close> (the seven test files of \<^verbatim>\<open>src/tests\<close> that are in C++): every unit
    test as a program over the model with its own strings and expectations, for any contents
    of the memory that the tests leave unwritten (\<open>test_world\<close>).
  \<^item> \<open>Py_Packet\<close> (\<^verbatim>\<open>packet.py\<close>), \<open>Py_Codec\<close> (\<^verbatim>\<open>packet_decoder.py\<close>, \<^verbatim>\<open>packet_encoder.py\<close>),
    \<open>Py_Packing\<close> (\<^verbatim>\<open>packer.py\<close>, \<^verbatim>\<open>unpacker.py\<close>), \<open>Py_Bus\<close> (\<^verbatim>\<open>bus.py\<close>), \<open>Py_Buses\<close>
    (\<^verbatim>\<open>serial_bus.py\<close>, \<^verbatim>\<open>socket_bus.py\<close>): the Python port, one definition per method, with the
    locale \<open>py_byte_device\<close> for what \<open>write_packet\<close> relies on.
  \<^item> \<open>Py_Refines\<close>: the Python decoder refines a receiver, its encoder a queue of owed bytes.
  \<^item> \<open>Py_Interop\<close>: the two implementations against each other: the same frames, mutual round
    trips, where the decoders agree and where they differ.
  \<^item> \<open>Py_Link\<close>: the Python bus at work: writing, the receiving thread, command and response,
    damaged responses, packets waiting in the queue.
  \<^item> \<open>Py_System\<close>: a Python host and a C++ device in conversation, for \<open>PING\<close> and for any
    command to which the core handler has a reply.
  \<^item> \<open>Py_Logging\<close>: values packed in one language and unpacked in the other; log messages from
    \<open>BusLog\<close> to the Python logger.
  \<^item> \<open>Py_Threads\<close>: the receiving thread beside a caller in \<open>write_packet\<close>: what a step of the
    thread leaves alone (\<open>only_reads\<close>), the steps of both in any order (\<open>py_system_step\<close>), and
    the locale \<open>py_duplex_device\<close>, a device whose reading and writing do not disturb each other,
    with the three Python buses as interpretations.
  \<^item> \<open>Py_Session\<close>: several commands on one bus, late responses, and what the thread makes of any
    frame.
  \<^item> \<open>Py_Dump\<close> (\<^verbatim>\<open>dump_mem.py\<close>): the memory dump with its reused line buffer, against the lines
    written out from scratch (\<open>line_of\<close>).

  \<^bold>\<open>How the model corresponds to the code.\<close> A C++ object is a record with the fields of the
  class; a method that changes it returns the new record. Pointers to packets are addresses
  into a \<open>packet_store\<close>, because encoder, decoder and bus share packets; the storage of a
  packet is a list in its record (two packets over overlapping storage are outside the
  model). Assertions are enabled, as in the tests. \<open>size_t\<close> has 32 bits and wraps
  (\<open>size_add\<close>, \<open>size_sub\<close>; only the encoder's \<open>m_encodeIdx\<close> is a number that does not wrap, which
  a packet with 4294967295 bytes of data would show); bytes are 8-bit words. \<open>Log\<close>, \<open>DumpMem\<close>, \<open>Crc8\<close>, \<^verbatim>\<open>vStrXPrintf\<close>,
  \<^verbatim>\<open>mallinfo\<close>, the stack and heap monitors, TinyUSB, \<open>HardwareSerial\<close> and the system calls are
  not in the repository. Logging is recorded as events, and in \<open>live_log\<close> what the logging library does
  with them is the parameter \<open>logger\<close>; \<open>Crc8\<close> is the parameter \<open>crc_fns\<close>,
  whose properties are assumed only where \<open>crc_laws\<close> is a hypothesis; drivers and the
  operating system are functions of the calls made so far (\<open>driver\<close>), so that every
  behaviour of theirs is covered.

  In the Python port integers are unbounded (\<^verbatim>\<open>int\<close>), the exceptions the code can raise are
  values of \<open>py_exn\<close>, and packets and bytearrays live in a heap (\<open>py_heap\<close>), because the code
  shares them by reference: the decoder fills the same packet again and again, and the queue
  holds references. \<^verbatim>\<open>crcmod\<close> is the parameter \<open>crc_fn\<close>, tied to the C++ one by \<open>same_crc\<close> where
  both occur; \<^verbatim>\<open>pyserial\<close>, \<^verbatim>\<open>socket\<close> and \<^verbatim>\<open>select\<close> are drivers; the UTF-8 codec of the language
  is defined. The receiving thread runs over the list of the results of \<^verbatim>\<open>poll\<close>; it and the
  caller are interleaved where the caller waits for the queue (\<open>queue_get\<close>) and, in
  \<open>Py_Threads\<close>, at every byte the caller writes.

  \<^bold>\<open>Loops.\<close> The loop of \<open>writePacket\<close> (\<open>write_loop\<close>) is a partial function, \<open>None\<close> meaning that
  it never returns; \<open>writePacket_writes_the_frame\<close> shows that it always does. \<open>live_log\<close> is one
  too, and \<open>debug_logging_never_returns\<close> shows when it does not return with debugging on: if the
  logging library passes on what is logged while logging (\<open>passes_infos\<close>). The
  loops of the Python encoder (\<open>py_write_loop\<close>, \<open>py_encode_loop\<close>) are partial functions that
  \<open>python_write_is_a_frame_or_a_prefix\<close> and \<open>encoders_agree\<close> show to return. \<open>utf8_decode\<close>
  shortens its input, and \<open>hex_digits\<close> its number. All other recursion is structural. No fuel is used.

  \<^bold>\<open>Not modelled.\<close> The formatting of log messages, the branch of \<^verbatim>\<open>dump_mem.py\<close> for micropython, the
  Python unit tests other than their bus and loop, the messages that \<^verbatim>\<open>ASSERT_DEATH\<close> compares and the
  call of \<^verbatim>\<open>debug\<close> in \<open>UnpackDataTest\<close>, the main loop of an application (the repository has none;
  \<open>poll_bus\<close> is the one its interface is made for), and concurrency beyond the interleavings above:
  the callback of TinyUSB (\<open>tud_cdc_line_state_cb\<close>) happens between operations or between two
  bytes of \<open>writePacket\<close>, and the flags it sets are seen from one bus at a time; a poll of the Python thread and a byte of its caller are
  each one step, and a caller that is not in \<open>write_packet\<close> or waiting for the queue does not run
  beside the thread; what an operation had done before it raised an exception is not kept.
\<close>

section \<open>Properties that span components\<close>

text \<open>C5: A packet crosses a link between two programs unchanged: if a socket whose operating
  system takes every byte is used to write a packet, and another bus, idle and with enough
  room, reads exactly the bytes that were sent, then every \<open>processByte\<close> there returns
  \<open>NOT_DONE\<close> but the last, which returns \<open>NONE\<close> with the same command and data in the command
  packet.\<close>

theorem packet_crosses_the_link:
  assumes "deref (packets a) pa = Inr p" "packet_wf p" "os_takes_all w"
    and "writePacket crc (socket_vt w) hs pa a = Some (Inr (err, a'))"
    and "taken w os_bytes (sock_calls (device a')) = taken w os_bytes (sock_calls (device a)) @ xs"
    and "bus_ok b" "d_state (m_decoder b) = D_IDLE" "reads vt (device b) xs s'"
    and "deref (packets b) (m_cmdPacket b) = Inr c" "length (contents p) < m_maxDataLen c"
  shows "\<exists>b' c'. process_bytes crc vt hs' (length xs) b
      = Inr (replicate (length xs - 1) NOT_DONE @ [NONE], b') \<and>
    deref (packets b') (m_cmdPacket b') = Inr c' \<and>
    getCommand c' = getCommand p \<and> contents c' = contents p"
proof -
  obtain a2 where "writePacket crc (socket_vt w) hs pa a = Some (Inr (NONE, a2))"
    "taken w os_bytes (sock_calls (device a2)) = taken w os_bytes (sock_calls (device a)) @
       frame_bytes crc (m_command p) (contents p)"
    by (rule socket.writePacket_all_sent[OF assms(1-3)])
  with assms(4,5) have xs: "xs = frame_bytes crc (m_command p) (contents p)" by simp
  have wf: "packet_wf c" "decoder_ok (m_decoder b)"
    using assms(6,9) by (auto simp: bus_ok_def)
  obtain d' p' log where
    "process_bytes crc vt hs' (length xs) b
       = Inr (replicate (length xs - 1) NOT_DONE @ [NONE], received s' d' p' log b)"
    "m_command p' = m_command p" "contents p' = contents p"
    using process_frame[OF assms(8)[unfolded xs] assms(9) wf assms(7,10), of hs'] xs by metis
  moreover have "deref (packets (received s' d' p' log b)) (m_cmdPacket (received s' d' p' log b)) = Inr p'"
    using deref_store[OF assms(9)] by simp
  ultimately show ?thesis by (auto simp: getCommand_def)
qed

text \<open>The packet with command 1 and data 2, sent through a socket to the bus of the tests.\<close>

definition sending_bus :: "socket_dev bus" where
  "sending_bus = new_bus 10 20 nullptr nullptr [10 \<mapsto> sample_packet] \<lparr>m_socket = 4, sock_calls = []\<rparr> 0"

definition taking_os :: os where
  "taking_os cs c = (example_os (\<lambda>c. False) cs c)\<lparr>rc := 1\<rparr>"

theorem packet_crosses_the_link_witness:
  "\<exists>a' b' c'. writePacket crc8_poly07 (socket_vt taking_os) [] 10 sending_bus = Some (Inr (NONE, a')) \<and>
    taken taking_os os_bytes (sock_calls (device a')) = [0xC0, 1, 2, 0x1b, 0xC0] \<and>
    process_bytes crc8_poly07 test_vt [] 5 (test_bus [0xC0, 1, 2, 0x1b, 0xC0])
      = Inr ([NOT_DONE, NOT_DONE, NOT_DONE, NOT_DONE, NONE], b') \<and>
    deref (packets b') (m_cmdPacket b') = Inr c' \<and> getCommand c' = 1 \<and> contents c' = [2]"
proof -
  let ?frame = "[0xC0, 1, 2, 0x1b, 0xC0] :: u8 list"
  have p: "deref (packets sending_bus) 10 = Inr sample_packet"
    by (simp add: sending_bus_def new_bus_def deref_ok nullptr_def)
  have all: "os_takes_all taking_os"
    by (simp add: os_takes_all_def taking_os_def)
  obtain a' where a': "writePacket crc8_poly07 (socket_vt taking_os) [] 10 sending_bus = Some (Inr (NONE, a'))"
    "taken taking_os os_bytes (sock_calls (device a')) = taken taking_os os_bytes (sock_calls (device sending_bus)) @
       frame_bytes crc8_poly07 (m_command sample_packet) (contents sample_packet)"
    by (rule socket.writePacket_all_sent[OF p sample_packet_props(1) all])
  then have sent: "taken taking_os os_bytes (sock_calls (device a'))
      = taken taking_os os_bytes (sock_calls (device sending_bus)) @ ?frame"
    by (simp add: sample_packet_props ping_frame)
  have at: "deref (packets (test_bus ?frame)) (m_cmdPacket (test_bus ?frame)) = Inr (blank_packet 15)"
    "d_state (m_decoder (test_bus ?frame)) = D_IDLE"
    "length (contents sample_packet) < m_maxDataLen (blank_packet 15)"
    by (simp_all add: new_decoder_def sample_packet_props)
  have shape: "length ?frame = 5"
    "replicate (5 - 1) NOT_DONE @ [NONE] = [NOT_DONE, NOT_DONE, NOT_DONE, NOT_DONE, NONE]"
    by (simp_all add: numeral_eq_Suc)
  have "sock_calls (device sending_bus) = []"
    by (simp add: sending_bus_def new_bus_def)
  with a'(1) sent packet_crosses_the_link[OF p sample_packet_props(1) all a'(1) sent test_bus_ok at(2)
      test_bus_reads at(1,3), of "[]"]
  show ?thesis
    unfolding shape(1) unfolding shape(2) by (auto simp: getCommand_def sample_packet_props)
qed

end
